(* ===== verification/Prelude.thy ===== *)
theory Prelude
  imports Main "HOL-Library.Char_ord" "HOL-Library.List_Lexorder" "HOL-Library.Sublist"
    "HOL-Library.Multiset"
begin

text \<open>
  What every component shares: the JavaScript values the source computes with (numbers with
  their not-a-number and infinite values, strings, template texts), the one stable sort of
  \<^verbatim>\<open>packages/runner-core/src/primitives/canonical.ts\<close>, and the generic lemmas on lists and
  maps the component theories use.

  A string is a list of bytes, the UTF-8 encoding of the JavaScript string. Every operation
  the modelled code applies to a string (equality, splitting and searching at an ASCII
  character, concatenation, the empty test, the byte length of its encoding) agrees with the
  code on this representation. The order of two strings (used only to sort) is the byte
  order, which is the code-unit order of JavaScript except between a surrogate pair and a
  character from U+E000 to U+FFFF.
\<close>

section \<open>Collections of facts\<close>

named_theorems frame_simps
  \<open>what an operation leaves unchanged: one equation per field\<close>

named_theorems branch_simps
  \<open>the value of an operation on each of its branches\<close>

section \<open>Numbers\<close>

text \<open>
  A JavaScript number: an integer (the modelled counts, sizes, versions and codes are
  integers far below \<open>2 ^ 53\<close>, where double arithmetic is exact), or one of the values that
  comparisons silently let through.
\<close>

datatype js_number = Num int | NaN | PlusInfinity | MinusInfinity

fun js_finite :: "js_number \<Rightarrow> bool" where
  "js_finite (Num _) = True"
| "js_finite _ = False"

fun js_gt :: "js_number \<Rightarrow> js_number \<Rightarrow> bool" where
  "js_gt NaN _ = False"
| "js_gt _ NaN = False"
| "js_gt (Num a) (Num b) = (a > b)"
| "js_gt PlusInfinity PlusInfinity = False"
| "js_gt PlusInfinity _ = True"
| "js_gt MinusInfinity _ = False"
| "js_gt (Num _) PlusInfinity = False"
| "js_gt (Num _) MinusInfinity = True"

fun js_plus :: "js_number \<Rightarrow> js_number \<Rightarrow> js_number" where
  "js_plus NaN _ = NaN"
| "js_plus _ NaN = NaN"
| "js_plus (Num a) (Num b) = Num (a + b)"
| "js_plus PlusInfinity MinusInfinity = NaN"
| "js_plus MinusInfinity PlusInfinity = NaN"
| "js_plus PlusInfinity _ = PlusInfinity"
| "js_plus MinusInfinity _ = MinusInfinity"
| "js_plus (Num _) PlusInfinity = PlusInfinity"
| "js_plus (Num _) MinusInfinity = MinusInfinity"

text \<open>
  The result of an operation that an untyped value can make throw (reading a member of
  \<^verbatim>\<open>null\<close> or \<^verbatim>\<open>undefined\<close>).
\<close>

datatype 'a js = Returned 'a | Threw

section \<open>Strings and texts\<close>

text \<open>The decimal digits of a number, as \<^verbatim>\<open>String(n)\<close> prints them.\<close>

fun digits_of_nat :: "nat \<Rightarrow> string" where
  "digits_of_nat n =
     (if n < 10 then [char_of (48 + n)]
      else digits_of_nat (n div 10) @ [char_of (48 + n mod 10)])"

declare digits_of_nat.simps [simp del]

definition string_of_int :: "int \<Rightarrow> string" where
  "string_of_int i =
     (if i < 0 then ''-'' @ digits_of_nat (nat (- i)) else digits_of_nat (nat i))"

fun js_string :: "js_number \<Rightarrow> string" where
  "js_string (Num i) = string_of_int i"
| "js_string NaN = ''NaN''"
| "js_string PlusInfinity = ''Infinity''"
| "js_string MinusInfinity = ''-Infinity''"

text \<open>
  A template text: the concatenation of its pieces. The dash of the messages is the UTF-8
  encoding of U+2014.
\<close>

definition template :: "string list \<Rightarrow> string" where
  "template = concat"

definition em_dash :: string where
  "em_dash = [CHR 0xE2, CHR 0x80, CHR 0x94]"

definition quoted :: "string \<Rightarrow> string" where
  "quoted s = [CHR 0x22] @ s @ [CHR 0x22]"

text \<open>
  \<^verbatim>\<open>JSON.stringify(s)\<close> of a text: quotes and backslashes are escaped, control characters are
  written with their short escape or in four hexadecimal digits.
\<close>

definition hex_digit :: "nat \<Rightarrow> char" where
  "hex_digit n = char_of (if n < 10 then 48 + n else 87 + n)"

definition json_escape :: "char \<Rightarrow> string" where
  "json_escape c =
     (if c = CHR 0x22 \<or> c = CHR 0x5C then [CHR 0x5C, c]
      else if c = CHR 0x08 then [CHR 0x5C, CHR ''b'']
      else if c = CHR 0x09 then [CHR 0x5C, CHR ''t'']
      else if c = CHR 0x0A then [CHR 0x5C, CHR ''n'']
      else if c = CHR 0x0C then [CHR 0x5C, CHR ''f'']
      else if c = CHR 0x0D then [CHR 0x5C, CHR ''r'']
      else if of_char c < (32 :: nat) then
        CHR 0x5C # ''u00'' @ [hex_digit (of_char c div 16), hex_digit (of_char c mod 16)]
      else [c])"

definition json_quote :: "string \<Rightarrow> string" where
  "json_quote s = [CHR 0x22] @ concat (map json_escape s) @ [CHR 0x22]"

text \<open>\<^verbatim>\<open>xs.join(sep)\<close>.\<close>

fun join :: "string \<Rightarrow> string list \<Rightarrow> string" where
  "join sep [] = []"
| "join sep [x] = x"
| "join sep (x # y # ys) = x @ sep @ join sep (y # ys)"

text \<open>\<^verbatim>\<open>s.split('c')\<close> for a one-character separator: always at least one piece.\<close>

fun split_at_char :: "char \<Rightarrow> string \<Rightarrow> string list" where
  "split_at_char c [] = [[]]"
| "split_at_char c (x # xs) =
     (if x = c then [] # split_at_char c xs
      else (case split_at_char c xs of
              [] \<Rightarrow> [[x]]
            | p # ps \<Rightarrow> (x # p) # ps))"

lemma split_at_char_nonempty [simp]: "split_at_char c s \<noteq> []"
  by (induction s) (auto split: list.splits)

lemma split_at_char_free: "c \<notin> set s \<Longrightarrow> split_at_char c s = [s]"
  by (induction s) auto

lemma split_at_char_append:
  "c \<notin> set p \<Longrightarrow> split_at_char c (p @ c # s) = p # split_at_char c s"
  by (induction p) auto

lemma split_at_char_pieces: "p \<in> set (split_at_char c s) \<Longrightarrow> c \<notin> set p"
proof (induction s arbitrary: p)
  case Nil
  then show ?case by simp
next
  case (Cons x xs)
  show ?case
  proof (cases "x = c")
    case True
    with Cons show ?thesis by auto
  next
    case False
    obtain q qs where q: "split_at_char c xs = q # qs"
      by (cases "split_at_char c xs") auto
    with Cons.prems False have "p = x # q \<or> p \<in> set qs" by auto
    moreover have "c \<notin> set q" "\<And>r. r \<in> set qs \<Longrightarrow> c \<notin> set r"
      using Cons.IH q by auto
    ultimately show ?thesis using False by auto
  qed
qed

text \<open>Splitting a join of pieces that do not hold the separator gives the pieces back.\<close>

lemma split_join:
  "ps \<noteq> [] \<Longrightarrow> \<forall>p \<in> set ps. c \<notin> set p \<Longrightarrow> split_at_char c (join [c] ps) = ps"
proof (induction "[c]" ps rule: join.induct)
  case 1
  then show ?case by simp
next
  case (2 x)
  then show ?case by (simp add: split_at_char_free)
next
  case (3 x y ys)
  then show ?case by (simp add: split_at_char_append)
qed

lemma join_split: "join [c] (split_at_char c s) = s"
proof (induction s)
  case Nil
  then show ?case by simp
next
  case (Cons x xs)
  obtain q qs where "split_at_char c xs = q # qs"
    by (cases "split_at_char c xs") auto
  with Cons show ?case by (cases qs) auto
qed

lemma join_append:
  "ps \<noteq> [] \<Longrightarrow> qs \<noteq> [] \<Longrightarrow> join sep (ps @ qs) = join sep ps @ sep @ join sep qs"
proof (induction sep ps rule: join.induct)
  case (2 sep x)
  then show ?case by (cases qs) auto
qed auto

lemma join_not_Nil: "ps \<noteq> [] \<Longrightarrow> \<forall>p \<in> set ps. p \<noteq> [] \<Longrightarrow> join sep ps \<noteq> []"
  by (induction sep ps rule: join.induct) auto

text \<open>The digits determine the number.\<close>

definition digits_value :: "string \<Rightarrow> nat" where
  "digits_value s = foldl (\<lambda>v c. 10 * v + (of_char c - 48)) 0 s"

lemma digits_value_digits [simp]: "digits_value (digits_of_nat n) = n"
proof (induction n rule: digits_of_nat.induct)
  case (1 n)
  have digit: "of_char (char_of (48 + k) :: char) - 48 = k" if "k < 10" for k :: nat
    using that by (simp add: of_char_of)
  show ?case
  proof (cases "n < 10")
    case True
    then show ?thesis by (simp add: digits_of_nat.simps[of n] digits_value_def digit)
  next
    case False
    then have "digits_value (digits_of_nat n) = 10 * (n div 10) + n mod 10"
      using 1 by (simp add: digits_of_nat.simps[of n] digits_value_def digit)
    then show ?thesis by simp
  qed
qed

lemma digits_of_nat_inj [simp]: "digits_of_nat m = digits_of_nat n \<longleftrightarrow> m = n"
  by (metis digits_value_digits)

lemma string_of_nat_inj [simp]: "string_of_int (int m) = string_of_int (int n) \<longleftrightarrow> m = n"
  by (simp add: string_of_int_def)

section \<open>The canonical sort\<close>

text \<open>
  \<^verbatim>\<open>[...items].sort(...)\<close> with the comparator of \<^verbatim>\<open>canonicalSort\<close>: JavaScript's sort is stable,
  and \<open>sort_key\<close> is the stable sort of the library.
\<close>

definition canonicalSort :: "('a \<Rightarrow> string) \<Rightarrow> 'a list \<Rightarrow> 'a list" where
  "canonicalSort keyOf items = sort_key keyOf items"

lemma canonicalSort_Nil [simp]: "canonicalSort k [] = []"
  by (simp add: canonicalSort_def)

lemma set_canonicalSort [simp]: "set (canonicalSort k xs) = set xs"
  by (simp add: canonicalSort_def)

lemma mset_canonicalSort [simp]: "mset (canonicalSort k xs) = mset xs"
  by (simp add: canonicalSort_def)

lemma length_canonicalSort [simp]: "length (canonicalSort k xs) = length xs"
  by (simp add: canonicalSort_def)

lemma sorted_canonicalSort [simp]: "sorted (map k (canonicalSort k xs))"
  by (simp add: canonicalSort_def)

lemma canonicalSort_idem [simp]: "canonicalSort k (canonicalSort k xs) = canonicalSort k xs"
  by (simp add: canonicalSort_def sort_key_id_if_sorted)

text \<open>
  Independence of the presentation order: two lists with the same elements and no two equal
  keys sort to the same list.
\<close>

lemma canonicalSort_perm:
  assumes "mset xs = mset ys" and "inj_on k (set xs)"
  shows "canonicalSort k xs = canonicalSort k ys"
  unfolding canonicalSort_def
proof (rule properties_for_sort_key)
  show "mset (sort_key k ys) = mset xs" using assms(1) by simp
next
  show "sorted (map k (sort_key k ys))" by simp
next
  have "set xs = set ys" using assms(1) by (rule mset_eq_setD)
  fix z assume "z \<in> set (sort_key k ys)"
  then have "z \<in> set xs" using \<open>set xs = set ys\<close> by simp
  have one: "filter (\<lambda>y. k z = k y) zs = filter (\<lambda>y. y = z) zs" if "set zs = set xs" for zs
    using assms(2) \<open>z \<in> set xs\<close> that by (auto intro!: filter_cong simp: inj_on_def)
  have rep: "filter (\<lambda>y. y = z) zs = replicate (count (mset zs) z) z" for zs
    by (induction zs) auto
  show "filter (\<lambda>y. k z = k y) (sort_key k ys) = filter (\<lambda>y. k z = k y) xs"
    using assms(1) \<open>set xs = set ys\<close> by (simp add: one rep)
qed

section \<open>Lists and maps\<close>

text \<open>A set from a list keeps the first mention of every element, in order.\<close>

fun set_of_list :: "string list \<Rightarrow> string list" where
  "set_of_list [] = []"
| "set_of_list (x # xs) = x # filter (\<lambda>y. y \<noteq> x) (set_of_list xs)"

lemma set_of_list [simp]: "set (set_of_list xs) = set xs"
  by (induction xs) auto

lemma find_None_iff_list: "find P xs = None \<longleftrightarrow> (\<forall>x \<in> set xs. \<not> P x)"
  by (auto simp: find_None_iff)

lemma filter_append_disjoint:
  "\<forall>y \<in> set ys. \<not> P y \<Longrightarrow> filter P (xs @ ys) = filter P xs"
  by (simp add: filter_False)

lemma filter_out_added:
  "\<forall>x \<in> set xs. P x \<Longrightarrow> \<forall>y \<in> set ys. \<not> P y \<Longrightarrow> filter P (xs @ ys) = xs"
  by (simp add: filter_id_conv)

lemma map_of_None_iff: "map_of xs k = None \<longleftrightarrow> k \<notin> fst ` set xs"
  by (simp add: map_of_eq_None_iff)

end
