(* ===== verification/Manifest.thy ===== *)
theory Manifest
  imports Prelude
begin

text \<open>
  The canonical manifest of an immutable set release, and its strict parser:
  \<^verbatim>\<open>canonicalSetReleaseManifest\<close>, \<^verbatim>\<open>parseSetReleaseManifest\<close> and
  \<^verbatim>\<open>isCanonicalSetReleaseManifest\<close> of
  \<^verbatim>\<open>packages/knowledge-toolchain/src/set-release.ts\<close>.

  Texts and bytes are both byte lists (see the prelude): the UTF-8 encoder is the identity on
  this representation, the UTF-8 decoder is the test of validity, and the order by bytes is the
  lexicographic order. The parameter \<open>nfc\<close> is \<^verbatim>\<open>String.prototype.normalize\<close> with the
  tables of Unicode; the properties assume of it that a text of ASCII characters is its own normal
  form, as Unicode documents.
\<close>

section \<open>Numbers of a release\<close>

text \<open>
  A JavaScript number as this code tells numbers apart: a whole one, one with a fraction, or
  one that is not finite. The fraction itself is never read.
\<close>

datatype Number = Whole int | Fractional | Not_finite

definition MAX_SAFE_INTEGER :: int where
  "MAX_SAFE_INTEGER = 2 ^ 53 - 1"

text \<open>
  The value of \<^verbatim>\<open>Number(digits)\<close>: exact below \<open>2 ^ 53\<close>; above it the nearest number with a
  53-bit significand, the even one at a tie; from \<open>2 ^ 1024\<close> on not finite.
\<close>

fun halvings :: "nat \<Rightarrow> nat" where
  "halvings n = (if n < 2 ^ 53 then 0 else Suc (halvings (n div 2)))"

declare halvings.simps [simp del]

definition rounded :: "nat \<Rightarrow> nat" where
  "rounded n =
    (let unit = 2 ^ halvings n; q = n div unit; r = n mod unit in
     (if 2 * r > unit \<or> (2 * r = unit \<and> odd q) then q + 1 else q) * unit)"

definition number_of :: "nat \<Rightarrow> Number" where
  "number_of n = (if rounded n < 2 ^ 1024 then Whole (int (rounded n)) else Not_finite)"

section \<open>The logical release\<close>

record ReleaseMember =
  rm_id :: string
  rm_version :: string
  rm_digest :: string

record LogicalRelease =
  lr_family :: string
  lr_version :: string
  lr_runnerClass :: string
  lr_allowTaskAdditions :: bool
  lr_allowTaskNarrowing :: bool
  lr_maxBytes :: Number
  lr_maxFreshnessDays :: Number
  lr_requiredFailure :: string
  lr_optionalFailure :: string
  lr_overrideAuthority :: string
  lr_deny :: "string list"
  lr_required :: "ReleaseMember list"
  lr_optional :: "ReleaseMember list"

record ReleaseRefusal =
  rr_rule :: string
  rr_detail :: string

datatype 'a ReleaseResult = Release_ok 'a | Release_refused "ReleaseRefusal list"

definition refuse_rule :: "string \<Rightarrow> string \<Rightarrow> ReleaseRefusal" where
  "refuse_rule rule detail = \<lparr>rr_rule = rule, rr_detail = detail\<rparr>"

section \<open>Grammars\<close>

definition SP :: char where "SP = CHR 0x20"
definition NUL_BYTE :: char where "NUL_BYTE = CHR 0x00"
definition LF_BYTE :: char where "LF_BYTE = CHR 0x0A"
definition CR_BYTE :: char where "CR_BYTE = CHR 0x0D"

definition SET_RELEASE_FORMAT :: string where
  "SET_RELEASE_FORMAT = ''okf-set-release-v1''"

definition digit_char :: "char \<Rightarrow> bool" where
  "digit_char c \<longleftrightarrow> c \<in> set ''0123456789''"

definition is_lower_hex :: "char \<Rightarrow> bool" where
  "is_lower_hex c \<longleftrightarrow> c \<in> set ''0123456789abcdef''"

definition lower_char :: "char \<Rightarrow> bool" where
  "lower_char c \<longleftrightarrow> c \<in> set ''abcdefghijklmnopqrstuvwxyz''"

definition is_id_char :: "char \<Rightarrow> bool" where
  "is_id_char c \<longleftrightarrow> lower_char c \<or> digit_char c \<or> c = CHR ''-''"

text \<open>\<^verbatim>\<open>/^[0-9]+\.[0-9]+\.[0-9]+$/\<close>\<close>

definition RELEASE_VERSION :: "string \<Rightarrow> bool" where
  "RELEASE_VERSION s \<longleftrightarrow>
    length (split_at_char (CHR ''.'') s) = 3 \<and>
    list_all (\<lambda>p. p \<noteq> [] \<and> list_all digit_char p) (split_at_char (CHR ''.'') s)"

text \<open>\<^verbatim>\<open>/^[0-9a-f]{64}$/\<close>\<close>

definition BARE_SHA256 :: "string \<Rightarrow> bool" where
  "BARE_SHA256 s \<longleftrightarrow> length s = 64 \<and> list_all is_lower_hex s"

text \<open>\<^verbatim>\<open>/^[a-z][a-z0-9-]*$/\<close>\<close>

definition SET_FAMILY_ID :: "string \<Rightarrow> bool" where
  "SET_FAMILY_ID s \<longleftrightarrow> s \<noteq> [] \<and> lower_char (hd s) \<and> list_all is_id_char s"

text \<open>\<^verbatim>\<open>/^[a-z][a-z0-9-]*\/[a-z][a-z0-9-]*$/\<close>\<close>

definition MODULE_ID :: "string \<Rightarrow> bool" where
  "MODULE_ID s \<longleftrightarrow>
    length (split_at_char (CHR ''/'') s) = 2 \<and>
    list_all SET_FAMILY_ID (split_at_char (CHR ''/'') s)"

text \<open>\<^verbatim>\<open>/^sha256:[0-9a-f]{64}$/\<close>\<close>

definition PREFIXED_SHA256 :: "string \<Rightarrow> bool" where
  "PREFIXED_SHA256 s \<longleftrightarrow> take 7 s = ''sha256:'' \<and> BARE_SHA256 (drop 7 s)"

text \<open>\<^verbatim>\<open>/^(0|[1-9][0-9]*)$/\<close>\<close>

definition INT_TOKEN :: "string \<Rightarrow> bool" where
  "INT_TOKEN s \<longleftrightarrow> s = ''0'' \<or> (s \<noteq> [] \<and> hd s \<noteq> CHR ''0'' \<and> list_all digit_char s)"

section \<open>Admissible values\<close>

definition stringProblem :: "(string \<Rightarrow> string) \<Rightarrow> string \<Rightarrow> string option" where
  "stringProblem nfc value =
    (if value = [] then Some ''is empty''
     else if nfc value \<noteq> value then Some ''is not NFC-normalized''
     else if NUL_BYTE \<in> set value then Some ''contains NUL''
     else if LF_BYTE \<in> set value then Some ''contains LF''
     else if CR_BYTE \<in> set value then Some ''contains CR''
     else None)"

definition ASCII_WHITESPACE_CODES :: string where
  "ASCII_WHITESPACE_CODES =
    [CHR 0x09, CHR 0x0A, CHR 0x0B, CHR 0x0C, CHR 0x0D, CHR 0x20]"

definition hasAsciiWhitespace :: "string \<Rightarrow> bool" where
  "hasAsciiWhitespace value \<longleftrightarrow> list_ex (\<lambda>c. c \<in> set ASCII_WHITESPACE_CODES) value"

definition tokenProblem :: "(string \<Rightarrow> string) \<Rightarrow> string \<Rightarrow> string option" where
  "tokenProblem nfc value =
    (case stringProblem nfc value of
       Some problem \<Rightarrow> Some problem
     | None \<Rightarrow>
         if hasAsciiWhitespace value then Some ''contains ASCII whitespace'' else None)"

fun intProblem :: "Number \<Rightarrow> string option" where
  "intProblem (Whole i) =
    (if i < 0 then Some ''is not a non-negative integer''
     else if i \<le> MAX_SAFE_INTEGER then None
     else Some ''is not a safe integer; its decimal spelling would not round-trip'')"
| "intProblem Fractional = Some ''is not a non-negative integer''"
| "intProblem Not_finite = Some ''is not a non-negative integer''"

section \<open>Serialization\<close>

definition scalarLine :: "string \<Rightarrow> string \<Rightarrow> string" where
  "scalarLine name value = template [name, [SP], value] @ [LF_BYTE]"

definition memberLine :: "string \<Rightarrow> ReleaseMember \<Rightarrow> string" where
  "memberLine kind m =
    concat [template [kind, [SP], rm_id m], [NUL_BYTE], rm_version m, [NUL_BYTE], rm_digest m,
      [LF_BYTE]]"

definition bool_text :: "bool \<Rightarrow> string" where
  "bool_text b = (if b then ''true'' else ''false'')"

fun number_text :: "Number \<Rightarrow> string" where
  "number_text (Whole i) = string_of_int i"
| "number_text Fractional = ''fraction''"
| "number_text Not_finite = ''NaN''"

definition token_refusals :: "(string \<Rightarrow> string) \<Rightarrow> string \<Rightarrow> string \<Rightarrow> ReleaseRefusal list" where
  "token_refusals nfc field value =
    (case tokenProblem nfc value of
       Some problem \<Rightarrow> [refuse_rule ''manifest.token'' (template [quoted field, '' '', problem])]
     | None \<Rightarrow> [])"

definition integer_refusals :: "string \<Rightarrow> Number \<Rightarrow> ReleaseRefusal list" where
  "integer_refusals field value =
    (case intProblem value of
       Some problem \<Rightarrow> [refuse_rule ''manifest.integer'' (template [quoted field, '' '', problem])]
     | None \<Rightarrow> [])"

fun deny_refusals :: "(string \<Rightarrow> string) \<Rightarrow> string set \<Rightarrow> string list \<Rightarrow> ReleaseRefusal list" where
  "deny_refusals nfc denySeen [] = []"
| "deny_refusals nfc denySeen (pattern # rest) =
    (case tokenProblem nfc pattern of
       Some problem \<Rightarrow>
         [refuse_rule ''manifest.deny'' (template [''deny '', quoted pattern, '' '', problem])]
     | None \<Rightarrow> []) @
    (if pattern \<in> denySeen
     then [refuse_rule ''manifest.deny'' (template [''deny '', quoted pattern, '' repeats''])] else []) @
    deny_refusals nfc (insert pattern denySeen) rest"

definition member_field_refusals ::
  "(string \<Rightarrow> string) \<Rightarrow> string \<Rightarrow> string \<Rightarrow> string \<times> string \<Rightarrow> ReleaseRefusal list" where
  "member_field_refusals nfc kind mid = (\<lambda>(field, value).
    (case tokenProblem nfc value of
       Some problem \<Rightarrow>
         [refuse_rule (template [''manifest.'', kind])
           (template [kind, '' '', quoted mid, '' '', field, '' '', problem])]
     | None \<Rightarrow> []))"

fun checkMembers ::
  "(string \<Rightarrow> string) \<Rightarrow> string \<Rightarrow> string set \<Rightarrow> ReleaseMember list \<Rightarrow> ReleaseRefusal list" where
  "checkMembers nfc kind seen [] = []"
| "checkMembers nfc kind seen (m # members) =
    concat (map (member_field_refusals nfc kind (rm_id m))
      [(''id'', rm_id m), (''version'', rm_version m), (''digest'', rm_digest m)]) @
    (if MODULE_ID (rm_id m) then []
     else [refuse_rule (template [''manifest.'', kind])
       (template [kind, '' '', quoted (rm_id m), '' is not a module id''])]) @
    (if BARE_SHA256 (rm_digest m) then []
     else [refuse_rule (template [''manifest.'', kind])
       (template [kind, '' '', quoted (rm_id m), '' digest must be bare lowercase 64-hex, not '',
         quoted (rm_digest m)])]) @
    (if rm_id m \<in> seen
     then [refuse_rule (template [''manifest.'', kind])
       (template [kind, '' '', quoted (rm_id m), '' repeats''])]
     else []) @
    checkMembers nfc kind (insert (rm_id m) seen) members"

definition overlap_refusals ::
  "ReleaseMember list \<Rightarrow> ReleaseMember list \<Rightarrow> ReleaseRefusal list" where
  "overlap_refusals required optional =
    map (\<lambda>m. refuse_rule ''manifest.overlap''
        (template [quoted (rm_id m), '' is both required and optional'']))
      (filter (\<lambda>m. rm_id m \<in> rm_id ` set required) optional)"

definition manifest_refusals ::
  "(string \<Rightarrow> string) \<Rightarrow> LogicalRelease \<Rightarrow> ReleaseRefusal list" where
  "manifest_refusals nfc release =
    token_refusals nfc ''family'' (lr_family release) @
    (if tokenProblem nfc (lr_family release) = None \<and> \<not> SET_FAMILY_ID (lr_family release)
     then [refuse_rule ''manifest.family''
       (template [quoted (lr_family release), '' is not a repository set-family id''])]
     else []) @
    token_refusals nfc ''runnerClass'' (lr_runnerClass release) @
    token_refusals nfc ''requiredFailure'' (lr_requiredFailure release) @
    token_refusals nfc ''optionalFailure'' (lr_optionalFailure release) @
    token_refusals nfc ''overrideAuthority'' (lr_overrideAuthority release) @
    (if RELEASE_VERSION (lr_version release) then []
     else [refuse_rule ''manifest.version''
       (template [quoted (lr_version release), '' is not DIGIT+.DIGIT+.DIGIT+''])]) @
    integer_refusals ''maxBytes'' (lr_maxBytes release) @
    integer_refusals ''maxFreshnessDays'' (lr_maxFreshnessDays release) @
    deny_refusals nfc {} (lr_deny release) @
    checkMembers nfc ''required'' {} (lr_required release) @
    checkMembers nfc ''optional'' {} (lr_optional release) @
    overlap_refusals (lr_required release) (lr_optional release)"

definition scalar_chunks :: "LogicalRelease \<Rightarrow> string list" where
  "scalar_chunks release =
    [scalarLine ''family'' (lr_family release),
     scalarLine ''version'' (lr_version release),
     scalarLine ''runnerClass'' (lr_runnerClass release),
     scalarLine ''allowTaskAdditions'' (bool_text (lr_allowTaskAdditions release)),
     scalarLine ''allowTaskNarrowing'' (bool_text (lr_allowTaskNarrowing release)),
     scalarLine ''maxBytes'' (number_text (lr_maxBytes release)),
     scalarLine ''maxFreshnessDays'' (number_text (lr_maxFreshnessDays release)),
     scalarLine ''requiredFailure'' (lr_requiredFailure release),
     scalarLine ''optionalFailure'' (lr_optionalFailure release),
     scalarLine ''overrideAuthority'' (lr_overrideAuthority release)]"

definition manifest_chunks :: "LogicalRelease \<Rightarrow> string list" where
  "manifest_chunks release =
    [SET_RELEASE_FORMAT @ [LF_BYTE]] @ scalar_chunks release @
    map (scalarLine ''deny'') (canonicalSort id (lr_deny release)) @
    map (memberLine ''required'') (canonicalSort rm_id (lr_required release)) @
    map (memberLine ''optional'') (canonicalSort rm_id (lr_optional release))"

definition canonicalSetReleaseManifest ::
  "(string \<Rightarrow> string) \<Rightarrow> LogicalRelease \<Rightarrow> string ReleaseResult" where
  "canonicalSetReleaseManifest nfc release =
    (if manifest_refusals nfc release \<noteq> [] then Release_refused (manifest_refusals nfc release)
     else Release_ok (concat (manifest_chunks release)))"

text \<open>The digest, for the platform's hash \<open>sha256\<close> to hexadecimal digits.\<close>

definition digestSetReleaseManifest :: "(string \<Rightarrow> string) \<Rightarrow> string \<Rightarrow> string" where
  "digestSetReleaseManifest sha256 bytes = template [''sha256:'', sha256 bytes]"

section \<open>The strict parser\<close>

text \<open>The bytes \<^verbatim>\<open>TextDecoder('utf-8', {fatal: true})\<close> accepts: \<open>valid_utf8\<close> below.\<close>

definition code :: "char \<Rightarrow> nat" where "code c = of_char c"

definition within :: "nat \<Rightarrow> nat \<Rightarrow> char \<Rightarrow> bool" where
  "within lo hi c \<longleftrightarrow> lo \<le> code c \<and> code c \<le> hi"

definition continuation :: "char \<Rightarrow> bool" where
  "continuation c \<longleftrightarrow> within 0x80 0xBF c"

text \<open>
  The length of the well-formed sequence at the head of the bytes (one to four), \<open>0\<close> when there
  is none: no overlong form, no surrogate, nothing above U+10FFFF.
\<close>

definition lead :: "string \<Rightarrow> nat" where
  "lead s =
    (case s of
       [] \<Rightarrow> 0
     | a # t \<Rightarrow>
         if within 0 0x7F a then 1
         else (case t of
             [] \<Rightarrow> 0
           | b # u \<Rightarrow>
               if within 0xC2 0xDF a then (if continuation b then 2 else 0)
               else (case u of
                   [] \<Rightarrow> 0
                 | c # v \<Rightarrow>
                     if within 0xE0 0xEF a then
                       (if continuation c \<and>
                           (if within 0xE0 0xE0 a then within 0xA0 0xBF b
                            else if within 0xED 0xED a then within 0x80 0x9F b
                            else continuation b) then 3 else 0)
                     else (case v of
                         [] \<Rightarrow> 0
                       | d # w \<Rightarrow>
                           if within 0xF0 0xF4 a \<and> continuation c \<and> continuation d \<and>
                             (if within 0xF0 0xF0 a then within 0x90 0xBF b
                              else if within 0xF4 0xF4 a then within 0x80 0x8F b
                              else continuation b) then 4 else 0))))"

function valid_utf8 :: "string \<Rightarrow> bool" where
  "valid_utf8 s =
     (if s = [] then True else if lead s = 0 then False else valid_utf8 (drop (lead s) s))"
  by pat_completeness auto

termination by (relation "measure size") auto

declare valid_utf8.simps [simp del]

definition SCALARS :: "string list" where
  "SCALARS = [''family'', ''version'', ''runnerClass'', ''allowTaskAdditions'',
    ''allowTaskNarrowing'', ''maxBytes'', ''maxFreshnessDays'', ''requiredFailure'',
    ''optionalFailure'', ''overrideAuthority'']"

text \<open>
  \<^verbatim>\<open>row.indexOf(' ')\<close> and the two slices around it: without a space the key and the value
  are both the whole row, since \<^verbatim>\<open>-1 + 1\<close> is \<^verbatim>\<open>0\<close>.
\<close>

definition row_key :: "string \<Rightarrow> string" where
  "row_key row = takeWhile (\<lambda>c. c \<noteq> SP) row"

definition row_value :: "string \<Rightarrow> string" where
  "row_value row = (if SP \<in> set row then tl (dropWhile (\<lambda>c. c \<noteq> SP) row) else row)"

fun read_scalars ::
  "(string \<Rightarrow> string) \<Rightarrow> nat \<Rightarrow> string list \<Rightarrow> string list \<Rightarrow>
     ReleaseRefusal + (string \<times> string) list \<times> string list" where
  "read_scalars nfc i [] rows = Inr ([], rows)"
| "read_scalars nfc i (name # names) [] =
    Inl (refuse_rule ''manifest.scalar-missing'' (template [quoted name, '' is missing'']))"
| "read_scalars nfc i (name # names) (row # rows) =
    (if row_key row \<noteq> name then
       Inl (refuse_rule ''manifest.scalar-order''
         (template [''expected '', quoted name, '' at line '', digits_of_nat (i + 1), '', found '',
           quoted (row_key row)]))
     else
       case tokenProblem nfc (row_value row) of
         Some problem \<Rightarrow>
           Inl (refuse_rule ''manifest.token'' (template [quoted name, '' '', problem]))
       | None \<Rightarrow>
           (case read_scalars nfc (i + 1) names rows of
              Inl r \<Rightarrow> Inl r
            | Inr (scalars, rest) \<Rightarrow> Inr ((name, row_value row) # scalars, rest)))"

text \<open>\<^verbatim>\<open>scalars.get(name) as string\<close>, read only after every scalar is set.\<close>

definition scalar :: "(string \<times> string) list \<Rightarrow> string \<Rightarrow> string" where
  "scalar scalars name = (case map_of scalars name of Some v \<Rightarrow> v | None \<Rightarrow> [])"

definition bool_of :: "string \<Rightarrow> bool option" where
  "bool_of v =
    (if v = ''true'' then Some True else if v = ''false'' then Some False else None)"

datatype Section = Deny_section | Required_section | Optional_section

fun ORDER :: "Section \<Rightarrow> nat" where
  "ORDER Deny_section = 0"
| "ORDER Required_section = 1"
| "ORDER Optional_section = 2"

fun section_name :: "Section \<Rightarrow> string" where
  "section_name Deny_section = ''deny''"
| "section_name Required_section = ''required''"
| "section_name Optional_section = ''optional''"

definition section_of :: "string \<Rightarrow> Section option" where
  "section_of kind =
    (if kind = ''deny'' then Some Deny_section
     else if kind = ''required'' then Some Required_section
     else if kind = ''optional'' then Some Optional_section else None)"

definition read_member ::
  "(string \<Rightarrow> string) \<Rightarrow> string \<Rightarrow> string \<Rightarrow> ReleaseRefusal + ReleaseMember" where
  "read_member nfc kind rest =
    (case split_at_char NUL_BYTE rest of
       [mid, version, digest] \<Rightarrow>
         (if \<not> MODULE_ID mid then
            Inl (refuse_rule ''manifest.member''
              (template [kind, '' '', quoted mid, '' is not a module id'']))
          else if \<not> BARE_SHA256 digest then
            Inl (refuse_rule ''manifest.member''
              (template [kind, '' '', quoted mid, '' digest is not bare lowercase 64-hex'']))
          else
            case tokenProblem nfc version of
              Some vProblem \<Rightarrow>
                Inl (refuse_rule ''manifest.member''
                  (template [kind, '' '', quoted mid, '' version '', vProblem]))
            | None \<Rightarrow> Inr \<lparr>rm_id = mid, rm_version = version, rm_digest = digest\<rparr>)
     | _ \<Rightarrow>
         Inl (refuse_rule ''manifest.member'' (template [kind, '' row must be id NUL version NUL digest''])))"

fun read_rows ::
  "(string \<Rightarrow> string) \<Rightarrow> nat \<Rightarrow> Section \<Rightarrow> string list \<Rightarrow>
     ReleaseRefusal + string list \<times> ReleaseMember list \<times> ReleaseMember list" where
  "read_rows nfc i sect [] = Inr ([], [], [])"
| "read_rows nfc i sect (row # rows) =
    (if SP \<notin> set row then
       Inl (refuse_rule ''manifest.row''
         (template [''line '', digits_of_nat (i + 1), '' has no field name'']))
     else
       case section_of (row_key row) of
         None \<Rightarrow>
           Inl (refuse_rule ''manifest.unknown-field''
             (template [''unknown field '', quoted (row_key row), '' at line '',
               digits_of_nat (i + 1)]))
       | Some kind \<Rightarrow>
           (if ORDER kind < ORDER sect then
              Inl (refuse_rule ''manifest.section-order''
                (template [quoted (section_name kind), '' appears after '',
                  quoted (section_name sect)]))
            else if kind = Deny_section then
              (case tokenProblem nfc (row_value row) of
                 Some problem \<Rightarrow>
                   Inl (refuse_rule ''manifest.deny'' (template [''deny value '', problem]))
               | None \<Rightarrow>
                   (case read_rows nfc (i + 1) kind rows of
                      Inl r \<Rightarrow> Inl r
                    | Inr (deny, required, optional) \<Rightarrow>
                        Inr (row_value row # deny, required, optional)))
            else
              (case read_member nfc (section_name kind) (row_value row) of
                 Inl r \<Rightarrow> Inl r
               | Inr m \<Rightarrow>
                   (case read_rows nfc (i + 1) kind rows of
                      Inl r \<Rightarrow> Inl r
                    | Inr (deny, required, optional) \<Rightarrow>
                        if kind = Required_section then Inr (deny, m # required, optional)
                        else Inr (deny, required, m # optional)))))"

fun strictlySorted :: "string list \<Rightarrow> bool" where
  "strictlySorted [] = True"
| "strictlySorted [v] = True"
| "strictlySorted (v # w # vs) \<longleftrightarrow> v < w \<and> strictlySorted (w # vs)"

text \<open>The checks on the bytes before anything is decoded.\<close>

definition check_bytes :: "string \<Rightarrow> ReleaseRefusal option" where
  "check_bytes bytes =
    (if take 3 bytes = [CHR 0xEF, CHR 0xBB, CHR 0xBF] then
       Some (refuse_rule ''manifest.bom'' ''manifest starts with a byte-order mark'')
     else if CR_BYTE \<in> set bytes then
       Some (refuse_rule ''manifest.cr'' ''manifest contains CR; LF only'')
     else if bytes = [] \<or> last bytes \<noteq> LF_BYTE then
       Some (refuse_rule ''manifest.final-lf'' ''manifest does not end with LF'')
     else if \<not> valid_utf8 bytes then
       Some (refuse_rule ''manifest.encoding'' ''manifest is not valid UTF-8'')
     else None)"

text \<open>The checks on the scalars once all are read.\<close>

definition check_scalars :: "(string \<times> string) list \<Rightarrow> ReleaseRefusal option" where
  "check_scalars scalars =
    (if bool_of (scalar scalars ''allowTaskAdditions'') = None then
       Some (refuse_rule ''manifest.boolean'' (template [quoted ''allowTaskAdditions'', '' is not true or false'']))
     else if bool_of (scalar scalars ''allowTaskNarrowing'') = None then
       Some (refuse_rule ''manifest.boolean'' (template [quoted ''allowTaskNarrowing'', '' is not true or false'']))
     else if \<not> INT_TOKEN (scalar scalars ''maxBytes'') then
       Some (refuse_rule ''manifest.integer''
         (template [quoted ''maxBytes'', '' is not a shortest unsigned decimal'']))
     else if \<not> INT_TOKEN (scalar scalars ''maxFreshnessDays'') then
       Some (refuse_rule ''manifest.integer''
         (template [quoted ''maxFreshnessDays'', '' is not a shortest unsigned decimal'']))
     else if \<not> RELEASE_VERSION (scalar scalars ''version'') then
       Some (refuse_rule ''manifest.version'' ''version is not DIGIT+.DIGIT+.DIGIT+'')
     else if \<not> SET_FAMILY_ID (scalar scalars ''family'') then
       Some (refuse_rule ''manifest.family'' ''family is not a repository set-family id'')
     else None)"

text \<open>The checks on the three sections.\<close>

definition check_sections ::
  "string list \<times> ReleaseMember list \<times> ReleaseMember list \<Rightarrow> ReleaseRefusal option" where
  "check_sections = (\<lambda>(deny, required, optional).
    (if \<not> strictlySorted deny then
       Some (refuse_rule ''manifest.sort'' ''deny is unsorted or repeats'')
     else if \<not> strictlySorted (map rm_id required) then
       Some (refuse_rule ''manifest.sort'' ''required is unsorted or repeats'')
     else if \<not> strictlySorted (map rm_id optional) then
       Some (refuse_rule ''manifest.sort'' ''optional is unsorted or repeats'')
     else
       case find (\<lambda>m. rm_id m \<in> rm_id ` set required) optional of
         Some m \<Rightarrow>
           Some (refuse_rule ''manifest.overlap''
             (template [quoted (rm_id m), '' is both required and optional'']))
       | None \<Rightarrow> None))"

definition release_of ::
  "(string \<times> string) list \<Rightarrow> string list \<times> ReleaseMember list \<times> ReleaseMember list \<Rightarrow>
     LogicalRelease" where
  "release_of scalars = (\<lambda>(deny, required, optional).
    \<lparr>lr_family = scalar scalars ''family'', lr_version = scalar scalars ''version'',
     lr_runnerClass = scalar scalars ''runnerClass'',
     lr_allowTaskAdditions = (bool_of (scalar scalars ''allowTaskAdditions'') = Some True),
     lr_allowTaskNarrowing = (bool_of (scalar scalars ''allowTaskNarrowing'') = Some True),
     lr_maxBytes = number_of (digits_value (scalar scalars ''maxBytes'')),
     lr_maxFreshnessDays = number_of (digits_value (scalar scalars ''maxFreshnessDays'')),
     lr_requiredFailure = scalar scalars ''requiredFailure'',
     lr_optionalFailure = scalar scalars ''optionalFailure'',
     lr_overrideAuthority = scalar scalars ''overrideAuthority'',
     lr_deny = deny, lr_required = required, lr_optional = optional\<rparr>)"

definition parse_rows ::
  "(string \<Rightarrow> string) \<Rightarrow> string list \<Rightarrow> ReleaseRefusal + LogicalRelease" where
  "parse_rows nfc rows =
    (if hd rows \<noteq> SET_RELEASE_FORMAT then
       Inl (refuse_rule ''manifest.prefix'' (template [''first line must be '', quoted SET_RELEASE_FORMAT]))
     else
       case read_scalars nfc 1 SCALARS (tl rows) of
         Inl r \<Rightarrow> Inl r
       | Inr (scalars, rest) \<Rightarrow>
           (case check_scalars scalars of
              Some r \<Rightarrow> Inl r
            | None \<Rightarrow>
                (case read_rows nfc 11 Deny_section rest of
                   Inl r \<Rightarrow> Inl r
                 | Inr sections \<Rightarrow>
                     (case check_sections sections of
                        Some r \<Rightarrow> Inl r
                      | None \<Rightarrow> Inr (release_of scalars sections)))))"

definition parseSetReleaseManifest ::
  "(string \<Rightarrow> string) \<Rightarrow> string \<Rightarrow> LogicalRelease ReleaseResult" where
  "parseSetReleaseManifest nfc bytes =
    (case check_bytes bytes of
       Some r \<Rightarrow> Release_refused [r]
     | None \<Rightarrow>
         (case parse_rows nfc (split_at_char LF_BYTE (butlast bytes)) of
            Inl r \<Rightarrow> Release_refused [r]
          | Inr release \<Rightarrow> Release_ok release))"

definition isCanonicalSetReleaseManifest ::
  "(string \<Rightarrow> string) \<Rightarrow> string \<Rightarrow> string ReleaseResult" where
  "isCanonicalSetReleaseManifest nfc bytes =
    (case parseSetReleaseManifest nfc bytes of
       Release_refused refusals \<Rightarrow> Release_refused refusals
     | Release_ok parsed \<Rightarrow>
         (case canonicalSetReleaseManifest nfc parsed of
            Release_refused refusals \<Rightarrow> Release_refused refusals
          | Release_ok round \<Rightarrow>
              (if round \<noteq> bytes then
                 Release_refused [refuse_rule ''manifest.noncanonical''
                   ''stored bytes parse but are not the canonical serialization of what they mean'']
               else Release_ok round)))"


section \<open>Admissible texts\<close>

lemmas byte_defs = SP_def NUL_BYTE_def LF_BYTE_def CR_BYTE_def

lemma bytes_distinct [simp]:
  "SP \<noteq> NUL_BYTE" "SP \<noteq> LF_BYTE" "SP \<noteq> CR_BYTE" "NUL_BYTE \<noteq> LF_BYTE" "NUL_BYTE \<noteq> CR_BYTE"
  "LF_BYTE \<noteq> CR_BYTE" "NUL_BYTE \<noteq> SP" "LF_BYTE \<noteq> SP" "CR_BYTE \<noteq> SP" "LF_BYTE \<noteq> NUL_BYTE"
  "CR_BYTE \<noteq> NUL_BYTE" "CR_BYTE \<noteq> LF_BYTE"
  by (simp_all add: byte_defs)

text \<open>A text that holds none of the structural bytes, and one of ASCII characters only.\<close>

definition plain :: "string \<Rightarrow> bool" where
  "plain s \<longleftrightarrow> SP \<notin> set s \<and> NUL_BYTE \<notin> set s \<and> LF_BYTE \<notin> set s \<and> CR_BYTE \<notin> set s"

definition ascii :: "string \<Rightarrow> bool" where
  "ascii s \<longleftrightarrow> list_all (within 0 0x7F) s"

text \<open>Documented of normalization: a text of ASCII characters is its own normal form.\<close>

definition normalizes_ascii :: "(string \<Rightarrow> string) \<Rightarrow> bool" where
  "normalizes_ascii nfc \<longleftrightarrow> (\<forall>s. ascii s \<longrightarrow> nfc s = s)"

text \<open>The visible ASCII characters of identifiers, versions, digests and keywords.\<close>

definition visible :: "char \<Rightarrow> bool" where
  "visible c \<longleftrightarrow> within 0x21 0x7E c"

lemma visible_plain: "list_all visible s \<Longrightarrow> plain s"
  by (auto simp: plain_def list_all_iff visible_def within_def code_def byte_defs)

lemma visible_ascii: "list_all visible s \<Longrightarrow> ascii s"
  by (auto simp: ascii_def list_all_iff visible_def within_def)

lemma visible_token:
  assumes "normalizes_ascii nfc" "list_all visible s" "s \<noteq> []"
  shows "tokenProblem nfc s = None"
proof -
  have "nfc s = s" using assms(1,2) visible_ascii by (simp add: normalizes_ascii_def)
  moreover have "\<not> hasAsciiWhitespace s"
    using assms(2)
    by (auto simp: hasAsciiWhitespace_def list_ex_iff list_all_iff ASCII_WHITESPACE_CODES_def
        visible_def within_def code_def)
  ultimately show ?thesis
    using visible_plain[OF assms(2)] assms(3)
    by (simp add: tokenProblem_def stringProblem_def plain_def)
qed

lemma token_plain: "tokenProblem nfc s = None \<Longrightarrow> plain s \<and> s \<noteq> []"
  by (auto simp: tokenProblem_def stringProblem_def plain_def hasAsciiWhitespace_def list_ex_iff
      ASCII_WHITESPACE_CODES_def SP_def split: if_splits option.splits)

lemma digit_visible: "digit_char c \<Longrightarrow> visible c"
  by (auto simp: digit_char_def visible_def within_def code_def)

lemma hex_visible: "is_lower_hex c \<Longrightarrow> visible c"
  by (auto simp: is_lower_hex_def visible_def within_def code_def)

lemma id_char_visible: "is_id_char c \<Longrightarrow> visible c"
  by (auto simp: is_id_char_def lower_char_def digit_char_def visible_def within_def code_def)

lemma list_all_mono: "list_all P xs \<Longrightarrow> (\<And>x. P x \<Longrightarrow> Q x) \<Longrightarrow> list_all Q xs"
  by (simp add: list_all_iff)

lemma set_join_sep: "c \<in> set (join sep ps) \<Longrightarrow> c \<in> set sep \<or> (\<exists>p \<in> set ps. c \<in> set p)"
  by (induction sep ps rule: join.induct) auto

lemma visible_pieces:
  assumes "list_all (list_all visible) (split_at_char c s)" "visible c"
  shows "list_all visible s"
  unfolding list_all_iff
proof
  fix x assume "x \<in> set s"
  then have "x \<in> set (join [c] (split_at_char c s))" by (simp add: join_split)
  then show "visible x" using set_join_sep[of x "[c]"] assms by (auto simp: list_all_iff)
qed

lemma family_visible: "SET_FAMILY_ID s \<Longrightarrow> list_all visible s \<and> s \<noteq> []"
  by (auto simp: SET_FAMILY_ID_def intro: list_all_mono id_char_visible)

lemma split_pieces_Nil: "list_all (\<lambda>p. p \<noteq> []) (split_at_char c s) \<Longrightarrow> s \<noteq> []"
  by (cases s) auto

lemma module_visible: "MODULE_ID s \<Longrightarrow> list_all visible s \<and> s \<noteq> []"
proof -
  assume m: "MODULE_ID s"
  have "list_all (list_all visible) (split_at_char (CHR ''/'') s)"
    using m family_visible unfolding MODULE_ID_def list_all_iff by auto
  moreover have "visible (CHR ''/'')" by (simp add: visible_def within_def code_def)
  moreover have "s \<noteq> []" using m by (auto simp: MODULE_ID_def)
  ultimately show ?thesis using visible_pieces by blast
qed

lemma version_visible: "RELEASE_VERSION s \<Longrightarrow> list_all visible s \<and> s \<noteq> []"
proof -
  assume m: "RELEASE_VERSION s"
  have "list_all (list_all visible) (split_at_char (CHR ''.'') s)"
    using m digit_visible unfolding RELEASE_VERSION_def list_all_iff by auto
  moreover have "visible (CHR ''.'')" by (simp add: visible_def within_def code_def)
  moreover have "s \<noteq> []" using m by (auto simp: RELEASE_VERSION_def)
  ultimately show ?thesis using visible_pieces by blast
qed

lemma sha_visible: "BARE_SHA256 s \<Longrightarrow> list_all visible s \<and> s \<noteq> []"
  by (auto simp: BARE_SHA256_def intro: list_all_mono hex_visible)

section \<open>Encoding\<close>

lemma lead_simps:
  "lead [] = 0"
  "lead [a] = (if within 0 0x7F a then 1 else 0)"
  "lead [a, b] = (if within 0 0x7F a then 1
     else if within 0xC2 0xDF a \<and> continuation b then 2 else 0)"
  by (simp_all add: lead_def)

lemma lead_heads [simp]:
  "within 0 0x7F a \<Longrightarrow> lead (a # t) = 1"
  "\<not> within 0 0x7F a \<Longrightarrow> within 0xC2 0xDF a \<Longrightarrow> continuation b \<Longrightarrow> lead (a # b # t) = 2"
  by (simp_all add: lead_def)

lemma lead_le_4: "lead s \<le> 4"
  unfolding lead_def by (simp split: list.split)

lemma lead_le_3: "lead [a, b, c] \<le> 3"
  unfolding lead_def by simp

lemma lead_append: "lead s > 0 \<Longrightarrow> lead (s @ t) = lead s \<and> lead s \<le> length s"
proof -
  assume l: "lead s > 0"
  consider "s = []" | a where "s = [a]" | a b where "s = [a, b]" | a b c where "s = [a, b, c]"
    | a b c d w where "s = a # b # c # d # w"
    by (cases s rule: remdups_adj.cases) (metis neq_Nil_conv)+
  then show ?thesis
  proof cases
    case 2
    then show ?thesis using l by (auto simp: lead_simps split: if_splits)
  next
    case (3 a b)
    then show ?thesis using l by (auto simp: lead_simps split: if_splits)
  next
    case (4 a b c)
    have "lead (s @ t) = lead s"
    proof (cases "within 0 0x7F a \<or> within 0xC2 0xDF a \<or> within 0xE0 0xEF a")
      case True
      then show ?thesis using 4 by (auto simp: lead_def)
    next
      case False
      then show ?thesis using l 4 by (simp add: lead_def)
    qed
    then show ?thesis using 4 lead_le_3[of a b c] by simp
  next
    case (5 a b c d w)
    then show ?thesis using lead_le_4[of s] by (simp add: lead_def)
  qed (use l in \<open>simp add: lead_simps\<close>)
qed

lemma valid_utf8_Nil [simp]: "valid_utf8 []"
  by (simp add: valid_utf8.simps)

lemma valid_utf8_append: "valid_utf8 s \<Longrightarrow> valid_utf8 t \<Longrightarrow> valid_utf8 (s @ t)"
proof (induction s rule: valid_utf8.induct)
  case (1 s)
  show ?case
  proof (cases "s = []")
    case False
    then have l: "lead s > 0" "valid_utf8 (drop (lead s) s)"
      using 1(2) valid_utf8.simps[of s] by (auto split: if_splits)
    have "lead (s @ t) = lead s" "lead s \<le> length s" using lead_append[OF l(1)] by auto
    moreover have "valid_utf8 (drop (lead s) s @ t)" using 1 False l by simp
    ultimately show ?thesis using l(1) valid_utf8.simps[of "s @ t"] by simp
  qed (use 1 in simp)
qed

lemma valid_utf8_concat: "list_all valid_utf8 ss \<Longrightarrow> valid_utf8 (concat ss)"
  by (induction ss) (auto intro: valid_utf8_append)

lemma ascii_valid: "ascii s \<Longrightarrow> valid_utf8 s"
proof (induction s)
  case (Cons c s)
  then have "lead (c # s) = 1" "valid_utf8 s" by (simp_all add: ascii_def lead_def)
  then show ?case using valid_utf8.simps[of "c # s"] by simp
qed simp

lemma visible_valid: "list_all visible s \<Longrightarrow> valid_utf8 s"
  using ascii_valid visible_ascii by blast

lemma structural_valid [simp]:
  "valid_utf8 [SP]" "valid_utf8 [NUL_BYTE]" "valid_utf8 [LF_BYTE]"
  by (auto intro!: ascii_valid simp: ascii_def within_def code_def byte_defs)

section \<open>Numbers\<close>

lemma halvings_small: "n < 2 ^ 53 \<Longrightarrow> halvings n = 0"
  using halvings.simps[of n] by (simp only: if_True)

lemma number_of_safe: "n < 2 ^ 53 \<Longrightarrow> number_of n = Whole (int n)"
proof -
  assume n: "n < 2 ^ 53"
  then have r: "rounded n = n" by (simp add: rounded_def Let_def halvings_small)
  have "(2 :: nat) ^ 53 \<le> 2 ^ 1024" by (rule power_increasing) simp_all
  then have "n < 2 ^ 1024" using n by (rule less_le_trans[rotated])
  then show ?thesis by (simp add: number_of_def r)
qed

lemma digits_all: "list_all digit_char (digits_of_nat n) \<and> digits_of_nat n \<noteq> []"
proof (induction n rule: digits_of_nat.induct)
  case (1 n)
  have d: "digit_char (char_of (48 + k))" if "k < 10" for k :: nat
  proof -
    have "k = 0 \<or> k = 1 \<or> k = 2 \<or> k = 3 \<or> k = 4 \<or> k = 5 \<or> k = 6 \<or> k = 7 \<or> k = 8 \<or> k = 9"
      using that by arith
    then show ?thesis by (elim disjE) (simp_all add: digit_char_def char_of_def bit_simps)
  qed
  show ?case using 1 d[of n] d[of "n mod 10"] by (simp add: digits_of_nat.simps[of n])
qed

lemma digits_hd: "n > 0 \<Longrightarrow> hd (digits_of_nat n) \<noteq> CHR ''0''"
proof (induction n rule: digits_of_nat.induct)
  case (1 n)
  have d: "char_of (48 + k) \<noteq> CHR ''0''" if "0 < k" "k < 10" for k :: nat
  proof -
    have "k = 1 \<or> k = 2 \<or> k = 3 \<or> k = 4 \<or> k = 5 \<or> k = 6 \<or> k = 7 \<or> k = 8 \<or> k = 9"
      using that by arith
    then show ?thesis by (elim disjE) (simp_all add: char_of_def bit_simps)
  qed
  show ?case
    using 1 d[of n] digits_all[of "n div 10"] by (auto simp: digits_of_nat.simps[of n])
qed

lemma INT_TOKEN_digits: "INT_TOKEN (digits_of_nat n)"
proof (cases "n = 0")
  case True
  then show ?thesis
    by (simp add: INT_TOKEN_def digits_of_nat.simps[of 0] char_of_def bit_simps)
next
  case False
  then show ?thesis using digits_all[of n] digits_hd[of n] by (simp add: INT_TOKEN_def)
qed

lemma number_text_safe:
  assumes "intProblem v = None"
  obtains n where "v = Whole (int n)" "number_text v = digits_of_nat n" "n < 2 ^ 53"
proof -
  from assms obtain i where i: "v = Whole i" "0 \<le> i" "i \<le> MAX_SAFE_INTEGER"
    by (cases v) (auto split: if_splits)
  show ?thesis
    using i by (intro that[of "nat i"]) (auto simp: string_of_int_def MAX_SAFE_INTEGER_def)
qed


section \<open>What the serializer admits\<close>

definition good_member :: "(string \<Rightarrow> string) \<Rightarrow> ReleaseMember \<Rightarrow> bool" where
  "good_member nfc m \<longleftrightarrow>
    tokenProblem nfc (rm_id m) = None \<and> tokenProblem nfc (rm_version m) = None \<and>
    tokenProblem nfc (rm_digest m) = None \<and> MODULE_ID (rm_id m) \<and> BARE_SHA256 (rm_digest m)"

lemma deny_refusals_Nil:
  "deny_refusals nfc seen ds = [] \<longleftrightarrow>
     (\<forall>d \<in> set ds. tokenProblem nfc d = None \<and> d \<notin> seen) \<and> distinct ds"
  by (induction nfc seen ds rule: deny_refusals.induct) (auto split: option.splits)

lemma ball_not_insert:
  "(\<forall>x \<in> A. P x \<and> f x \<notin> insert a S) \<longleftrightarrow> (\<forall>x \<in> A. P x \<and> f x \<notin> S) \<and> a \<notin> f ` A"
  by auto

lemma member_field_Nil:
  "member_field_refusals nfc kind mid (field, v) = [] \<longleftrightarrow> tokenProblem nfc v = None"
  by (simp add: member_field_refusals_def split: option.splits)

lemma checkMembers_Cons:
  "checkMembers nfc kind seen (m # ms) = [] \<longleftrightarrow>
     good_member nfc m \<and> rm_id m \<notin> seen \<and> checkMembers nfc kind (insert (rm_id m) seen) ms = []"
  by (auto simp: good_member_def member_field_Nil)

lemma checkMembers_Nil:
  "checkMembers nfc kind seen ms = [] \<longleftrightarrow>
     (\<forall>m \<in> set ms. good_member nfc m \<and> rm_id m \<notin> seen) \<and> distinct (map rm_id ms)"
proof (induction ms arbitrary: seen)
  case (Cons m ms)
  show ?case
    unfolding checkMembers_Cons Cons ball_not_insert[where f = rm_id]
    by auto
qed simp

lemma overlap_refusals_Nil:
  "overlap_refusals rs os = [] \<longleftrightarrow> rm_id ` set rs \<inter> rm_id ` set os = {}"
  by (auto simp: overlap_refusals_def filter_empty_conv image_iff) metis+

lemma token_refusals_Nil: "token_refusals nfc f v = [] \<longleftrightarrow> tokenProblem nfc v = None"
  by (simp add: token_refusals_def split: option.splits)

lemma integer_refusals_Nil: "integer_refusals f v = [] \<longleftrightarrow> intProblem v = None"
  by (simp add: integer_refusals_def split: option.splits)

definition good_release :: "(string \<Rightarrow> string) \<Rightarrow> LogicalRelease \<Rightarrow> bool" where
  "good_release nfc r \<longleftrightarrow>
    list_all (\<lambda>v. tokenProblem nfc v = None)
      [lr_family r, lr_runnerClass r, lr_requiredFailure r, lr_optionalFailure r,
       lr_overrideAuthority r] \<and>
    SET_FAMILY_ID (lr_family r) \<and> RELEASE_VERSION (lr_version r) \<and>
    intProblem (lr_maxBytes r) = None \<and> intProblem (lr_maxFreshnessDays r) = None \<and>
    (\<forall>d \<in> set (lr_deny r). tokenProblem nfc d = None) \<and> distinct (lr_deny r) \<and>
    (\<forall>m \<in> set (lr_required r). good_member nfc m) \<and> distinct (map rm_id (lr_required r)) \<and>
    (\<forall>m \<in> set (lr_optional r). good_member nfc m) \<and> distinct (map rm_id (lr_optional r)) \<and>
    rm_id ` set (lr_required r) \<inter> rm_id ` set (lr_optional r) = {}"

lemma manifest_refusals_Nil: "manifest_refusals nfc r = [] \<longleftrightarrow> good_release nfc r"
  by (auto simp: manifest_refusals_def good_release_def token_refusals_Nil integer_refusals_Nil
      deny_refusals_Nil checkMembers_Nil overlap_refusals_Nil)

lemma canonical_ok_iff:
  "canonicalSetReleaseManifest nfc r = Release_ok b \<longleftrightarrow>
     good_release nfc r \<and> b = concat (manifest_chunks r)"
  by (auto simp: canonicalSetReleaseManifest_def manifest_refusals_Nil)

text \<open>The release with its three sets in the canonical order.\<close>

definition sorted_release :: "LogicalRelease \<Rightarrow> LogicalRelease" where
  "sorted_release r = r
    \<lparr>lr_deny := canonicalSort id (lr_deny r),
     lr_required := canonicalSort rm_id (lr_required r),
     lr_optional := canonicalSort rm_id (lr_optional r)\<rparr>"

lemma distinct_canonicalSort [simp]: "distinct (map k (canonicalSort k xs)) = distinct (map k xs)"
  by (metis mset_canonicalSort mset_map mset_eq_imp_distinct_iff)

lemma good_sorted_release [simp]: "good_release nfc (sorted_release r) = good_release nfc r"
  using distinct_canonicalSort[of id "lr_deny r"]
  by (simp add: good_release_def sorted_release_def)

lemma manifest_chunks_sorted [simp]: "manifest_chunks (sorted_release r) = manifest_chunks r"
  by (simp add: manifest_chunks_def scalar_chunks_def sorted_release_def)

section \<open>Rows\<close>

text \<open>A chunk is a row and its line feed.\<close>

definition scalar_row :: "string \<Rightarrow> string \<Rightarrow> string" where
  "scalar_row name value = name @ SP # value"

definition member_text :: "ReleaseMember \<Rightarrow> string" where
  "member_text m = rm_id m @ NUL_BYTE # rm_version m @ NUL_BYTE # rm_digest m"

definition member_row :: "string \<Rightarrow> ReleaseMember \<Rightarrow> string" where
  "member_row kind m = scalar_row kind (member_text m)"

definition scalar_values :: "LogicalRelease \<Rightarrow> string list" where
  "scalar_values r =
    [lr_family r, lr_version r, lr_runnerClass r, bool_text (lr_allowTaskAdditions r),
     bool_text (lr_allowTaskNarrowing r), number_text (lr_maxBytes r),
     number_text (lr_maxFreshnessDays r), lr_requiredFailure r, lr_optionalFailure r,
     lr_overrideAuthority r]"

definition set_rows :: "string list \<Rightarrow> ReleaseMember list \<Rightarrow> ReleaseMember list \<Rightarrow> string list" where
  "set_rows deny required optional =
    map (scalar_row ''deny'') deny @ map (member_row ''required'') required @
    map (member_row ''optional'') optional"

definition manifest_rows :: "LogicalRelease \<Rightarrow> string list" where
  "manifest_rows r =
    SET_RELEASE_FORMAT # map2 scalar_row SCALARS (scalar_values r) @
    set_rows (lr_deny r) (lr_required r) (lr_optional r)"

lemma scalarLine_row: "scalarLine name v = scalar_row name v @ [LF_BYTE]"
  by (simp add: scalarLine_def scalar_row_def template_def)

lemma memberLine_row: "memberLine kind m = member_row kind m @ [LF_BYTE]"
  by (simp add: memberLine_def member_row_def scalar_row_def member_text_def template_def)

lemma manifest_chunks_rows:
  "manifest_chunks r = map (\<lambda>row. row @ [LF_BYTE]) (manifest_rows (sorted_release r))"
  by (simp add: manifest_chunks_def manifest_rows_def scalar_chunks_def scalar_values_def
      SCALARS_def set_rows_def sorted_release_def scalarLine_row memberLine_row comp_def)

lemma concat_lines:
  "rows \<noteq> [] \<Longrightarrow> concat (map (\<lambda>row. row @ [LF_BYTE]) rows) = join [LF_BYTE] rows @ [LF_BYTE]"
  by (induction "[LF_BYTE]" rows rule: join.induct) auto

lemma split_lines:
  assumes "rows \<noteq> []" "\<forall>row \<in> set rows. LF_BYTE \<notin> set row"
  shows "split_at_char LF_BYTE (butlast (concat (map (\<lambda>row. row @ [LF_BYTE]) rows))) = rows"
  using assms by (simp add: concat_lines split_join)

lemma row_key_scalar [simp]: "SP \<notin> set name \<Longrightarrow> row_key (scalar_row name v) = name"
  by (induction name) (auto simp: row_key_def scalar_row_def)

lemma row_value_scalar [simp]: "SP \<notin> set name \<Longrightarrow> row_value (scalar_row name v) = v"
  by (induction name) (auto simp: row_value_def scalar_row_def)

lemma SP_scalar_row [simp]: "SP \<in> set (scalar_row name v)"
  by (simp add: scalar_row_def)

lemma row_parts: "SP \<in> set row \<Longrightarrow> scalar_row (row_key row) (row_value row) = row"
  by (induction row) (auto simp: row_key_def row_value_def scalar_row_def split: if_splits)

section \<open>Reading what was written\<close>

lemma read_scalars_rows:
  assumes "length names = length vals" "\<forall>n \<in> set names. SP \<notin> set n"
    "\<forall>v \<in> set vals. tokenProblem nfc v = None"
  shows "read_scalars nfc i names (map2 scalar_row names vals @ rest) = Inr (zip names vals, rest)"
  using assms
proof (induction names vals arbitrary: i rule: list_induct2)
  case (Cons n names v vals)
  then show ?case by simp
qed simp

lemma section_of_names [simp]:
  "section_of ''deny'' = Some Deny_section" "section_of ''required'' = Some Required_section"
  "section_of ''optional'' = Some Optional_section"
  by (simp_all add: section_of_def)

lemma section_rows [simp]:
  "row_key (scalar_row ''deny'' v) = ''deny''" "row_value (scalar_row ''deny'' v) = v"
  "row_key (scalar_row ''required'' v) = ''required''" "row_value (scalar_row ''required'' v) = v"
  "row_key (scalar_row ''optional'' v) = ''optional''" "row_value (scalar_row ''optional'' v) = v"
  by (rule row_key_scalar row_value_scalar; simp add: SP_def)+

lemma member_rows [simp]:
  "row_key (member_row ''required'' m) = ''required''"
  "row_key (member_row ''optional'' m) = ''optional''"
  "row_value (member_row ''required'' m) = member_text m"
  "row_value (member_row ''optional'' m) = member_text m" "SP \<in> set (member_row kind m)"
  by (simp_all add: member_row_def)

lemma good_member_free:
  assumes "good_member nfc m"
  shows "plain (rm_id m)" "plain (rm_version m)" "plain (rm_digest m)"
  using assms token_plain by (auto simp: good_member_def)

lemma read_member_text: "good_member nfc m \<Longrightarrow> read_member nfc kind (member_text m) = Inr m"
  using good_member_free[of nfc m]
  by (simp add: read_member_def member_text_def split_at_char_append split_at_char_free plain_def
      good_member_def)

lemma read_optional_rows:
  assumes "\<forall>m \<in> set os. good_member nfc m"
  shows "read_rows nfc i s (map (member_row ''optional'') os) = Inr ([], [], os)"
  using assms
proof (induction os arbitrary: i s)
  case (Cons m os)
  have "ORDER s \<le> 2" by (cases s) auto
  then show ?case using Cons by (simp add: read_member_text)
qed simp

lemma read_required_rows:
  assumes "\<forall>m \<in> set rs. good_member nfc m" "\<forall>m \<in> set os. good_member nfc m"
    "s \<noteq> Optional_section"
  shows "read_rows nfc i s (map (member_row ''required'') rs @ map (member_row ''optional'') os) =
    Inr ([], rs, os)"
  using assms
proof (induction rs arbitrary: i s)
  case Nil
  then show ?case by (simp add: read_optional_rows)
next
  case (Cons m rs)
  have "ORDER s \<le> 1" using Cons.prems(3) by (cases s) auto
  moreover have "read_rows nfc (Suc i) Required_section
      (map (member_row ''required'') rs @ map (member_row ''optional'') os) = Inr ([], rs, os)"
    using Cons by simp
  ultimately show ?case using Cons.prems(1)
    by (simp add: read_member_text)
qed

lemma read_set_rows:
  assumes "\<forall>d \<in> set ds. tokenProblem nfc d = None" "\<forall>m \<in> set rs. good_member nfc m"
    "\<forall>m \<in> set os. good_member nfc m"
  shows "read_rows nfc i Deny_section (set_rows ds rs os) = Inr (ds, rs, os)"
  using assms
proof (induction ds arbitrary: i)
  case Nil
  then show ?case by (simp add: set_rows_def read_required_rows)
next
  case (Cons d ds)
  then have "read_rows nfc (Suc i) Deny_section (set_rows ds rs os) = Inr (ds, rs, os)" by simp
  then show ?case using Cons.prems by (simp add: set_rows_def)
qed


section \<open>The round trip\<close>

text \<open>The texts of a release are encoded texts: valid UTF-8 in this representation.\<close>

definition encoded_release :: "LogicalRelease \<Rightarrow> bool" where
  "encoded_release r \<longleftrightarrow>
    list_all valid_utf8 (lr_runnerClass r # lr_requiredFailure r # lr_optionalFailure r #
      lr_overrideAuthority r # lr_deny r @ map rm_version (lr_required r @ lr_optional r))"

definition good_row :: "string \<Rightarrow> bool" where
  "good_row row \<longleftrightarrow> LF_BYTE \<notin> set row \<and> CR_BYTE \<notin> set row \<and> valid_utf8 row"

lemma good_scalar_row:
  assumes "list_all visible name" "plain v" "valid_utf8 v"
  shows "good_row (scalar_row name v)"
proof -
  have "valid_utf8 (name @ [SP] @ v)"
    using assms visible_valid by (intro valid_utf8_append) simp_all
  then show ?thesis using assms visible_plain[OF assms(1)]
    by (auto simp: good_row_def scalar_row_def plain_def)
qed

lemma good_member_row:
  assumes "list_all visible kind" "good_member nfc m" "valid_utf8 (rm_version m)"
  shows "good_row (member_row kind m)"
proof -
  have v: "list_all visible (rm_id m)" "list_all visible (rm_digest m)"
    using assms(2) module_visible sha_visible by (auto simp: good_member_def)
  have "valid_utf8 (rm_id m @ [NUL_BYTE] @ rm_version m @ [NUL_BYTE] @ rm_digest m)"
    using v assms(3) visible_valid by (intro valid_utf8_append) simp_all
  then have "valid_utf8 (kind @ [SP] @ member_text m)"
    using assms(1) visible_valid by (intro valid_utf8_append) (simp_all add: member_text_def)
  then show ?thesis using visible_plain[OF assms(1)] good_member_free[OF assms(2)]
    by (auto simp: good_row_def member_row_def scalar_row_def member_text_def plain_def)
qed

lemma visible_names: "list_all visible n" if
  "n \<in> {''deny'', ''required'', ''optional'', ''okf-set-release-v1''} \<union> set SCALARS"
  using that by (auto simp: SCALARS_def visible_def within_def code_def)

lemma bool_text_visible: "list_all visible (bool_text b) \<and> bool_text b \<noteq> []"
  by (simp add: bool_text_def visible_def within_def code_def)

lemma number_text_visible:
  assumes "intProblem v = None"
  shows "list_all visible (number_text v) \<and> number_text v \<noteq> []"
  using number_text_safe[OF assms] digits_all list_all_mono digit_visible by metis

text \<open>Every scalar written is one the parser's token rule accepts.\<close>

lemma scalar_values_tokens:
  assumes "normalizes_ascii nfc" "good_release nfc r" "v \<in> set (scalar_values r)"
  shows "tokenProblem nfc v = None"
proof -
  note vis = visible_token[OF assms(1)]
  show ?thesis
    using assms(2,3) vis version_visible bool_text_visible number_text_visible
    by (auto simp: scalar_values_def good_release_def)
qed

lemma scalar_values_valid:
  assumes "good_release nfc r" "encoded_release r" "v \<in> set (scalar_values r)"
  shows "valid_utf8 v"
  using assms visible_valid version_visible bool_text_visible number_text_visible family_visible
  by (auto simp: scalar_values_def good_release_def encoded_release_def)

lemma length_scalar_values [simp]: "length (scalar_values r) = length SCALARS"
  by (simp add: scalar_values_def SCALARS_def)

lemma good_scalar_rows:
  assumes "normalizes_ascii nfc" "good_release nfc r" "encoded_release r"
    "row \<in> set (map2 scalar_row SCALARS (scalar_values r))"
  shows "good_row row"
proof -
  obtain n v where nv: "row = scalar_row n v" "(n, v) \<in> set (zip SCALARS (scalar_values r))"
    using assms(4) by auto
  then have "n \<in> set SCALARS" "v \<in> set (scalar_values r)"
    using set_zip_leftD set_zip_rightD by fastforce+
  then have "list_all visible n" "plain v" "valid_utf8 v"
    using visible_names[of n] scalar_values_tokens[OF assms(1,2), of v] token_plain[of nfc v]
      scalar_values_valid[OF assms(2,3), of v] by simp_all
  then show ?thesis unfolding nv(1) by (rule good_scalar_row)
qed

lemma good_set_rows:
  assumes "good_release nfc r" "encoded_release r"
    "row \<in> set (set_rows (lr_deny r) (lr_required r) (lr_optional r))"
  shows "good_row row"
proof -
  have d: "good_row (scalar_row ''deny'' d)" if "d \<in> set (lr_deny r)" for d
    using that assms(1,2) token_plain
    by (intro good_scalar_row visible_names)
      (auto simp: good_release_def encoded_release_def list_all_iff)
  have m: "good_row (member_row kind m)"
    if "m \<in> set (lr_required r) \<union> set (lr_optional r)" "kind \<in> {''required'', ''optional''}" for kind m
    using that assms(1,2)
    by (intro good_member_row[where nfc = nfc] visible_names)
      (auto simp: good_release_def encoded_release_def list_all_iff)
  show ?thesis using assms(3) d m by (auto simp: set_rows_def)
qed

lemma good_manifest_rows:
  assumes "normalizes_ascii nfc" "good_release nfc r" "encoded_release r"
    "row \<in> set (manifest_rows r)"
  shows "good_row row"
proof -
  have f: "list_all visible SET_RELEASE_FORMAT"
    by (simp add: SET_RELEASE_FORMAT_def visible_def within_def code_def)
  then have "good_row SET_RELEASE_FORMAT"
    using visible_plain[OF f] visible_valid[OF f] by (simp add: good_row_def plain_def)
  then show ?thesis using assms good_scalar_rows good_set_rows
    by (auto simp: manifest_rows_def)
qed

lemma encoded_sorted [simp]: "encoded_release (sorted_release r) = encoded_release r"
  by (simp add: encoded_release_def sorted_release_def list_all_iff)

lemma check_bytes_rows:
  assumes "\<forall>row \<in> set rows. good_row row" "rows = SET_RELEASE_FORMAT # rest"
  shows "check_bytes (concat (map (\<lambda>row. row @ [LF_BYTE]) rows)) = None"
proof -
  let ?b = "concat (map (\<lambda>row. row @ [LF_BYTE]) rows)"
  have "valid_utf8 ?b"
    using assms(1) by (intro valid_utf8_concat)
      (auto simp: list_all_iff good_row_def intro!: valid_utf8_append)
  moreover have "CR_BYTE \<notin> set ?b" using assms(1) by (auto simp: good_row_def)
  moreover have "last ?b = LF_BYTE" "?b \<noteq> []" using assms(2) concat_lines[of rows] by auto
  moreover have "take 3 ?b \<noteq> [CHR 0xEF, CHR 0xBB, CHR 0xBF]"
    using assms(2) by (simp add: SET_RELEASE_FORMAT_def)
  ultimately show ?thesis by (simp add: check_bytes_def)
qed

lemma scalars_zip:
  assumes "s = zip SCALARS (scalar_values r)"
  shows "scalar s ''family'' = lr_family r" "scalar s ''version'' = lr_version r"
    "scalar s ''runnerClass'' = lr_runnerClass r"
    "scalar s ''allowTaskAdditions'' = bool_text (lr_allowTaskAdditions r)"
    "scalar s ''allowTaskNarrowing'' = bool_text (lr_allowTaskNarrowing r)"
    "scalar s ''maxBytes'' = number_text (lr_maxBytes r)"
    "scalar s ''maxFreshnessDays'' = number_text (lr_maxFreshnessDays r)"
    "scalar s ''requiredFailure'' = lr_requiredFailure r"
    "scalar s ''optionalFailure'' = lr_optionalFailure r"
    "scalar s ''overrideAuthority'' = lr_overrideAuthority r"
  unfolding assms by (simp_all add: scalar_def SCALARS_def scalar_values_def)

lemma bool_of_text [simp]: "bool_of (bool_text b) = Some b"
  by (simp add: bool_of_def bool_text_def)

lemma number_text_read:
  assumes "intProblem v = None"
  shows "INT_TOKEN (number_text v)" "number_of (digits_value (number_text v)) = v"
  using number_text_safe[OF assms] INT_TOKEN_digits number_of_safe
  by (metis, metis digits_value_digits)

lemma check_scalars_written:
  "good_release nfc r \<Longrightarrow> check_scalars (zip SCALARS (scalar_values r)) = None"
  by (simp add: check_scalars_def scalars_zip[OF refl] number_text_read good_release_def)

lemma strictlySorted_iff: "strictlySorted vs \<longleftrightarrow> sorted vs \<and> distinct vs"
proof -
  have "strictlySorted vs \<longleftrightarrow> sorted_wrt (<) vs"
    by (induction vs rule: strictlySorted.induct) (auto intro: less_trans)
  then show ?thesis by (simp add: strict_sorted_iff)
qed

lemma check_sections_written:
  assumes "distinct ds" "distinct (map rm_id rs)" "distinct (map rm_id os)"
    "rm_id ` set rs \<inter> rm_id ` set os = {}"
  shows "check_sections (canonicalSort id ds, canonicalSort rm_id rs, canonicalSort rm_id os) = None"
proof -
  have "distinct (canonicalSort id ds)" "sorted (canonicalSort id ds)"
    using distinct_canonicalSort[of id ds] sorted_canonicalSort[of id ds] assms(1) by simp_all
  moreover have "find (\<lambda>m. rm_id m \<in> rm_id ` set rs) (canonicalSort rm_id os) = None"
    using assms(4) by (auto simp: find_None_iff)
  ultimately show ?thesis using assms by (simp add: check_sections_def strictlySorted_iff)
qed

lemma release_of_written:
  "good_release nfc r \<Longrightarrow>
   release_of (zip SCALARS (scalar_values r)) (lr_deny r, lr_required r, lr_optional r) = r"
  by (simp add: release_of_def scalars_zip[OF refl] number_text_read good_release_def)

lemma names_free: "n \<in> set SCALARS \<Longrightarrow> SP \<notin> set n"
  using visible_names visible_plain by (auto simp: plain_def)

lemma parse_rows_written:
  assumes "normalizes_ascii nfc" "good_release nfc r"
  shows "parse_rows nfc (manifest_rows (sorted_release r)) = Inr (sorted_release r)"
proof -
  let ?r = "sorted_release r"
  have g: "good_release nfc ?r" using assms(2) by simp
  have 1: "read_scalars nfc 1 SCALARS (tl (manifest_rows ?r)) =
      Inr (zip SCALARS (scalar_values ?r), set_rows (lr_deny ?r) (lr_required ?r) (lr_optional ?r))"
    using read_scalars_rows[of SCALARS "scalar_values ?r" nfc] names_free
      scalar_values_tokens[OF assms(1) g] by (simp add: manifest_rows_def)
  have 2: "read_rows nfc 11 Deny_section (set_rows (lr_deny ?r) (lr_required ?r) (lr_optional ?r)) =
      Inr (lr_deny ?r, lr_required ?r, lr_optional ?r)"
    using g by (intro read_set_rows) (auto simp: good_release_def)
  have 3: "check_sections (lr_deny ?r, lr_required ?r, lr_optional ?r) = None"
    using assms(2) check_sections_written by (simp add: sorted_release_def good_release_def)
  have "hd (manifest_rows ?r) = SET_RELEASE_FORMAT" by (simp add: manifest_rows_def)
  then show ?thesis
    by (simp add: parse_rows_def 1[simplified] 2 3 check_scalars_written[OF g] release_of_written[OF g])
qed

lemma parse_written:
  assumes "normalizes_ascii nfc" "encoded_release r"
    "canonicalSetReleaseManifest nfc r = Release_ok b"
  shows "parseSetReleaseManifest nfc b = Release_ok (sorted_release r)"
proof -
  let ?rows = "manifest_rows (sorted_release r)"
  have g: "good_release nfc r" and b: "b = concat (map (\<lambda>row. row @ [LF_BYTE]) ?rows)"
    using assms(3) by (auto simp: canonical_ok_iff manifest_chunks_rows)
  have rows: "\<forall>row \<in> set ?rows. good_row row"
    using good_manifest_rows[OF assms(1), of "sorted_release r"] g assms(2) by simp
  have "check_bytes b = None"
    unfolding b using rows by (intro check_bytes_rows) (auto simp: manifest_rows_def)
  moreover have "split_at_char LF_BYTE (butlast b) = ?rows"
    unfolding b using rows by (intro split_lines) (auto simp: good_row_def manifest_rows_def)
  ultimately show ?thesis
    using parse_rows_written[OF assms(1) g] by (simp add: parseSetReleaseManifest_def)
qed


text \<open>A text split at an ASCII byte: the pieces of a valid text are valid.\<close>

lemma ascii_not_continuation: "within 0 0x7F c \<Longrightarrow> \<not> continuation c"
  by (simp add: within_def continuation_def)

lemma ascii_not_high: "within 0 0x7F c \<Longrightarrow> 0x80 \<le> lo \<Longrightarrow> \<not> within lo hi c"
  by (simp add: within_def)

lemma lead_stops:
  assumes "within 0 0x7F c" "lead (p @ c # s) > 0" "p \<noteq> []"
  shows "lead (p @ c # s) = lead p"
proof -
  note no = ascii_not_continuation[OF assms(1)] ascii_not_high[OF assms(1)]
  consider a where "p = [a]" | a b where "p = [a, b]" | a b d where "p = [a, b, d]"
    | a b d e w where "p = a # b # d # e # w"
    using assms(3) by (cases p rule: remdups_adj.cases) (metis neq_Nil_conv)+
  then show ?thesis
  proof cases
    case 1
    then show ?thesis using assms(2) no
      by (auto simp: lead_def split: if_splits list.splits)
  next
    case 2
    then show ?thesis using assms(2) no
      by (auto simp: lead_def split: if_splits list.splits)
  next
    case (3 a b d)
    then show ?thesis using assms(2) no
      by (cases "within 0 0x7F a \<or> within 0xC2 0xDF a \<or> within 0xE0 0xEF a")
        (auto simp: lead_def)
  next
    case 4
    then show ?thesis by (simp add: lead_def)
  qed
qed

lemma valid_utf8_split:
  assumes "within 0 0x7F c" "valid_utf8 (p @ c # s)"
  shows "valid_utf8 p \<and> valid_utf8 s"
  using assms(2)
proof (induction p rule: valid_utf8.induct)
  case (1 p)
  show ?case
  proof (cases "p = []")
    case True
    then show ?thesis using 1(2) assms(1) valid_utf8.simps[of "c # s"] by (simp add: lead_def)
  next
    case False
    have v: "lead (p @ c # s) > 0" "valid_utf8 (drop (lead (p @ c # s)) (p @ c # s))"
      using 1(2) valid_utf8.simps[of "p @ c # s"] by (auto split: if_splits)
    have l: "lead (p @ c # s) = lead p" by (rule lead_stops[OF assms(1) v(1) False])
    then have "lead p > 0" using v(1) by simp
    moreover have "lead p \<le> length p" using lead_append[OF \<open>lead p > 0\<close>] by blast
    ultimately show ?thesis
      using 1(1)[OF False] v(2) l valid_utf8.simps[of p] by simp
  qed
qed


lemma valid_pieces:
  assumes "within 0 0x7F c"
  shows "valid_utf8 s \<Longrightarrow> \<forall>p \<in> set (split_at_char c s). valid_utf8 p"
proof (induction s rule: length_induct)
  case (1 s)
  show ?case
  proof (cases "c \<in> set s")
    case True
    then obtain p t where s: "s = p @ c # t" "c \<notin> set p" by (metis split_list_first)
    then have "valid_utf8 p" "valid_utf8 t" using valid_utf8_split[OF assms, of p t] 1(2) by simp_all
    moreover have "length t < length s" using s(1) by simp
    ultimately have "\<forall>q \<in> set (split_at_char c t). valid_utf8 q" using 1(1) by blast
    then show ?thesis using s \<open>valid_utf8 p\<close> by (simp add: split_at_char_append)
  next
    case False
    then show ?thesis using 1(2) by (simp add: split_at_char_free)
  qed
qed

lemma structural_ascii: "within 0 0x7F SP" "within 0 0x7F NUL_BYTE" "within 0 0x7F LF_BYTE"
  by (simp_all add: within_def code_def byte_defs)

lemma valid_row_value: "valid_utf8 row \<Longrightarrow> valid_utf8 (row_value row)"
  using valid_utf8_split[OF structural_ascii(1), of "row_key row" "row_value row"] row_parts[of row]
  by (cases "SP \<in> set row") (simp_all add: scalar_row_def, simp add: row_value_def)

lemma read_scalars_valid:
  "read_scalars nfc i names rows = Inr (sc, rest) \<Longrightarrow> \<forall>row \<in> set rows. valid_utf8 row \<Longrightarrow>
   (\<forall>(n, v) \<in> set sc. valid_utf8 v) \<and> (\<forall>row \<in> set rest. valid_utf8 row)"
proof (induction nfc i names rows arbitrary: sc rest rule: read_scalars.induct)
  case (3 nfc i name names row rows)
  then show ?case
    by (auto simp: valid_row_value split: if_splits option.splits sum.splits)
qed simp_all

lemma scalar_valid: "\<forall>(n, v) \<in> set sc. valid_utf8 v \<Longrightarrow> valid_utf8 (scalar sc name)"
  by (auto simp: scalar_def split: option.split dest!: map_of_SomeD)

lemma read_member_valid:
  assumes "read_member nfc kind s = Inr m" "valid_utf8 s"
  shows "valid_utf8 (rm_version m)"
proof -
  obtain a v d where "split_at_char NUL_BYTE s = [a, v, d]" "rm_version m = v"
    using assms(1) by (auto simp: read_member_def split: list.splits if_splits option.splits)
  then show ?thesis using valid_pieces[OF structural_ascii(2) assms(2)] by simp
qed

lemma read_rows_valid:
  "read_rows nfc i s rows = Inr (ds, rs, os) \<Longrightarrow> \<forall>row \<in> set rows. valid_utf8 row \<Longrightarrow>
   (\<forall>d \<in> set ds. valid_utf8 d) \<and> (\<forall>m \<in> set rs \<union> set os. valid_utf8 (rm_version m))"
proof (induction nfc i s rows arbitrary: ds rs os rule: read_rows.induct)
  case (2 nfc i s row rows)
  have row: "valid_utf8 (row_value row)" using 2(4) by (simp add: valid_row_value)
  have sp: "SP \<in> set row" by (rule ccontr) (use 2(3) in simp)
  obtain kind where kind: "section_of (row_key row) = Some kind"
    by (cases "section_of (row_key row)") (use 2(3) sp in simp_all)
  have "\<not> ORDER kind < ORDER s" by (rule notI) (use 2(3) sp kind in simp)
  note k = sp kind this
  show ?case
  proof (cases "kind = Deny_section")
    case True
    then obtain ds' where "tokenProblem nfc (row_value row) = None"
      "read_rows nfc (i + 1) kind rows = Inr (ds', rs, os)" "ds = row_value row # ds'"
      using 2(3) k by (auto split: option.splits sum.splits)
    then show ?thesis using 2(1)[OF _ k(2)] k True 2(4) row by auto
  next
    case False
    then obtain m ds' rs' os' where m: "read_member nfc (section_name kind) (row_value row) = Inr m"
      "read_rows nfc (i + 1) kind rows = Inr (ds', rs', os')" "ds = ds'"
      "rs = (if kind = Required_section then m # rs' else rs')"
      "os = (if kind = Required_section then os' else m # os')"
      using 2(3) k by (auto split: sum.splits if_splits)
    then have "(\<forall>d \<in> set ds'. valid_utf8 d) \<and> (\<forall>m \<in> set rs' \<union> set os'. valid_utf8 (rm_version m))"
      using 2(2)[OF _ k(2)] k False 2(4) by auto
    then show ?thesis using m read_member_valid[OF m(1) row] by auto
  qed
qed simp

lemma parse_encoded:
  assumes "parseSetReleaseManifest nfc b = Release_ok r"
  shows "encoded_release r"
proof -
  let ?rows = "split_at_char LF_BYTE (butlast b)"
  have b: "check_bytes b = None" and p: "parse_rows nfc ?rows = Inr r"
    using assms by (auto simp: parseSetReleaseManifest_def split: option.splits sum.splits)
  have "b \<noteq> []" "last b = LF_BYTE" "valid_utf8 b"
    using b by (auto simp: check_bytes_def split: if_splits)
  then have "valid_utf8 (butlast b @ LF_BYTE # [])" by (metis append_butlast_last_id)
  then have "valid_utf8 (butlast b)" using valid_utf8_split[OF structural_ascii(3)] by blast
  then have rows: "\<forall>row \<in> set (tl ?rows). valid_utf8 row"
    using valid_pieces[OF structural_ascii(3)] by (meson list.set_sel(2) split_at_char_nonempty)
  obtain sc rest ds rs os where s: "read_scalars nfc 1 SCALARS (tl ?rows) = Inr (sc, rest)"
    "read_rows nfc 11 Deny_section rest = Inr (ds, rs, os)" "r = release_of sc (ds, rs, os)"
    using p unfolding parse_rows_def by (auto split: if_splits sum.splits option.splits)
  have sc: "\<forall>(n, v) \<in> set sc. valid_utf8 v" "\<forall>row \<in> set rest. valid_utf8 row"
    using read_scalars_valid[OF s(1) rows] by auto
  show ?thesis
    using read_rows_valid[OF s(2) sc(2)] scalar_valid[OF sc(1)]
    by (auto simp: s(3) release_of_def encoded_release_def list_all_iff)
qed

section \<open>Properties of the canonical form\<close>

text \<open>Two releases that differ at most in the order of their three sets.\<close>

definition same_release :: "LogicalRelease \<Rightarrow> LogicalRelease \<Rightarrow> bool" where
  "same_release r s \<longleftrightarrow>
    r\<lparr>lr_deny := [], lr_required := [], lr_optional := []\<rparr> =
    s\<lparr>lr_deny := [], lr_required := [], lr_optional := []\<rparr> \<and>
    mset (lr_deny r) = mset (lr_deny s) \<and> mset (lr_required r) = mset (lr_required s) \<and>
    mset (lr_optional r) = mset (lr_optional s)"

lemma sorted_release_same:
  assumes "sorted_release r = sorted_release s"
  shows "same_release r s"
proof -
  have "lr_deny (sorted_release r) = lr_deny (sorted_release s)"
    "lr_required (sorted_release r) = lr_required (sorted_release s)"
    "lr_optional (sorted_release r) = lr_optional (sorted_release s)"
    "(sorted_release r)\<lparr>lr_deny := [], lr_required := [], lr_optional := []\<rparr> =
      (sorted_release s)\<lparr>lr_deny := [], lr_required := [], lr_optional := []\<rparr>"
    using assms by simp_all
  then show ?thesis
    unfolding same_release_def sorted_release_def by simp (metis mset_canonicalSort)
qed

lemma same_release_sorted:
  assumes "same_release r s" "good_release nfc r"
  shows "sorted_release r = sorted_release s"
proof -
  have "canonicalSort id (lr_deny r) = canonicalSort id (lr_deny s)"
    "canonicalSort rm_id (lr_required r) = canonicalSort rm_id (lr_required s)"
    "canonicalSort rm_id (lr_optional r) = canonicalSort rm_id (lr_optional s)"
    using assms by (auto intro!: canonicalSort_perm simp: same_release_def good_release_def distinct_map)
  then show ?thesis using assms(1)
    by (cases r; cases s) (simp add: same_release_def sorted_release_def)
qed


lemma canonical_unrefused:
  assumes "canonicalSetReleaseManifest nfc r = Release_ok b"
  shows "canonicalSetReleaseManifest nfc (sorted_release r) = Release_ok b"
  using assms by (simp add: canonical_ok_iff)

lemma written_is_canonical:
  assumes "normalizes_ascii nfc" "encoded_release r"
    "canonicalSetReleaseManifest nfc r = Release_ok b"
  shows "isCanonicalSetReleaseManifest nfc b = Release_ok b"
  using parse_written[OF assms] canonical_unrefused[OF assms(3)]
  by (simp add: isCanonicalSetReleaseManifest_def)

lemma same_bytes_same_release:
  assumes "normalizes_ascii nfc" "encoded_release r" "encoded_release s"
    "canonicalSetReleaseManifest nfc r = Release_ok b" "canonicalSetReleaseManifest nfc s = Release_ok b"
  shows "same_release r s"
  using parse_written[OF assms(1,2,4)] parse_written[OF assms(1,3,5)] sorted_release_same by simp

lemma same_release_same_bytes:
  assumes "same_release r s" "canonicalSetReleaseManifest nfc r = Release_ok b"
    "canonicalSetReleaseManifest nfc s = Release_ok c"
  shows "b = c"
proof -
  have "good_release nfc r" using assms(2) by (simp add: canonical_ok_iff)
  then have "sorted_release r = sorted_release s" by (rule same_release_sorted[OF assms(1)])
  then show ?thesis using assms(2,3) manifest_chunks_sorted by (metis canonical_ok_iff)
qed




section \<open>A release\<close>

definition sample_member :: "string \<Rightarrow> ReleaseMember" where
  "sample_member mid = \<lparr>rm_id = mid, rm_version = ''1.0.0'', rm_digest = replicate 64 (CHR ''a'')\<rparr>"

definition sample_release :: LogicalRelease where
  "sample_release =
    \<lparr>lr_family = ''home'', lr_version = ''2.0.1'', lr_runnerClass = ''coding'',
     lr_allowTaskAdditions = True, lr_allowTaskNarrowing = True, lr_maxBytes = Whole 1024,
     lr_maxFreshnessDays = Whole 30, lr_requiredFailure = ''reject'',
     lr_optionalFailure = ''omit'', lr_overrideAuthority = ''human'', lr_deny = [''demo/*''],
     lr_required = [sample_member ''lab/b'', sample_member ''lab/a''],
     lr_optional = [sample_member ''lab/c'']\<rparr>"

lemma normalizes_ascii_same: "normalizes_ascii (\<lambda>s. s)"
  by (simp add: normalizes_ascii_def)

lemma good_sample: "good_release (\<lambda>s. s) sample_release"
  by code_simp

lemma encoded_sample: "encoded_release sample_release"
  by code_simp

definition sample_bytes :: string where
  "sample_bytes = concat (manifest_chunks sample_release)"

lemma canonical_sample: "canonicalSetReleaseManifest (\<lambda>s. s) sample_release = Release_ok sample_bytes"
  by (simp add: canonical_ok_iff good_sample sample_bytes_def)




text \<open>The same release, its required members the other way round.\<close>

definition shuffled_release :: LogicalRelease where
  "shuffled_release = sample_release
    \<lparr>lr_required := [sample_member ''lab/a'', sample_member ''lab/b'']\<rparr>"


section \<open>The parser alone\<close>

text \<open>
  The rows of a manifest with the value of \<^verbatim>\<open>runnerClass\<close>, and the space before it, left out.
\<close>

definition unvalued_rows :: "LogicalRelease \<Rightarrow> string list" where
  "unvalued_rows r =
    SET_RELEASE_FORMAT # (map2 scalar_row SCALARS (scalar_values r))[2 := ''runnerClass''] @
    set_rows (lr_deny r) (lr_required r) (lr_optional r)"

definition unvalued_bytes :: "LogicalRelease \<Rightarrow> string" where
  "unvalued_bytes r = concat (map (\<lambda>row. row @ [LF_BYTE]) (unvalued_rows r))"

lemma read_scalars_general:
  assumes "length names = length vals" "length vals = length rows"
    "\<forall>j < length names. row_key (rows ! j) = names ! j \<and> row_value (rows ! j) = vals ! j \<and>
       tokenProblem nfc (vals ! j) = None"
  shows "read_scalars nfc i names (rows @ rest) = Inr (zip names vals, rest)"
  using assms
proof (induction names vals rows arbitrary: i rule: list_induct3)
  case (Cons n names v vals row rows)
  have "\<forall>j < length names. row_key (rows ! j) = names ! j \<and> row_value (rows ! j) = vals ! j \<and>
      tokenProblem nfc (vals ! j) = None"
    using Cons.prems by (metis Suc_less_eq length_Cons nth_Cons_Suc)
  moreover have "row_key row = n \<and> row_value row = v \<and> tokenProblem nfc v = None"
    using Cons.prems by (metis length_greater_0_conv list.distinct(1) nth_Cons_0)
  ultimately show ?case using Cons.IH by simp
qed simp

lemma unvalued_scalars:
  assumes "normalizes_ascii nfc" "good_release nfc r" "lr_runnerClass r = ''runnerClass''"
  shows "read_scalars nfc i SCALARS
     ((map2 scalar_row SCALARS (scalar_values r))[2 := ''runnerClass''] @ rest) =
   Inr (zip SCALARS (scalar_values r), rest)"
proof (rule read_scalars_general)
  let ?rows = "(map2 scalar_row SCALARS (scalar_values r))[2 := ''runnerClass'']"
  have two: "SCALARS ! 2 = ''runnerClass''" "scalar_values r ! 2 = ''runnerClass''"
    using assms(3) by (simp_all add: SCALARS_def scalar_values_def)
  have key: "row_key ''runnerClass'' = ''runnerClass''" "row_value ''runnerClass'' = ''runnerClass''"
    by (simp_all add: row_key_def row_value_def SP_def)
  show "\<forall>j < length SCALARS. row_key (?rows ! j) = SCALARS ! j \<and>
      row_value (?rows ! j) = scalar_values r ! j \<and> tokenProblem nfc (scalar_values r ! j) = None"
  proof (intro allI impI)
    fix j assume j: "j < length SCALARS"
    have t: "tokenProblem nfc (scalar_values r ! j) = None"
      using j by (intro scalar_values_tokens[OF assms(1,2)]) simp
    show "row_key (?rows ! j) = SCALARS ! j \<and> row_value (?rows ! j) = scalar_values r ! j \<and>
        tokenProblem nfc (scalar_values r ! j) = None"
    proof (cases "j = 2")
      case True
      then show ?thesis using j two key t by simp
    next
      case False
      then have "?rows ! j = scalar_row (SCALARS ! j) (scalar_values r ! j)" using j by simp
      moreover have "SP \<notin> set (SCALARS ! j)" using j names_free by simp
      ultimately show ?thesis using t by simp
    qed
  qed
qed simp_all

lemma good_unvalued_rows:
  assumes "normalizes_ascii nfc" "good_release nfc r" "encoded_release r" "row \<in> set (unvalued_rows r)"
  shows "good_row row"
proof -
  have "row = ''runnerClass'' \<or> row \<in> set (manifest_rows r)"
    using assms(4) set_update_subset_insert[of "map2 scalar_row SCALARS (scalar_values r)" 2]
    by (auto simp: unvalued_rows_def manifest_rows_def)
  moreover have v: "list_all visible ''runnerClass''" by (simp add: visible_def within_def code_def)
  have "good_row ''runnerClass''"
    using visible_plain[OF v] visible_valid[OF v] by (simp add: good_row_def plain_def)
  ultimately show ?thesis using good_manifest_rows[OF assms(1-3)] by blast
qed

lemma unvalued_parsed:
  assumes "normalizes_ascii nfc" "good_release nfc r" "encoded_release r"
    "lr_runnerClass r = ''runnerClass''"
  shows "parseSetReleaseManifest nfc (unvalued_bytes (sorted_release r)) = Release_ok (sorted_release r)"
proof -
  let ?r = "sorted_release r"
  have g: "good_release nfc ?r" using assms(2) by simp
  have rows: "\<forall>row \<in> set (unvalued_rows ?r). good_row row"
    using good_unvalued_rows[OF assms(1) g] assms(3) by simp
  have 0: "lr_runnerClass ?r = ''runnerClass''" using assms(4) by (simp add: sorted_release_def)
  have 2: "read_rows nfc 11 Deny_section (set_rows (lr_deny ?r) (lr_required ?r) (lr_optional ?r)) =
      Inr (lr_deny ?r, lr_required ?r, lr_optional ?r)"
    using g by (intro read_set_rows) (auto simp: good_release_def)
  have 3: "check_sections (lr_deny ?r, lr_required ?r, lr_optional ?r) = None"
    using assms(2) check_sections_written by (simp add: sorted_release_def good_release_def)
  have "parse_rows nfc (unvalued_rows ?r) = Inr ?r"
    by (simp add: parse_rows_def unvalued_rows_def unvalued_scalars[OF assms(1) g 0] 2 3
        check_scalars_written[OF g] release_of_written[OF g])
  moreover have "check_bytes (unvalued_bytes ?r) = None"
    unfolding unvalued_bytes_def using rows by (intro check_bytes_rows) (auto simp: unvalued_rows_def)
  moreover have "split_at_char LF_BYTE (butlast (unvalued_bytes ?r)) = unvalued_rows ?r"
    unfolding unvalued_bytes_def using rows
    by (intro split_lines) (auto simp: good_row_def unvalued_rows_def)
  ultimately show ?thesis by (simp add: parseSetReleaseManifest_def)
qed

lemma unvalued_differs:
  assumes "normalizes_ascii nfc" "good_release nfc r" "encoded_release r"
  shows "concat (manifest_chunks r) \<noteq> unvalued_bytes (sorted_release r)"
proof
  let ?r = "sorted_release r"
  assume eq: "concat (manifest_chunks r) = unvalued_bytes ?r"
  have g: "good_release nfc ?r" "encoded_release ?r" using assms by simp_all
  have "split_at_char LF_BYTE (butlast (unvalued_bytes ?r)) = unvalued_rows ?r"
    unfolding unvalued_bytes_def using good_unvalued_rows[OF assms(1) g]
    by (intro split_lines) (auto simp: good_row_def unvalued_rows_def)
  moreover have "split_at_char LF_BYTE (butlast (concat (manifest_chunks r))) = manifest_rows ?r"
    unfolding manifest_chunks_rows using good_manifest_rows[OF assms(1) g]
    by (intro split_lines) (auto simp: good_row_def manifest_rows_def)
  ultimately have "manifest_rows ?r = unvalued_rows ?r" using eq by simp
  then have "SP \<in> set ''runnerClass''"
    using SP_scalar_row[of "''runnerClass''" "lr_runnerClass ?r"]
    by (simp add: manifest_rows_def unvalued_rows_def SCALARS_def scalar_values_def)
  then show False by (simp add: SP_def)
qed

text \<open>
  C40: What the parser alone lets through. A manifest whose \<^verbatim>\<open>runnerClass\<close> row has neither space
  nor value is read as a release whose runner class is \<^verbatim>\<open>runnerClass\<close>, although serializing
  that release gives other bytes; it is the canonicity check that refuses it.
\<close>

theorem parser_reads_a_row_without_a_value:
  assumes "normalizes_ascii nfc" and "encoded_release r"
    and "canonicalSetReleaseManifest nfc r = Release_ok b" and "lr_runnerClass r = ''runnerClass''"
  shows "parseSetReleaseManifest nfc (unvalued_bytes (sorted_release r)) = Release_ok (sorted_release r) \<and>
    canonicalSetReleaseManifest nfc (sorted_release r) = Release_ok b \<and>
    b \<noteq> unvalued_bytes (sorted_release r) \<and>
    (\<exists>refusal. isCanonicalSetReleaseManifest nfc (unvalued_bytes (sorted_release r)) =
       Release_refused [refusal] \<and> rr_rule refusal = ''manifest.noncanonical'')"
proof -
  have g: "good_release nfc r" "b = concat (manifest_chunks r)"
    using assms(3) by (auto simp: canonical_ok_iff)
  show ?thesis
    using unvalued_parsed[OF assms(1) g(1) assms(2,4)] canonical_unrefused[OF assms(3)]
      unvalued_differs[OF assms(1) g(1) assms(2)] g(2)
    by (simp add: isCanonicalSetReleaseManifest_def refuse_rule_def)
qed

lemma parser_reads_a_row_without_a_value_witness:
  "let r = sorted_release (sample_release \<lparr>lr_runnerClass := ''runnerClass''\<rparr>) in
     parseSetReleaseManifest (\<lambda>s. s) (unvalued_bytes r) = Release_ok r"
proof -
  let ?r = "sample_release \<lparr>lr_runnerClass := ''runnerClass''\<rparr>"
  have "good_release (\<lambda>s. s) ?r" "encoded_release ?r" by code_simp+
  moreover from this(1) have "canonicalSetReleaseManifest (\<lambda>s. s) ?r =
      Release_ok (concat (manifest_chunks ?r))"
    by (simp add: canonical_ok_iff)
  ultimately show ?thesis
    using parser_reads_a_row_without_a_value[OF normalizes_ascii_same] by (simp add: Let_def)
qed

end
