(* ===== verification/Decision.thy ===== *)
theory Decision
  imports Prelude
begin

text \<open>
  The trusted-decision algebra of \<^verbatim>\<open>packages/runner-core/src/decision/decision.ts\<close>: a decision
  proceeds with a value or refuses with a code, the violated element and a detail; an
  operational failure is a separate variant and never carries a code. A reported refusal of an
  untyped caller (\<^verbatim>\<open>coerceRefusal\<close>) is passed through only when its shape is established.
\<close>

section \<open>The algebra\<close>

text \<open>
  The closed vocabulary, and the codes a reported refusal of an untyped caller may carry
  beside it.
\<close>

datatype RefusalCode =
    missing_authority
  | invalid_authority
  | contract_mismatch
  | undecidable
  | undeclared_gate
  | duplicate_gate
  | base_identity_mismatch
  | path_outside_roots
  | protected_path
  | path_undecidable
  | over_bound
  | unrecognized_rule
  | claim_parse
  | incomplete_evidence
  | inconsistent_evidence
  | seal_prerequisite
  | consumption_digest_mismatch
  | Foreign_code string

definition REFUSAL_CODES :: "RefusalCode list" where
  "REFUSAL_CODES =
    [missing_authority, invalid_authority, contract_mismatch, undecidable, undeclared_gate,
     duplicate_gate, base_identity_mismatch, path_outside_roots, protected_path,
     path_undecidable, over_bound, unrecognized_rule, claim_parse, incomplete_evidence,
     inconsistent_evidence, seal_prerequisite, consumption_digest_mismatch]"

record Violated =
  v_element :: string
  v_observed :: "string option"

text \<open>
  A refusal. The violated element is optional because a refusal passed through from an
  untyped caller is checked for its kind, code and detail only.
\<close>

record Refusal =
  rf_code :: RefusalCode
  rf_violated :: "Violated option"
  rf_detail :: string

datatype 'a Decision = Proceed 'a | Refused Refusal

datatype 'a ObservedDecision =
    Decided "'a Decision"
  | OperationalFailure (of_source: string) (of_detail: string)

definition proceed :: "'a \<Rightarrow> 'a Decision" where
  "proceed value = Proceed value"

definition refusal :: "RefusalCode \<Rightarrow> Violated \<Rightarrow> string \<Rightarrow> Refusal" where
  "refusal code violated detail =
     \<lparr>rf_code = code, rf_violated = Some violated, rf_detail = detail\<rparr>"

definition refuse :: "RefusalCode \<Rightarrow> Violated \<Rightarrow> string \<Rightarrow> 'a Decision" where
  "refuse code violated detail = Refused (refusal code violated detail)"

definition operationalFailure :: "string \<Rightarrow> string \<Rightarrow> 'a ObservedDecision" where
  "operationalFailure source detail = OperationalFailure source detail"

text \<open>The violated element with no observed value, and with one.\<close>

definition element :: "string \<Rightarrow> Violated" where
  "element e = \<lparr>v_element = e, v_observed = None\<rparr>"

definition element_observed :: "string \<Rightarrow> string \<Rightarrow> Violated" where
  "element_observed e obs = \<lparr>v_element = e, v_observed = Some obs\<rparr>"

section \<open>Values of untyped callers\<close>

text \<open>
  A value an untyped caller passes where a refusal is expected: \<^verbatim>\<open>undefined\<close>, \<^verbatim>\<open>null\<close> and
  primitives are \<open>Not_an_object\<close>; of an object the code reads the members \<^verbatim>\<open>kind\<close>, \<^verbatim>\<open>code\<close> and
  \<^verbatim>\<open>detail\<close>, each a string or something else (\<open>None\<close>).
\<close>

datatype unknown_refusal =
    Not_an_object
  | Object_with (ur_kind: "string option") (ur_code: "RefusalCode option")
      (ur_detail: "string option") (ur_violated: "Violated option")

text \<open>\<^verbatim>\<open>coerceRefusal\<close>\<close>

fun coerceRefusal :: "unknown_refusal \<Rightarrow> string \<Rightarrow> Refusal" where
  "coerceRefusal (Object_with kind code detail violated) e =
     (case (kind = Some ''refusal'', code, detail) of
        (True, Some c, Some d) \<Rightarrow> \<lparr>rf_code = c, rf_violated = violated, rf_detail = d\<rparr>
      | _ \<Rightarrow> refusal undecidable (element e)
              ''a refusal was reported but its shape cannot be established'')"
| "coerceRefusal Not_an_object e =
     refusal undecidable (element e)
       ''a refusal was reported but its shape cannot be established''"

text \<open>The value a well-typed refusal is for such a caller.\<close>

definition reported :: "Refusal \<Rightarrow> unknown_refusal" where
  "reported r =
     Object_with (Some ''refusal'') (Some (rf_code r)) (Some (rf_detail r)) (rf_violated r)"

fun isProceed :: "'a ObservedDecision \<Rightarrow> bool" where
  "isProceed (Decided (Proceed _)) = True"
| "isProceed _ = False"

fun isRefusal :: "'a ObservedDecision \<Rightarrow> bool" where
  "isRefusal (Decided (Refused _)) = True"
| "isRefusal _ = False"

fun isOperationalFailure :: "'a ObservedDecision \<Rightarrow> bool" where
  "isOperationalFailure (OperationalFailure _ _) = True"
| "isOperationalFailure _ = False"

text \<open>Reading a decision.\<close>

fun proceeds :: "'a Decision \<Rightarrow> bool" where
  "proceeds (Proceed _) = True"
| "proceeds (Refused _) = False"

fun code_of :: "'a Decision \<Rightarrow> RefusalCode option" where
  "code_of (Proceed _) = None"
| "code_of (Refused r) = Some (rf_code r)"

section \<open>Lemmas\<close>

declare proceed_def [simp] operationalFailure_def [simp]

lemma rf_refusal [simp]:
  "rf_code (refusal c v d) = c"
  "rf_violated (refusal c v d) = Some v"
  "rf_detail (refusal c v d) = d"
  by (simp_all add: refusal_def)

lemma code_of_refuse [simp]: "code_of (refuse c v d) = Some c"
  by (simp add: refuse_def)

lemma refuse_not_proceed [simp]:
  "refuse c v d \<noteq> Proceed x" "Proceed x \<noteq> refuse c v d" "\<not> proceeds (refuse c v d)"
  by (simp_all add: refuse_def)

lemma refuse_inj [simp]:
  "refuse c v d = refuse c' v' d' \<longleftrightarrow> c = c' \<and> v = v' \<and> d = d'"
  by (simp add: refuse_def refusal_def)

lemma code_of_None [simp]: "code_of d = None \<longleftrightarrow> proceeds d"
  by (cases d) auto

lemma proceeds_iff: "proceeds d \<longleftrightarrow> (\<exists>x. d = Proceed x)"
  by (cases d) auto

text \<open>A reported refusal is passed through as it is, whatever element it is reported for.\<close>

lemma coerceRefusal_reported [simp]: "coerceRefusal (reported r) e = r"
  by (simp add: reported_def)

text \<open>
  What \<^verbatim>\<open>coerceRefusal\<close> returns for an untyped value is either that value, passed
  through unchanged because it has the shape of a refusal, or the undecidable refusal naming
  the element it was reported for; the second exactly when the value does not have that shape.
\<close>

theorem coerceRefusal_fail_closed:
  "if \<exists>r. u = reported r then reported (coerceRefusal u e) = u
   else coerceRefusal u e =
     refusal undecidable (element e)
       ''a refusal was reported but its shape cannot be established''"
proof (cases "\<exists>r. u = reported r")
  case True
  then show ?thesis by auto
next
  case False
  have "u \<noteq> Object_with (Some ''refusal'') (Some c) (Some d) v" for c d v
  proof
    assume "u = Object_with (Some ''refusal'') (Some c) (Some d) v"
    then have "u = reported \<lparr>rf_code = c, rf_violated = v, rf_detail = d\<rparr>"
      by (simp add: reported_def)
    with False show False by blast
  qed
  with False show ?thesis
    by (cases u) (auto split: bool.splits option.splits)
qed

text \<open>The three variants of an observed decision are exhaustive and exclusive.\<close>

lemma decision_trichotomy:
  "isProceed d \<and> \<not> isRefusal d \<and> \<not> isOperationalFailure d
   \<or> \<not> isProceed d \<and> isRefusal d \<and> \<not> isOperationalFailure d
   \<or> \<not> isProceed d \<and> \<not> isRefusal d \<and> isOperationalFailure d"
  by (cases d rule: isProceed.cases) auto

end
