(* ===== verification/Paths.thy ===== *)
theory Paths
  imports Decision
begin

text \<open>
  Pure path normalization and the component-wise prefix of
  \<^verbatim>\<open>packages/runner-core/src/primitives/paths.ts\<close>.
\<close>

section \<open>Normalization\<close>

datatype NormalizedPath = Path_ok string | Path_bad string

definition slash :: char where "slash = CHR ''/''"

definition backslash :: char where "backslash = CHR 0x5C"

text \<open>The expression \<^verbatim>\<open>/^[A-Za-z][A-Za-z0-9+.-]*:/\<close>.\<close>

definition is_letter :: "char \<Rightarrow> bool" where
  "is_letter c \<longleftrightarrow>
     (CHR ''A'' \<le> c \<and> c \<le> CHR ''Z'') \<or> (CHR ''a'' \<le> c \<and> c \<le> CHR ''z'')"

definition is_scheme_char :: "char \<Rightarrow> bool" where
  "is_scheme_char c \<longleftrightarrow>
     is_letter c \<or> (CHR ''0'' \<le> c \<and> c \<le> CHR ''9'') \<or> c \<in> set ''+.-''"

fun has_scheme :: "string \<Rightarrow> bool" where
  "has_scheme [] = False"
| "has_scheme (c # cs) =
     (is_letter c \<and> (case dropWhile is_scheme_char cs of
                       d # _ \<Rightarrow> d = CHR '':'' | [] \<Rightarrow> False))"

definition kept :: "string \<Rightarrow> bool" where
  "kept segment \<longleftrightarrow> segment \<noteq> '''' \<and> segment \<noteq> ''.''"

definition segments :: "string \<Rightarrow> string list" where
  "segments raw = filter kept (split_at_char slash raw)"

definition normalizePath :: "string \<Rightarrow> NormalizedPath" where
  "normalizePath raw =
    (if length raw = 0 then Path_bad ''empty path''
     else if backslash \<in> set raw then Path_bad ''backslash separator''
     else if prefix [slash] raw then Path_bad ''absolute path''
     else if has_scheme raw then Path_bad ''scheme-qualified path''
     else if CHR 0x00 \<in> set raw then Path_bad ''NUL byte''
     else if segments raw = [] then Path_bad ''no path components''
     else if ''..'' \<in> set (segments raw) then Path_bad ''traversal segment''
     else Path_ok (join [slash] (segments raw)))"

definition isPathPrefix :: "string \<Rightarrow> string \<Rightarrow> bool" where
  "isPathPrefix pre path \<longleftrightarrow> path = pre \<or> prefix (pre @ [slash]) path"

section \<open>Normal forms\<close>

text \<open>
  The components of a path, and the paths normalization promises to its callers: some
  components, none of them empty, \<^verbatim>\<open>.\<close> or \<^verbatim>\<open>..\<close>, and no backslash or NUL anywhere.
\<close>

definition components :: "string \<Rightarrow> string list" where
  "components path = split_at_char slash path"

definition normal_component :: "string \<Rightarrow> bool" where
  "normal_component p \<longleftrightarrow> p \<noteq> '''' \<and> p \<noteq> ''.'' \<and> p \<noteq> ''..'' \<and>
     slash \<notin> set p \<and> backslash \<notin> set p \<and> CHR 0x00 \<notin> set p"

definition normal_form :: "string \<Rightarrow> bool" where
  "normal_form path \<longleftrightarrow> (\<forall>p \<in> set (components path). normal_component p)"

lemma components_nonempty [simp]: "components p \<noteq> []"
  by (simp add: components_def)

lemma components_join [simp]:
  "ps \<noteq> [] \<Longrightarrow> \<forall>p \<in> set ps. slash \<notin> set p \<Longrightarrow> components (join [slash] ps) = ps"
  by (simp add: components_def split_join)

lemma join_components [simp]: "join [slash] (components p) = p"
  by (simp add: components_def join_split)

lemma components_inj: "components p = components q \<longleftrightarrow> p = q"
  by (metis join_components)

lemma set_split_at_char: "p \<in> set (split_at_char c s) \<Longrightarrow> set p \<subseteq> set s"
proof (induction s arbitrary: p)
  case (Cons x xs)
  obtain q qs where q: "split_at_char c xs = q # qs" by (cases "split_at_char c xs") auto
  with Cons show ?case
    by (cases "x = c") (auto, blast+)
qed simp

lemma segments_free:
  "p \<in> set (segments raw) \<Longrightarrow> slash \<notin> set p \<and> set p \<subseteq> set raw \<and> kept p"
  using split_at_char_pieces[of p slash raw] set_split_at_char[of p slash raw]
  by (simp add: segments_def)

lemma normalizePath_okD:
  assumes "normalizePath raw = Path_ok n"
  shows "n = join [slash] (segments raw)" "segments raw \<noteq> []" "''..'' \<notin> set (segments raw)"
    "backslash \<notin> set raw" "CHR 0x00 \<notin> set raw" "\<not> prefix [slash] raw" "\<not> has_scheme raw"
    "raw \<noteq> []"
  using assms by (auto simp: normalizePath_def split: if_splits)

lemma normalizePath_components:
  assumes "normalizePath raw = Path_ok n"
  shows "components n = segments raw"
  using normalizePath_okD[OF assms] segments_free by auto

lemma normalizePath_normal_form:
  assumes "normalizePath raw = Path_ok n"
  shows "normal_form n"
  using normalizePath_okD[OF assms] segments_free[of _ raw] normalizePath_components[OF assms]
  unfolding normal_form_def normal_component_def kept_def by (metis subsetD)

lemma normal_form_segments:
  assumes "normal_form n"
  shows "segments n = components n"
  using assms
  by (auto simp: segments_def components_def normal_form_def normal_component_def kept_def
      filter_id_conv)

lemma set_join: "c \<in> set (join sep ps) \<Longrightarrow> c \<in> set sep \<or> (\<exists>p \<in> set ps. c \<in> set p)"
  by (induction sep ps rule: join.induct) auto

lemma normal_form_free:
  assumes "normal_form n" and "c \<noteq> slash" and "\<And>p. normal_component p \<Longrightarrow> c \<notin> set p"
  shows "c \<notin> set n"
proof
  assume "c \<in> set n"
  then obtain p where "p \<in> set (components n)" "c \<in> set p"
    using set_join[of c "[slash]" "components n"] assms(2) by auto
  then show False using assms(1,3) by (simp add: normal_form_def)
qed

lemma normal_form_chars:
  assumes "normal_form n"
  shows "backslash \<notin> set n" "CHR 0x00 \<notin> set n" "n \<noteq> []" "\<not> prefix [slash] n"
proof -
  show "backslash \<notin> set n"
    by (rule normal_form_free[OF assms])
      (simp_all add: normal_component_def slash_def backslash_def)
  show "CHR 0x00 \<notin> set n"
    by (rule normal_form_free[OF assms]) (simp_all add: normal_component_def slash_def)
  have first: "hd (components n) \<noteq> []"
    using assms by (simp add: normal_form_def normal_component_def)
  then show "n \<noteq> []" by (auto simp: components_def)
  show "\<not> prefix [slash] n"
  proof
    assume "prefix [slash] n"
    then obtain t where "n = slash # t" by (auto simp: prefix_def)
    then show False using first by (simp add: components_def)
  qed
qed

text \<open>A normal form without a scheme is its own normalization.\<close>

lemma normalizePath_normal:
  assumes "normal_form n" and "\<not> has_scheme n"
  shows "normalizePath n = Path_ok n"
  using assms normal_form_chars[OF assms(1)] normal_form_segments[OF assms(1)]
  by (auto simp: normalizePath_def normal_form_def normal_component_def)

text \<open>Whether a path has a scheme is decided by its first component.\<close>

lemma slash_not_scheme_char [simp]: "\<not> is_scheme_char slash"
  by (simp add: is_scheme_char_def is_letter_def slash_def less_eq_char_def)

lemma dropWhile_slash:
  "slash \<notin> set p \<Longrightarrow>
   (case dropWhile is_scheme_char (p @ slash # t) of d # _ \<Rightarrow> d = CHR '':'' | [] \<Rightarrow> False) =
   (case dropWhile is_scheme_char p of d # _ \<Rightarrow> d = CHR '':'' | [] \<Rightarrow> False)"
proof (induction p)
  case Nil
  have "slash \<noteq> CHR '':''" by (simp add: slash_def)
  then show ?case by simp
qed auto

lemma slash_not_letter [simp]: "\<not> is_letter slash"
  by (simp add: is_letter_def slash_def less_eq_char_def)

lemma has_scheme_append: "slash \<notin> set p \<Longrightarrow> has_scheme (p @ slash # t) = has_scheme p"
  by (cases p) (simp_all add: dropWhile_slash)

lemma split_first:
  "s = hd (components s) \<or> (\<exists>t. s = hd (components s) @ slash # t)"
proof -
  obtain p ps where c: "components s = p # ps" by (cases "components s") auto
  have "s = join [slash] (p # ps)" using join_components[of s] c by simp
  then show ?thesis using c by (cases ps) auto
qed

lemma has_scheme_first: "has_scheme s = has_scheme (hd (components s))"
proof -
  have "slash \<notin> set (hd (components s))"
    using split_at_char_pieces[of _ slash s] by (simp add: components_def)
  then show ?thesis using split_first[of s] has_scheme_append by metis
qed

lemma segments_first:
  assumes "raw \<noteq> []" "\<not> prefix [slash] raw" "\<not> prefix ''./'' raw" "raw \<noteq> ''.''"
  shows "segments raw \<noteq> [] \<and> hd (segments raw) = hd (components raw)"
proof -
  obtain p ps where c: "components raw = p # ps" by (cases "components raw") auto
  have "raw = p \<or> (\<exists>t. raw = p @ slash # t)" using split_first[of raw] c by simp
  then have "kept p" using assms by (auto simp: kept_def slash_def)
  then show ?thesis using c by (simp add: segments_def components_def)
qed

lemma normalizePath_no_scheme:
  assumes "normalizePath raw = Path_ok n" and "\<not> prefix ''./'' raw"
  shows "\<not> has_scheme n"
proof -
  note ok = normalizePath_okD[OF assms(1)]
  have "raw \<noteq> ''.''" using ok(2) by (auto simp: segments_def kept_def slash_def)
  then have "hd (components n) = hd (components raw)"
    using segments_first[OF ok(8) ok(6) assms(2)] normalizePath_components[OF assms(1)] by simp
  then show ?thesis using ok(7) has_scheme_first by metis
qed

section \<open>What normalization promises\<close>

text \<open>
  An accepted path is in normal form and its components are exactly the
  non-empty, non-dot segments of the raw text, in order; and unless the raw text starts
  with a dot segment, normalizing the result again changes nothing.
\<close>

theorem normalizePath_sound:
  assumes "normalizePath raw = Path_ok n"
  shows "normal_form n \<and> components n = segments raw \<and>
    (\<not> prefix ''./'' raw \<longrightarrow> normalizePath n = Path_ok n)"
  using assms
  by (simp add: normalizePath_normal_form normalizePath_components normalizePath_no_scheme
      normalizePath_normal)

text \<open>Evaluation at a concrete path.\<close>

lemma normalizePath_example: "normalizePath ''docs//./a.md'' = Path_ok ''docs/a.md''"
  by code_simp

lemma normalizePath_sound_witness:
  "normal_form ''docs/a.md'' \<and> components ''docs/a.md'' = segments ''docs//./a.md'' \<and>
   normalizePath ''docs/a.md'' = Path_ok ''docs/a.md''"
  using normalizePath_sound[OF normalizePath_example] by simp

text \<open>
  Normalization is not idempotent on every accepted path: a leading dot segment
  hides a scheme from the scheme test, and the normalized result is then a scheme-qualified
  path that normalization itself refuses.
\<close>

theorem normalizePath_scheme_escapes:
  "normalizePath ''./a:b'' = Path_ok ''a:b'' \<and>
   normalizePath ''a:b'' = Path_bad ''scheme-qualified path''"
  by code_simp

section \<open>The component-wise prefix\<close>

lemma prefix_slash_iff:
  assumes "ps \<noteq> []" "qs \<noteq> []" "\<forall>p \<in> set ps. slash \<notin> set p" "\<forall>q \<in> set qs. slash \<notin> set q"
  shows "prefix (join [slash] ps @ [slash]) (join [slash] qs) \<longleftrightarrow> strict_prefix ps qs"
proof
  assume "prefix (join [slash] ps @ [slash]) (join [slash] qs)"
  then obtain t where t: "join [slash] qs = join [slash] ps @ slash # t" by (auto simp: prefix_def)
  have "join [slash] qs = join [slash] (ps @ components t)"
    using t join_append[OF assms(1) components_nonempty, of "[slash]" t] by simp
  moreover have "\<forall>q \<in> set (components t). slash \<notin> set q"
    using split_at_char_pieces by (auto simp: components_def)
  ultimately have "qs = ps @ components t"
    using assms components_join[of qs] components_join[of "ps @ components t"] by auto
  then show "strict_prefix ps qs" by (metis components_nonempty strict_prefixI' append_Cons neq_Nil_conv)
next
  assume "strict_prefix ps qs"
  then obtain rs where "qs = ps @ rs" "rs \<noteq> []" by (auto simp: strict_prefix_def prefix_def)
  then have "join [slash] qs = join [slash] ps @ [slash] @ join [slash] rs"
    using join_append[OF assms(1)] by simp
  then show "prefix (join [slash] ps @ [slash]) (join [slash] qs)" by (simp add: prefix_def)
qed

text \<open>
  The textual prefix test is the prefix order on the component lists: a root
  covers a path exactly when the root's components are an initial part of the path's, so a
  sibling that shares only characters is never covered.
\<close>

theorem isPathPrefix_components:
  "isPathPrefix root path \<longleftrightarrow> prefix (components root) (components path)"
proof -
  have free: "\<forall>p \<in> set (components s). slash \<notin> set p" for s
    using split_at_char_pieces by (auto simp: components_def)
  have "prefix (root @ [slash]) path \<longleftrightarrow> strict_prefix (components root) (components path)"
    using prefix_slash_iff[OF _ _ free free, of root path] by simp
  then show ?thesis
    by (auto simp: isPathPrefix_def strict_prefix_def components_inj)
qed

lemma isPathPrefix_refl [simp]: "isPathPrefix p p"
  by (simp add: isPathPrefix_def)

lemma isPathPrefix_trans: "isPathPrefix p q \<Longrightarrow> isPathPrefix q r \<Longrightarrow> isPathPrefix p r"
  unfolding isPathPrefix_def by (auto simp: prefix_def)

lemma isPathPrefix_not_sibling: "\<not> isPathPrefix ''docs'' ''docs-2/a.md''"
  by code_simp

end
