(* ===== verification/Authority.thy ===== *)
theory Authority
  imports Paths
begin

text \<open>
  Captured authority: \<^verbatim>\<open>packages/runner-core/src/authority/\<close> (the input values, the digest-bound
  capture, the snapshot set, the base-identity comparison), the bound comparison of
  \<^verbatim>\<open>policy/bounds.ts\<close>, the digest of \<^verbatim>\<open>primitives/digest.ts\<close> and the gate identity of
  \<^verbatim>\<open>packages/contracts/src/primitives/gate-id.ts\<close>.

  Parameters: \<open>sha256\<close>, the hex digest of the platform's hash; \<open>parse\<close>, \<^verbatim>\<open>JSON.parse\<close> with the
  text of the error it throws; the contract schema a source is declared to satisfy, an
  argument of the code itself.
\<close>

section \<open>Digests\<close>

definition digestOf :: "(string \<Rightarrow> string) \<Rightarrow> string \<Rightarrow> string" where
  "digestOf sha256 content = template [''sha256:'', sha256 content]"

lemma digestOf_inj: "digestOf sha a = digestOf sha b \<longleftrightarrow> sha a = sha b"
  by (simp add: digestOf_def template_def)

section \<open>Bounds\<close>

record InBounds =
  ib_bound :: string
  ib_measured :: js_number
  ib_declared :: js_number

definition enforceBound :: "string \<Rightarrow> js_number \<Rightarrow> js_number \<Rightarrow> InBounds Decision" where
  "enforceBound bound measured declared =
    (if \<not> js_finite measured \<or> \<not> js_finite declared then
       refuse undecidable (element_observed bound (js_string measured))
         ''bound comparison over a non-finite value cannot be established''
     else if js_gt measured declared then
       refuse over_bound (element_observed bound (js_string measured))
         (template [''measured '', js_string measured, '' exceeds the declared bound '',
                    js_string declared])
     else proceed \<lparr>ib_bound = bound, ib_measured = measured, ib_declared = declared\<rparr>)"

text \<open>
  The bound comparison proceeds exactly for two finite numbers of which the measured one is at most
  the declared one (a value equal to its bound proceeds); every comparison it cannot establish
  refuses.
\<close>

theorem enforceBound_exact:
  "proceeds (enforceBound b m d) \<longleftrightarrow> (\<exists>x y. m = Num x \<and> d = Num y \<and> x \<le> y)"
  by (cases m; cases d) (auto simp: enforceBound_def)

section \<open>Gate identities\<close>

definition is_lower :: "char \<Rightarrow> bool" where
  "is_lower c \<longleftrightarrow> CHR ''a'' \<le> c \<and> c \<le> CHR ''z''"

definition is_digit :: "char \<Rightarrow> bool" where
  "is_digit c \<longleftrightarrow> CHR ''0'' \<le> c \<and> c \<le> CHR ''9''"

text \<open>The expression \<^verbatim>\<open>/^[a-z][a-z0-9_-]{0,63}$/\<close>.\<close>

fun GateId :: "string \<Rightarrow> bool" where
  "GateId [] = False"
| "GateId (c # cs) =
     (is_lower c \<and> length cs \<le> 63 \<and>
      list_all (\<lambda>d. is_lower d \<or> is_digit d \<or> d \<in> set ''_-'') cs)"

section \<open>Authority bytes\<close>

text \<open>
  What the orchestrator hands over for one source: the bytes or a reported failure. The third
  case is an untyped value whose shape the guard of \<^verbatim>\<open>captureAuthority\<close> does not establish.
\<close>

datatype AuthorityBytes =
    Bytes_ok (ab_source: string) (ab_bytes: string)
  | Bytes_failed (ab_source: string) (ab_failure: string)
  | Bytes_unestablished

text \<open>A parsed JSON document.\<close>

datatype json =
    JNull
  | JBool bool
  | JNum js_number
  | JStr string
  | JArr "json list"
  | JObj "(string \<times> json) list"

text \<open>\<^verbatim>\<open>String(v)\<close>: an array joins its elements with commas, \<^verbatim>\<open>null\<close> elements printing empty.\<close>

fun js_to_string :: "json \<Rightarrow> string" where
  "js_to_string JNull = ''null''"
| "js_to_string (JBool b) = (if b then ''true'' else ''false'')"
| "js_to_string (JNum n) = js_string n"
| "js_to_string (JStr s) = s"
| "js_to_string (JArr xs) =
     join '','' (map (\<lambda>x. if x = JNull then '''' else js_to_string x) xs)"
| "js_to_string (JObj _) = ''[object Object]''"

text \<open>A member of an object; members the parser met twice are already collapsed.\<close>

fun member_of :: "string \<Rightarrow> json \<Rightarrow> json option" where
  "member_of key (JObj ms) = map_of ms key"
| "member_of key _ = None"

record Issue =
  is_path :: "string list"
  is_message :: string

text \<open>\<^verbatim>\<open>issues.map((issue) => `${path.join('.')}: ${message}`).join('; ')\<close>\<close>

definition issues_text :: "Issue list \<Rightarrow> string" where
  "issues_text issues =
     join ''; '' (map (\<lambda>i. template [join ''.'' (is_path i), '': '', is_message i]) issues)"

datatype 'a schema_result = Schema_ok 'a | Schema_issues "Issue list"

text \<open>Every authority document carries its own contract identity.\<close>

record 'd ContractDocument =
  cd_contract_id :: string
  cd_contract_version :: string
  cd_body :: 'd

record 'd ExpectedContract =
  ec_contract_id :: string
  ec_schema :: "json \<Rightarrow> 'd ContractDocument schema_result"

record CapturedIdentity =
  ci_contract_id :: string
  ci_contract_version :: string
  ci_digest :: string

record 'd Captured =
  cp_source :: string
  cp_digest :: string
  cp_contract :: CapturedIdentity
  cp_value :: "'d ContractDocument"

datatype 'd CapturedAuthority =
    Captured_ok "'d Captured"
  | Captured_refused string Refusal

datatype parse_result = Parsed json | Parse_error string

section \<open>Capture\<close>

text \<open>The contract id the bytes carry, \<^verbatim>\<open>(none)\<close> when there is no such member.\<close>

definition observed_contract_id :: "json \<Rightarrow> string" where
  "observed_contract_id doc =
     (case member_of ''contract_id'' doc of Some v \<Rightarrow> js_to_string v | None \<Rightarrow> ''(none)'')"

text \<open>The result is a capture, or (on the right) the reported fault of the acquisition.\<close>

definition captured :: "string \<Rightarrow> string \<Rightarrow> 'd ContractDocument \<Rightarrow> 'd Captured" where
  "captured source digest doc =
     \<lparr>cp_source = source, cp_digest = digest,
      cp_contract = \<lparr>ci_contract_id = cd_contract_id doc,
                     ci_contract_version = cd_contract_version doc, ci_digest = digest\<rparr>,
      cp_value = doc\<rparr>"

fun captureAuthority ::
  "(string \<Rightarrow> string) \<Rightarrow> (string \<Rightarrow> parse_result) \<Rightarrow> AuthorityBytes \<Rightarrow> 'd ExpectedContract \<Rightarrow>
   'd CapturedAuthority + string \<times> string" where
  "captureAuthority sha256 parse Bytes_unestablished expected =
     Inl (Captured_refused ''(unestablished)''
       (refusal undecidable (element ''authority input'')
         ''the authority input value shape cannot be established''))"
| "captureAuthority sha256 parse (Bytes_failed source failure) expected =
     Inr (source, template [''acquisition reported failed: '', failure])"
| "captureAuthority sha256 parse (Bytes_ok source bytes) expected =
     (let digest = digestOf sha256 bytes in
      case parse bytes of
        Parse_error message \<Rightarrow>
          Inl (Captured_refused source
            (refusal invalid_authority (element source)
              (template [''authority bytes are not JSON: '', message])))
      | Parsed doc \<Rightarrow>
          let observedId = observed_contract_id doc in
          if observedId \<noteq> ec_contract_id expected then
            Inl (Captured_refused source
              (refusal contract_mismatch (element_observed source observedId)
                (template [''source declares contract '', quoted (ec_contract_id expected),
                           '' but bytes carry '', quoted observedId])))
          else
            case ec_schema expected doc of
              Schema_issues issues \<Rightarrow>
                Inl (Captured_refused source
                  (refusal invalid_authority (element source)
                    (template [''authority bytes fail contract validation for '',
                               quoted (ec_contract_id expected), '': '', issues_text issues])))
            | Schema_ok value \<Rightarrow> Inl (Captured_ok (captured source digest value)))"

lemma captured_simps [simp]:
  "cp_source (captured s d v) = s"
  "cp_digest (captured s d v) = d"
  "cp_contract (captured s d v) =
     \<lparr>ci_contract_id = cd_contract_id v, ci_contract_version = cd_contract_version v, ci_digest = d\<rparr>"
  "cp_value (captured s d v) = v"
  by (simp_all add: captured_def)

text \<open>
  A capture is exactly the digest-bound record of bytes that satisfy the contract the
  source declares: it succeeds with \<open>c\<close> if and only if the bytes were acquired, parse, carry the
  declared contract id and pass the declared schema, and then the source, the digest of those
  very bytes, the contract identity and the value of \<open>c\<close> are the ones derived from them.
\<close>

theorem captureAuthority_ok_iff:
  "captureAuthority sha parse input expected = Inl (Captured_ok c) \<longleftrightarrow>
   (\<exists>source bytes doc value.
      input = Bytes_ok source bytes \<and> parse bytes = Parsed doc \<and>
      observed_contract_id doc = ec_contract_id expected \<and>
      ec_schema expected doc = Schema_ok value \<and>
      c = captured source (digestOf sha bytes) value)"
  by (cases input) (auto simp: Let_def split: parse_result.splits schema_result.splits if_splits)

text \<open>
  A reported acquisition failure is an operational failure and nothing else is one:
  it never becomes a snapshot or a refusal, and no refusal of the bytes is reported as a fault.
\<close>

theorem captureAuthority_fault_iff:
  "captureAuthority sha parse input expected = Inr (source, detail) \<longleftrightarrow>
   (\<exists>failure. input = Bytes_failed source failure \<and>
      detail = template [''acquisition reported failed: '', failure])"
  by (cases input) (auto simp: Let_def split: parse_result.splits schema_result.splits)

lemma captureAuthority_digest:
  "captureAuthority sha parse (Bytes_ok s b) expected = Inl (Captured_ok c) \<Longrightarrow>
   cp_digest c = digestOf sha b \<and> ci_digest (cp_contract c) = digestOf sha b \<and> cp_source c = s"
  by (auto simp: Let_def split: parse_result.splits schema_result.splits if_splits)

section \<open>Snapshots as untyped callers as_supplied them\<close>

text \<open>
  A snapshot as the fail-closed decisions see it: absent, \<^verbatim>\<open>null\<close>, not an object, or an
  object whose \<^verbatim>\<open>ok\<close> flag is neither \<^verbatim>\<open>true\<close> nor \<^verbatim>\<open>false\<close>, is \<^verbatim>\<open>false\<close> (then the reported refusal
  counts), or is \<^verbatim>\<open>true\<close> (then the digest, the contract identity and the value do; the value
  is \<open>None\<close> when it does not have the shape of the document).
\<close>

record 'd established =
  es_digest :: "string option"
  es_source :: string
  es_contract :: CapturedIdentity
  es_value :: "'d option"

datatype 'd supplied =
    Undefined
  | Null
  | Not_object
  | Ok_neither
  | Ok_false unknown_refusal
  | Ok_true "'d established"

definition established_of :: "'d Captured \<Rightarrow> 'd established" where
  "established_of c =
     \<lparr>es_digest = Some (cp_digest c), es_source = cp_source c, es_contract = cp_contract c,
      es_value = Some (cd_body (cp_value c))\<rparr>"

text \<open>What a well-typed capture is for those decisions.\<close>

fun as_supplied :: "'d CapturedAuthority \<Rightarrow> 'd supplied" where
  "as_supplied (Captured_ok c) = Ok_true (established_of c)"
| "as_supplied (Captured_refused source r) = Ok_false (reported r)"

section \<open>The base identity\<close>

text \<open>The pinned identity may be missing: an untyped caller's value is no string then.\<close>

definition compareBaseIdentity :: "string option \<Rightarrow> string \<Rightarrow> string Decision" where
  "compareBaseIdentity pinned observed =
     (case pinned of
        None \<Rightarrow>
          refuse undecidable (element ''pinned base identity'')
            (template [''no pinned base identity was supplied '', em_dash,
                       '' the comparison cannot be established''])
      | Some p \<Rightarrow>
          if length p = 0 then
            refuse undecidable (element ''pinned base identity'')
              (template [''no pinned base identity was supplied '', em_dash,
                         '' the comparison cannot be established''])
          else if p \<noteq> observed then
            refuse base_identity_mismatch (element_observed p observed)
              (template [''the observed base identity does not match the pinned identity '',
                         em_dash, '' the workspace is not the declared base''])
          else proceed p)"

text \<open>
  The base comparison proceeds only with the pinned identity itself, present,
  non-empty and equal to the observed one.
\<close>

theorem compareBaseIdentity_exact:
  "compareBaseIdentity pinned observed = Proceed d \<longleftrightarrow>
   pinned = Some observed \<and> observed \<noteq> '''' \<and> d = observed"
  by (auto simp: compareBaseIdentity_def split: option.splits)

end
