(* ===== verification/Workspace.thy ===== *)
theory Workspace
  imports Authority
begin

text \<open>
  Host observations and the authoritative change set:
  \<^verbatim>\<open>packages/runner-core/src/workspace/values.ts\<close> and \<^verbatim>\<open>derive.ts\<close>. The change set is derived from
  the observation alone; a change whose path cannot be normalized refuses the whole set.
\<close>

section \<open>Values\<close>

datatype ChangeKind = Created | Modified | Deleted

record ObservedChange =
  oc_path :: string
  oc_kind :: ChangeKind
  oc_bytes :: js_number
  oc_link_target :: "string option"

text \<open>The third case is a successful observation of an untyped caller without a change list.\<close>

datatype WorkspaceObservation =
    Observed_changes "ObservedChange list"
  | Observation_failed string
  | Observation_without_changes

record ObservedArtifact =
  oa_path :: string
  oa_content :: string

datatype ArtifactObservation =
    Observed_artifacts "ObservedArtifact list"
  | Artifacts_failed string

section \<open>Normalizing in order\<close>

text \<open>
  The loops that normalize a list of texts, or the paths of a list of changes, stop at the
  first that cannot be normalized and report it with the reason.
\<close>

fun normalize_all :: "string list \<Rightarrow> (string \<times> string) + string list" where
  "normalize_all [] = Inr []"
| "normalize_all (raw # raws) =
     (case normalizePath raw of
        Path_bad reason \<Rightarrow> Inl (raw, reason)
      | Path_ok n \<Rightarrow>
          (case normalize_all raws of Inl bad \<Rightarrow> Inl bad | Inr ns \<Rightarrow> Inr (n # ns)))"

fun normalize_changes :: "ObservedChange list \<Rightarrow> (string \<times> string) + ObservedChange list" where
  "normalize_changes [] = Inr []"
| "normalize_changes (c # cs) =
     (case normalizePath (oc_path c) of
        Path_bad reason \<Rightarrow> Inl (oc_path c, reason)
      | Path_ok n \<Rightarrow>
          (case normalize_changes cs of
             Inl bad \<Rightarrow> Inl bad
           | Inr ns \<Rightarrow> Inr (c\<lparr>oc_path := n\<rparr> # ns)))"

text \<open>The normal form of a path that has one, and the change with it.\<close>

definition normal_path :: "string \<Rightarrow> string" where
  "normal_path raw = (case normalizePath raw of Path_ok n \<Rightarrow> n | Path_bad _ \<Rightarrow> raw)"

definition normalizable :: "string \<Rightarrow> bool" where
  "normalizable raw \<longleftrightarrow> (case normalizePath raw of Path_ok _ \<Rightarrow> True | Path_bad _ \<Rightarrow> False)"

definition with_normal_path :: "ObservedChange \<Rightarrow> ObservedChange" where
  "with_normal_path c = c\<lparr>oc_path := normal_path (oc_path c)\<rparr>"

lemma with_normal_path_simps [simp]:
  "oc_path (with_normal_path c) = normal_path (oc_path c)"
  "oc_kind (with_normal_path c) = oc_kind c"
  "oc_bytes (with_normal_path c) = oc_bytes c"
  "oc_link_target (with_normal_path c) = oc_link_target c"
  by (simp_all add: with_normal_path_def)

lemma normalizable_ok: "normalizable raw \<Longrightarrow> normalizePath raw = Path_ok (normal_path raw)"
  by (auto simp: normalizable_def normal_path_def split: NormalizedPath.splits)

lemma normalizable_okI [intro]: "normalizePath raw = Path_ok n \<Longrightarrow> normalizable raw"
  by (simp add: normalizable_def)

lemma normalize_all_ok:
  "\<forall>raw \<in> set raws. normalizable raw \<Longrightarrow> normalize_all raws = Inr (map normal_path raws)"
  by (induction raws) (auto simp: normalizable_ok)

lemma normalize_changes_ok:
  "\<forall>c \<in> set cs. normalizable (oc_path c) \<Longrightarrow>
   normalize_changes cs = Inr (map with_normal_path cs)"
  by (induction cs) (auto simp: normalizable_ok with_normal_path_def)

lemma normalize_all_normalizable:
  "normalize_all raws = Inr ns \<Longrightarrow> raw \<in> set raws \<Longrightarrow> normalizable raw"
  by (induction raws arbitrary: ns) (auto split: NormalizedPath.splits sum.splits)

lemma normalize_changes_normalizable:
  "normalize_changes cs = Inr ns \<Longrightarrow> c \<in> set cs \<Longrightarrow> normalizable (oc_path c)"
  by (induction cs arbitrary: ns) (auto split: NormalizedPath.splits sum.splits)

lemma normalize_all_iff:
  "normalize_all raws = Inr ns \<longleftrightarrow> (\<forall>raw \<in> set raws. normalizable raw) \<and> ns = map normal_path raws"
  using normalize_all_ok[of raws] normalize_all_normalizable[of raws] by fastforce

lemma normalize_changes_iff:
  "normalize_changes cs = Inr ns \<longleftrightarrow>
   (\<forall>c \<in> set cs. normalizable (oc_path c)) \<and> ns = map with_normal_path cs"
  using normalize_changes_ok[of cs] normalize_changes_normalizable[of cs] by fastforce

lemma normalize_all_Inl:
  "normalize_all raws = Inl (raw, reason) \<Longrightarrow>
   raw \<in> set raws \<and> normalizePath raw = Path_bad reason"
  by (induction raws) (auto split: NormalizedPath.splits sum.splits)

lemma normalize_changes_Inl:
  "normalize_changes cs = Inl (raw, reason) \<Longrightarrow>
   raw \<in> oc_path ` set cs \<and> normalizePath raw = Path_bad reason"
  by (induction cs) (auto split: NormalizedPath.splits sum.splits)

lemma normalizable_normal_form: "normalizable raw \<Longrightarrow> normal_form (normal_path raw)"
  by (auto simp: normalizable_def normal_path_def split: NormalizedPath.splits
      intro: normalizePath_normal_form)

section \<open>The authoritative change set\<close>

definition deriveAuthoritativeChangeSet ::
  "WorkspaceObservation \<Rightarrow> ObservedChange list ObservedDecision" where
  "deriveAuthoritativeChangeSet observation =
     (case observation of
        Observation_failed failure \<Rightarrow>
          operationalFailure ''workspace''
            (template [''observation reported failed: '', failure])
      | Observation_without_changes \<Rightarrow>
          Decided (refuse undecidable (element ''workspace observation'')
            ''the observation value shape cannot be established'')
      | Observed_changes observedChanges \<Rightarrow>
          (case normalize_changes observedChanges of
             Inl (path, reason) \<Rightarrow>
               Decided (refuse path_undecidable (element path)
                 (template [''observed path cannot be normalized: '', reason]))
           | Inr normalized \<Rightarrow> Decided (proceed (canonicalSort oc_path normalized))))"

lemma derive_proceed_iff:
  "deriveAuthoritativeChangeSet obs = Decided (Proceed cs) \<longleftrightarrow>
   (\<exists>changes. obs = Observed_changes changes \<and> (\<forall>c \<in> set changes. normalizable (oc_path c)) \<and>
      cs = canonicalSort oc_path (map with_normal_path changes))"
proof (cases obs)
  case (Observed_changes changes)
  show ?thesis
  proof (cases "normalize_changes changes")
    case (Inl bad)
    then show ?thesis
      using Observed_changes normalize_changes_ok[of changes]
      by (cases bad) (auto simp: deriveAuthoritativeChangeSet_def)
  next
    case (Inr ns)
    then show ?thesis
      using Observed_changes normalize_changes_iff[of changes ns]
      by (auto simp: deriveAuthoritativeChangeSet_def)
  qed
qed (simp_all add: deriveAuthoritativeChangeSet_def)

text \<open>
  A derived change set holds exactly the observed changes, each with its path
  brought to normal form and every other field as observed, nothing dropped, merged or added
  (equality of multisets), in the order of the paths.
\<close>

theorem derive_exactly_observed:
  assumes "deriveAuthoritativeChangeSet (Observed_changes changes) = Decided (Proceed cs)"
  shows "mset cs = mset (map with_normal_path changes) \<and> sorted (map oc_path cs) \<and>
    (\<forall>c \<in> set cs. normal_form (oc_path c))"
  using assms by (auto simp: derive_proceed_iff normalizable_normal_form)

definition change_at :: "string \<Rightarrow> ObservedChange" where
  "change_at path =
     \<lparr>oc_path = path, oc_kind = Modified, oc_bytes = Num 3, oc_link_target = None\<rparr>"

lemma derive_exactly_observed_witness:
  "mset [change_at ''a/b'', change_at ''c''] =
     mset (map with_normal_path [change_at ''./c'', change_at ''a//b'']) \<and>
   sorted (map oc_path [change_at ''a/b'', change_at ''c'']) \<and>
   normal_form (oc_path (change_at ''a/b'')) \<and> normal_form (oc_path (change_at ''c''))"
proof -
  have "deriveAuthoritativeChangeSet (Observed_changes [change_at ''./c'', change_at ''a//b'']) =
    Decided (Proceed [change_at ''a/b'', change_at ''c''])"
    by code_simp
  from derive_exactly_observed[OF this] show ?thesis by (simp only: list.set insert_iff empty_iff) blast
qed

text \<open>
  The derived set does not depend on the order in which the host presents the
  changes, as long as it reports one change per path.
\<close>

theorem derive_order_independent:
  assumes "mset xs = mset ys" and "inj_on (normal_path \<circ> oc_path) (set xs)"
    and "\<forall>c \<in> set xs. normalizable (oc_path c)"
  shows "deriveAuthoritativeChangeSet (Observed_changes xs) =
    deriveAuthoritativeChangeSet (Observed_changes ys)"
proof -
  have "set ys = set xs" using mset_eq_setD[OF assms(1)] by simp
  moreover have "canonicalSort oc_path (map with_normal_path xs) =
      canonicalSort oc_path (map with_normal_path ys)"
    by (rule canonicalSort_perm) (use assms in \<open>auto simp: inj_on_def\<close>)
  ultimately have "deriveAuthoritativeChangeSet (Observed_changes ys) =
      Decided (Proceed (canonicalSort oc_path (map with_normal_path xs)))"
    using assms(3) by (auto simp: derive_proceed_iff)
  moreover have "deriveAuthoritativeChangeSet (Observed_changes xs) =
      Decided (Proceed (canonicalSort oc_path (map with_normal_path xs)))"
    using assms(3) by (auto simp: derive_proceed_iff)
  ultimately show ?thesis by simp
qed

lemma derive_order_independent_witness:
  "deriveAuthoritativeChangeSet (Observed_changes [change_at ''./c'', change_at ''a//b'']) =
   deriveAuthoritativeChangeSet (Observed_changes [change_at ''a//b'', change_at ''./c''])"
  by (rule derive_order_independent) (simp_all, (code_simp; fail)+)

end
