(* ===== verification/Materialize.thy ===== *)
theory Materialize
  imports Workspace
begin

text \<open>
  Materialization eligibility over the observed change set:
  \<^verbatim>\<open>packages/runner-core/src/policy/materialize.ts\<close>, with the path-policy document of
  \<^verbatim>\<open>packages/contracts/src/path-policy/path-policy.ts\<close> it decides from. The precedence of the
  refusals is the order of the checks: shape, rules, sources, roots, normalization, links,
  protection, roots, bounds.
\<close>

section \<open>The policy document\<close>

record ProhibitedPathRule =
  pr_kind :: string
  pr_prefix :: string

record PathPolicy =
  pp_allowed_write_roots :: "string list"
  pp_prohibited_rules :: "ProhibitedPathRule list"
  pp_max_files :: js_number
  pp_max_total_bytes :: js_number
  pp_max_file_bytes :: js_number

definition IMPLEMENTED_RULE_KINDS :: "string list" where
  "IMPLEMENTED_RULE_KINDS = [''path_prefix'']"

record Materializable =
  mt_changes :: "ObservedChange list"
  mt_bounds_checked :: "string list"

section \<open>The checks\<close>

definition unimplemented_rule :: "PathPolicy \<Rightarrow> ProhibitedPathRule option" where
  "unimplemented_rule doc =
     find (\<lambda>rule. pr_kind rule \<notin> set IMPLEMENTED_RULE_KINDS) (pp_prohibited_rules doc)"

text \<open>
  The map from the path of a change to its effective path, its link target when it is
  reached through a link. It is keyed by path: a later change of the same path overwrites an
  earlier one.
\<close>

fun effective_paths ::
  "ObservedChange list \<Rightarrow> (string \<rightharpoonup> string) \<Rightarrow> Refusal + (string \<rightharpoonup> string)" where
  "effective_paths [] m = Inr m"
| "effective_paths (change # changes) m =
     (case oc_link_target change of
        None \<Rightarrow> effective_paths changes (m(oc_path change \<mapsto> oc_path change))
      | Some link_target \<Rightarrow>
          (case normalizePath link_target of
             Path_bad reason \<Rightarrow>
               Inl (refusal path_undecidable (element_observed (oc_path change) link_target)
                 (template [''path is reached through a link whose reported target cannot be normalized: '',
                            reason]))
           | Path_ok target \<Rightarrow> effective_paths changes (m(oc_path change \<mapsto> target))))"

definition effectiveOf :: "(string \<rightharpoonup> string) \<Rightarrow> string \<Rightarrow> string" where
  "effectiveOf m path = (case m path of Some target \<Rightarrow> target | None \<Rightarrow> path)"

definition covered :: "string list \<Rightarrow> string \<Rightarrow> bool" where
  "covered roots path = list_ex (\<lambda>root. isPathPrefix root path) roots"

definition protection_detail :: "string \<Rightarrow> bool \<Rightarrow> string" where
  "protection_detail protection admittedByRoot =
     (if admittedByRoot then
        template [''change touches protected governing material (rule '', quoted protection,
          '') '', em_dash, '' protection outranks the allowed write root that would otherwise admit it; the whole change set refuses'']
      else
        template [''change touches protected governing material (rule '', quoted protection,
          ''); the whole change set refuses''])"

fun check_protection ::
  "string list \<Rightarrow> string list \<Rightarrow> (string \<Rightarrow> string) \<Rightarrow> ObservedChange list \<Rightarrow> Refusal option" where
  "check_protection protectedPrefixes roots eff [] = None"
| "check_protection protectedPrefixes roots eff (change # changes) =
     (let effective = eff (oc_path change) in
      case find (\<lambda>p. isPathPrefix p (oc_path change) \<or> isPathPrefix p effective) protectedPrefixes of
        Some protection \<Rightarrow>
          Some (refusal protected_path (element_observed (oc_path change) protection)
            (protection_detail protection (covered roots (oc_path change))))
      | None \<Rightarrow> check_protection protectedPrefixes roots eff changes)"

fun check_roots ::
  "string list \<Rightarrow> (string \<Rightarrow> string) \<Rightarrow> ObservedChange list \<Rightarrow> Refusal option" where
  "check_roots roots eff [] = None"
| "check_roots roots eff (change # changes) =
     (if \<not> covered roots (oc_path change) then
        Some (refusal path_outside_roots (element (oc_path change))
          ''path resolves under no declared allowed write root'')
      else
        let effective = eff (oc_path change) in
        if effective \<noteq> oc_path change \<and> \<not> covered roots effective then
          Some (refusal path_outside_roots (element_observed (oc_path change) effective)
            (template [''path is reached through a link whose target '', quoted effective,
              '' resolves outside every declared allowed write root'']))
        else check_roots roots eff changes)"

text \<open>The per-file bound, and the total the loop accumulates when no file exceeds it.\<close>

fun check_file_bytes :: "js_number \<Rightarrow> js_number \<Rightarrow> ObservedChange list \<Rightarrow> Refusal + js_number" where
  "check_file_bytes max_file_bytes totalBytes [] = Inr totalBytes"
| "check_file_bytes max_file_bytes totalBytes (change # changes) =
     (if js_gt (oc_bytes change) max_file_bytes then
        Inl (refusal over_bound (element_observed ''max_file_bytes'' (js_string (oc_bytes change)))
          (template [quoted (oc_path change), '' carries '', js_string (oc_bytes change),
            '' bytes against a declared per-file bound of '', js_string max_file_bytes]))
      else check_file_bytes max_file_bytes (js_plus totalBytes (oc_bytes change)) changes)"

definition check_bounds :: "PathPolicy \<Rightarrow> ObservedChange list \<Rightarrow> Refusal option" where
  "check_bounds doc changes =
     (let fileCount = Num (int (length changes)) in
      if js_gt fileCount (pp_max_files doc) then
        Some (refusal over_bound (element_observed ''max_files'' (js_string fileCount))
          (template [''change set carries '', js_string fileCount,
            '' files against a declared bound of '', js_string (pp_max_files doc)]))
      else
        (case check_file_bytes (pp_max_file_bytes doc) (Num 0) changes of
           Inl r \<Rightarrow> Some r
         | Inr totalBytes \<Rightarrow>
             if js_gt totalBytes (pp_max_total_bytes doc) then
               Some (refusal over_bound
                 (element_observed ''max_total_bytes'' (js_string totalBytes))
                 (template [''change set carries '', js_string totalBytes,
                   '' bytes against a declared total bound of '', js_string (pp_max_total_bytes doc)]))
             else None))"

text \<open>Protection, then roots, then bounds, over the normalized changes.\<close>

definition decide_normalized ::
  "PathPolicy \<Rightarrow> string list \<Rightarrow> string list \<Rightarrow> ObservedChange list \<Rightarrow> Materializable Decision" where
  "decide_normalized doc protectedPrefixes roots changes =
     (case effective_paths changes Map.empty of
        Inl r \<Rightarrow> Refused r
      | Inr effectivePaths \<Rightarrow>
          (case check_protection protectedPrefixes roots (effectiveOf effectivePaths) changes of
             Some r \<Rightarrow> Refused r
           | None \<Rightarrow>
               (case check_roots roots (effectiveOf effectivePaths) changes of
                  Some r \<Rightarrow> Refused r
                | None \<Rightarrow>
                    (case check_bounds doc changes of
                       Some r \<Rightarrow> Refused r
                     | None \<Rightarrow>
                         proceed \<lparr>mt_changes = canonicalSort oc_path changes,
                           mt_bounds_checked =
                             [''max_files'', ''max_file_bytes'', ''max_total_bytes'']\<rparr>))))"

text \<open>The decision from an established policy document.\<close>

definition decide_document ::
  "PathPolicy \<Rightarrow> ObservedChange list option \<Rightarrow> string list \<Rightarrow> Materializable Decision" where
  "decide_document doc observed protectedSources =
     (case unimplemented_rule doc of
        Some rule \<Rightarrow>
          refuse unrecognized_rule (element (pr_kind rule))
            (template [''prohibited rule kind is outside the implemented vocabulary '', em_dash,
              '' the whole policy refuses rather than skipping a protection''])
      | None \<Rightarrow>
          (case normalize_all protectedSources of
             Inl (source, reason) \<Rightarrow>
               refuse path_undecidable (element source)
                 (template [''protected authority source cannot be normalized: '', reason, '' '',
                   em_dash, '' an unestablishable protection refuses rather than lapsing''])
           | Inr sources \<Rightarrow>
               (case normalize_all (pp_allowed_write_roots doc) of
                  Inl (root, reason) \<Rightarrow>
                    refuse path_undecidable (element root)
                      (template [''declared write root cannot be normalized: '', reason])
                | Inr roots \<Rightarrow>
                    (case observed of
                       None \<Rightarrow>
                         refuse undecidable (element ''observed change set'')
                           ''the observed change-set value shape cannot be established''
                     | Some observedChanges \<Rightarrow>
                         (case normalize_changes observedChanges of
                            Inl (path, reason) \<Rightarrow>
                              refuse path_undecidable (element path)
                                (template [''path cannot be normalized: '', reason])
                          | Inr changes \<Rightarrow>
                              decide_normalized doc
                                (map pr_prefix (pp_prohibited_rules doc) @ sources)
                                roots changes)))))"

text \<open>
  The operation: the fail-closed reading of the captured policy first. The observed change
  set is \<open>None\<close> when it is not one (an untyped caller).
\<close>

definition decideMaterialization ::
  "PathPolicy supplied \<Rightarrow> ObservedChange list option \<Rightarrow> string list \<Rightarrow> Materializable Decision" where
  "decideMaterialization policy observed protectedSources =
     (if policy \<in> {Undefined, Null, Not_object} then
        refuse missing_authority (element ''path-policy'')
          (template [''no captured path policy '', em_dash,
             '' materialization has no authority to decide from''])
      else
        (case policy of
           Ok_false reported_refusal \<Rightarrow>
             Refused (coerceRefusal reported_refusal ''path-policy'')
         | Ok_true policy_view \<Rightarrow>
             (case es_value policy_view of
                Some doc \<Rightarrow> decide_document doc observed protectedSources
              | None \<Rightarrow>
                  refuse undecidable (element ''path-policy'')
                    ''the captured path-policy value shape cannot be established'')
         | _ \<Rightarrow>
             refuse undecidable (element ''path-policy'')
               ''the captured path-policy value shape cannot be established''))"

section \<open>What each check decides\<close>

lemma check_protection_None:
  "check_protection prots roots eff cs = None \<longleftrightarrow>
   (\<forall>c \<in> set cs. \<not> covered prots (oc_path c) \<and> \<not> covered prots (eff (oc_path c)))"
proof (induction cs)
  case (Cons c cs)
  let ?hit = "\<lambda>p. isPathPrefix p (oc_path c) \<or> isPathPrefix p (eff (oc_path c))"
  have "find ?hit prots = None \<longleftrightarrow>
      \<not> covered prots (oc_path c) \<and> \<not> covered prots (eff (oc_path c))"
    by (auto simp: find_None_iff covered_def list_ex_iff)
  with Cons show ?case by (cases "find ?hit prots") auto
qed simp

lemma check_protection_code:
  "check_protection prots roots eff cs = Some r \<Longrightarrow>
   rf_code r = protected_path \<and>
   (\<exists>c \<in> set cs. \<exists>p \<in> set prots. rf_violated r = Some (element_observed (oc_path c) p) \<and>
      (isPathPrefix p (oc_path c) \<or> isPathPrefix p (eff (oc_path c))))"
proof (induction cs)
  case (Cons c cs)
  show ?case
  proof (cases "find (\<lambda>p. isPathPrefix p (oc_path c) \<or> isPathPrefix p (eff (oc_path c))) prots")
    case None
    with Cons show ?thesis by auto
  next
    case (Some p)
    then have "p \<in> set prots" "isPathPrefix p (oc_path c) \<or> isPathPrefix p (eff (oc_path c))"
      by (auto simp: find_Some_iff)
    with Some Cons.prems show ?thesis by auto
  qed
qed simp

lemma check_roots_None:
  "check_roots roots eff cs = None \<longleftrightarrow>
   (\<forall>c \<in> set cs. covered roots (oc_path c) \<and> covered roots (eff (oc_path c)))"
  by (induction cs) (auto simp: Let_def)

lemma check_roots_code: "check_roots roots eff cs = Some r \<Longrightarrow> rf_code r = path_outside_roots"
  by (induction cs) (auto simp: Let_def split: if_splits)

definition total_bytes :: "js_number \<Rightarrow> ObservedChange list \<Rightarrow> js_number" where
  "total_bytes start cs = foldl (\<lambda>t c. js_plus t (oc_bytes c)) start cs"

lemma check_file_bytes_Inr:
  "check_file_bytes bound t cs = Inr t' \<longleftrightarrow>
   (\<forall>c \<in> set cs. \<not> js_gt (oc_bytes c) bound) \<and> t' = total_bytes t cs"
  by (induction cs arbitrary: t) (auto simp: total_bytes_def)

lemma check_file_bytes_Inl: "check_file_bytes bound t cs = Inl r \<Longrightarrow> rf_code r = over_bound"
  by (induction cs arbitrary: t) (auto split: if_splits)

text \<open>The bounds a change set keeps.\<close>

definition within_bounds :: "PathPolicy \<Rightarrow> ObservedChange list \<Rightarrow> bool" where
  "within_bounds doc cs \<longleftrightarrow>
     \<not> js_gt (Num (int (length cs))) (pp_max_files doc) \<and>
     (\<forall>c \<in> set cs. \<not> js_gt (oc_bytes c) (pp_max_file_bytes doc)) \<and>
     \<not> js_gt (total_bytes (Num 0) cs) (pp_max_total_bytes doc)"

lemma check_bounds_None: "check_bounds doc cs = None \<longleftrightarrow> within_bounds doc cs"
proof (cases "check_file_bytes (pp_max_file_bytes doc) (Num 0) cs")
  case (Inl r)
  then have "\<not> (\<forall>c \<in> set cs. \<not> js_gt (oc_bytes c) (pp_max_file_bytes doc))"
    using check_file_bytes_Inr[of "pp_max_file_bytes doc" "Num 0" cs "total_bytes (Num 0) cs"] by auto
  with Inl show ?thesis by (auto simp: check_bounds_def within_bounds_def Let_def)
next
  case (Inr t)
  then show ?thesis
    using check_file_bytes_Inr[of "pp_max_file_bytes doc" "Num 0" cs t]
    by (auto simp: check_bounds_def within_bounds_def Let_def)
qed

lemma check_bounds_code: "check_bounds doc cs = Some r \<Longrightarrow> rf_code r = over_bound"
  by (auto simp: check_bounds_def Let_def dest: check_file_bytes_Inl split: if_splits sum.splits)

text \<open>For integer sizes and bounds, the sums and comparisons of the integers.\<close>

lemma total_bytes_Num:
  "\<forall>c \<in> set cs. oc_bytes c = Num (size_of c) \<Longrightarrow>
   total_bytes (Num t) cs = Num (t + sum_list (map size_of cs))"
  by (induction cs arbitrary: t) (auto simp: total_bytes_def)

lemma within_bounds_Num:
  assumes "\<forall>c \<in> set cs. oc_bytes c = Num (size_of c)"
    and "pp_max_files doc = Num f" "pp_max_file_bytes doc = Num b" "pp_max_total_bytes doc = Num t"
  shows "within_bounds doc cs \<longleftrightarrow>
    int (length cs) \<le> f \<and> (\<forall>c \<in> set cs. size_of c \<le> b) \<and> sum_list (map size_of cs) \<le> t"
  using assms total_bytes_Num[OF assms(1), of 0] by (auto simp: within_bounds_def not_less)

section \<open>Effective paths\<close>

definition link_normalizable :: "ObservedChange \<Rightarrow> bool" where
  "link_normalizable c \<longleftrightarrow> (case oc_link_target c of None \<Rightarrow> True | Some t \<Rightarrow> normalizable t)"

text \<open>Where the change really lands: its link target, or its own path.\<close>

definition landing :: "ObservedChange \<Rightarrow> string" where
  "landing c = (case oc_link_target c of None \<Rightarrow> oc_path c | Some t \<Rightarrow> normal_path t)"

definition landings :: "ObservedChange list \<Rightarrow> (string \<rightharpoonup> string) \<Rightarrow> (string \<rightharpoonup> string)" where
  "landings cs m = fold (\<lambda>c m. m(oc_path c \<mapsto> landing c)) cs m"

lemma effective_paths_ok:
  "\<forall>c \<in> set cs. link_normalizable c \<Longrightarrow> effective_paths cs m = Inr (landings cs m)"
  by (induction cs arbitrary: m)
    (auto simp: landings_def landing_def link_normalizable_def normalizable_ok split: option.splits)

lemma effective_paths_normalizable:
  "effective_paths cs m = Inr m' \<Longrightarrow> c \<in> set cs \<Longrightarrow> link_normalizable c"
  by (induction cs arbitrary: m)
    (auto simp: link_normalizable_def split: option.splits NormalizedPath.splits)

lemma effective_paths_code: "effective_paths cs m = Inl r \<Longrightarrow> rf_code r = path_undecidable"
  by (induction cs arbitrary: m) (auto split: option.splits NormalizedPath.splits)

lemma landings_other:
  "path \<notin> oc_path ` set cs \<Longrightarrow> landings cs m path = m path"
  by (induction cs arbitrary: m) (auto simp: landings_def)

lemma landings_distinct:
  "distinct (map oc_path cs) \<Longrightarrow> c \<in> set cs \<Longrightarrow> landings cs m (oc_path c) = Some (landing c)"
proof (induction cs arbitrary: m)
  case (Cons d ds)
  have step: "landings (d # ds) m = landings ds (m(oc_path d \<mapsto> landing d))"
    by (simp add: landings_def)
  show ?case
  proof (cases "c = d")
    case True
    with Cons.prems show ?thesis by (simp add: step landings_other)
  next
    case False
    with Cons show ?thesis by (simp add: step)
  qed
qed simp

lemma effectiveOf_landing:
  "distinct (map oc_path cs) \<Longrightarrow> c \<in> set cs \<Longrightarrow>
   effectiveOf (landings cs m) (oc_path c) = landing c"
  by (simp add: effectiveOf_def landings_distinct)

lemma landings_last:
  assumes "oc_path c \<notin> oc_path ` set ds"
  shows "effectiveOf (landings (bs @ c # ds) m) (oc_path c) = landing c"
proof -
  have "landings (bs @ c # ds) m = landings ds ((landings bs m)(oc_path c \<mapsto> landing c))"
    by (simp add: landings_def)
  with assms show ?thesis by (simp add: effectiveOf_def landings_other)
qed

section \<open>The decision over normalized changes\<close>

lemma decide_normalized_iff:
  "decide_normalized doc prots roots cs = Proceed m \<longleftrightarrow>
   (\<forall>c \<in> set cs. link_normalizable c) \<and>
   (let eff = effectiveOf (landings cs Map.empty) in
    \<forall>c \<in> set cs. \<not> covered prots (oc_path c) \<and> \<not> covered prots (eff (oc_path c)) \<and>
       covered roots (oc_path c) \<and> covered roots (eff (oc_path c))) \<and>
   within_bounds doc cs \<and>
   m = \<lparr>mt_changes = canonicalSort oc_path cs,
        mt_bounds_checked = [''max_files'', ''max_file_bytes'', ''max_total_bytes'']\<rparr>"
proof (cases "effective_paths cs Map.empty")
  case (Inl r)
  then show ?thesis
    using effective_paths_ok[of cs Map.empty] by (auto simp: decide_normalized_def)
next
  case (Inr eff)
  then have links: "\<forall>c \<in> set cs. link_normalizable c"
    using effective_paths_normalizable by blast
  with Inr have "eff = landings cs Map.empty" using effective_paths_ok by fastforce
  with Inr have "decide_normalized doc prots roots cs = Proceed m \<longleftrightarrow>
      check_protection prots roots (effectiveOf (landings cs Map.empty)) cs = None \<and>
      check_roots roots (effectiveOf (landings cs Map.empty)) cs = None \<and>
      check_bounds doc cs = None \<and>
      m = \<lparr>mt_changes = canonicalSort oc_path cs,
           mt_bounds_checked = [''max_files'', ''max_file_bytes'', ''max_total_bytes'']\<rparr>"
    by (auto simp: decide_normalized_def split: option.splits)
  with links show ?thesis
    by (auto simp: Let_def check_protection_None check_roots_None check_bounds_None)
qed

section \<open>What an admission means\<close>

text \<open>
  The declarative admission: every rule is implemented, every path involved can be
  normalized, and each change, both at its own path and where it lands, touches no protected
  prefix and lies under a write root; the whole set keeps the bounds.
\<close>

definition place_ok :: "PathPolicy \<Rightarrow> string list \<Rightarrow> string \<Rightarrow> bool" where
  "place_ok doc sources p \<longleftrightarrow>
     (\<forall>rule \<in> set (pp_prohibited_rules doc). \<not> isPathPrefix (pr_prefix rule) p) \<and>
     (\<forall>source \<in> set sources. \<not> isPathPrefix (normal_path source) p) \<and>
     (\<exists>root \<in> set (pp_allowed_write_roots doc). isPathPrefix (normal_path root) p)"

definition decidable :: "PathPolicy \<Rightarrow> string list \<Rightarrow> ObservedChange list \<Rightarrow> bool" where
  "decidable doc sources changes \<longleftrightarrow>
     (\<forall>rule \<in> set (pp_prohibited_rules doc). pr_kind rule = ''path_prefix'') \<and>
     (\<forall>source \<in> set sources. normalizable source) \<and>
     (\<forall>root \<in> set (pp_allowed_write_roots doc). normalizable root) \<and>
     (\<forall>c \<in> set changes. normalizable (oc_path c) \<and> link_normalizable c)"

definition admits :: "PathPolicy \<Rightarrow> string list \<Rightarrow> ObservedChange list \<Rightarrow> bool" where
  "admits doc sources changes \<longleftrightarrow>
     decidable doc sources changes \<and>
     (\<forall>c \<in> set changes. place_ok doc sources (normal_path (oc_path c)) \<and>
        place_ok doc sources (landing (with_normal_path c))) \<and>
     within_bounds doc changes"

lemma within_bounds_normal [simp]:
  "within_bounds doc (map with_normal_path cs) = within_bounds doc cs"
proof -
  have "total_bytes t (map with_normal_path cs) = total_bytes t cs" for t
    by (induction cs arbitrary: t) (auto simp: total_bytes_def)
  then show ?thesis by (simp add: within_bounds_def)
qed

lemma link_normalizable_normal [simp]: "link_normalizable (with_normal_path c) = link_normalizable c"
  by (simp add: link_normalizable_def)

lemma place_ok_covered:
  "place_ok doc sources p \<longleftrightarrow>
   \<not> covered (map pr_prefix (pp_prohibited_rules doc) @ map normal_path sources) p \<and>
   covered (map normal_path (pp_allowed_write_roots doc)) p"
  by (auto simp: place_ok_def covered_def list_ex_iff)

lemma unimplemented_rule_None:
  "unimplemented_rule doc = None \<longleftrightarrow>
   (\<forall>rule \<in> set (pp_prohibited_rules doc). pr_kind rule = ''path_prefix'')"
  by (auto simp: unimplemented_rule_def find_None_iff IMPLEMENTED_RULE_KINDS_def)

text \<open>The document decision reaches the normalized changes exactly when all is decidable.\<close>

lemma decide_document_normalized:
  assumes "\<forall>rule \<in> set (pp_prohibited_rules doc). pr_kind rule = ''path_prefix''"
    and "\<forall>source \<in> set sources. normalizable source"
    and "\<forall>root \<in> set (pp_allowed_write_roots doc). normalizable root"
    and "\<forall>c \<in> set cs. normalizable (oc_path c)"
  shows "decide_document doc (Some cs) sources =
    decide_normalized doc (map pr_prefix (pp_prohibited_rules doc) @ map normal_path sources)
      (map normal_path (pp_allowed_write_roots doc)) (map with_normal_path cs)"
  using assms
  by (simp add: decide_document_def unimplemented_rule_None[THEN iffD2] normalize_all_ok
      normalize_changes_ok)

lemma decide_document_proceedD:
  assumes "decide_document doc (Some cs) sources = Proceed m"
  shows "\<forall>rule \<in> set (pp_prohibited_rules doc). pr_kind rule = ''path_prefix''"
    "\<forall>source \<in> set sources. normalizable source"
    "\<forall>root \<in> set (pp_allowed_write_roots doc). normalizable root"
    "\<forall>c \<in> set cs. normalizable (oc_path c)"
  using assms unimplemented_rule_None[of doc]
  by (auto simp: decide_document_def normalize_all_iff normalize_changes_iff
      split: option.splits sum.splits prod.splits)

definition materializable :: "ObservedChange list \<Rightarrow> Materializable" where
  "materializable cs =
     \<lparr>mt_changes = canonicalSort oc_path (map with_normal_path cs),
      mt_bounds_checked = [''max_files'', ''max_file_bytes'', ''max_total_bytes'']\<rparr>"

lemma decide_document_iff:
  assumes "distinct (map (normal_path \<circ> oc_path) cs)"
  shows "decide_document doc (Some cs) sources = Proceed m \<longleftrightarrow>
    admits doc sources cs \<and> m = materializable cs"
proof (cases "decide_document doc (Some cs) sources = Proceed m \<or> decidable doc sources cs")
  case True
  then have dec: "\<forall>rule \<in> set (pp_prohibited_rules doc). pr_kind rule = ''path_prefix''"
      "\<forall>source \<in> set sources. normalizable source"
      "\<forall>root \<in> set (pp_allowed_write_roots doc). normalizable root"
      "\<forall>c \<in> set cs. normalizable (oc_path c)"
    using decide_document_proceedD by (auto simp: decidable_def)
  let ?ns = "map with_normal_path cs"
  have dist: "distinct (map oc_path ?ns)" using assms by (simp add: comp_def)
  have eff: "effectiveOf (landings ?ns Map.empty) (normal_path (oc_path c)) =
      landing (with_normal_path c)" if "c \<in> set cs" for c
    using effectiveOf_landing[OF dist, of "with_normal_path c"] that by simp
  show ?thesis
    unfolding decide_document_normalized[OF dec] decide_normalized_iff admits_def decidable_def
    using dec by (auto simp: Let_def eff place_ok_covered materializable_def)
next
  case False
  then show ?thesis by (simp add: admits_def)
qed

section \<open>Properties\<close>

text \<open>
  C22: Materialization proceeds exactly for the admitted change sets. For a captured
  policy and changes with one change per normalized path, the decision proceeds with \<open>m\<close> if and
  only if the set is admitted by the declarative reading of the policy, and then \<open>m\<close> carries the
  whole normalized set in canonical order and names the three bounds: nothing is dropped,
  truncated or partly reported.
\<close>

theorem materialization_iff_admits:
  assumes "distinct (map (normal_path \<circ> oc_path) cs)" and "es_value v = Some doc"
  shows "decideMaterialization (Ok_true v) (Some cs) sources = Proceed m \<longleftrightarrow>
    admits doc sources cs \<and> m = materializable cs"
  using assms decide_document_iff[OF assms(1)] by (simp add: decideMaterialization_def)

definition sample_policy :: PathPolicy where
  "sample_policy =
     \<lparr>pp_allowed_write_roots = [''docs'', ''./src/''],
      pp_prohibited_rules = [\<lparr>pr_kind = ''path_prefix'', pr_prefix = ''docs/private''\<rparr>],
      pp_max_files = Num 3, pp_max_total_bytes = Num 10, pp_max_file_bytes = Num 6\<rparr>"

definition sample_identity :: "string \<Rightarrow> CapturedIdentity" where
  "sample_identity cid =
     \<lparr>ci_contract_id = cid, ci_contract_version = ''2.0.0'', ci_digest = ''sha256:0''\<rparr>"

definition sample_snapshot :: "'d \<Rightarrow> 'd established" where
  "sample_snapshot doc =
     \<lparr>es_digest = Some ''sha256:0'', es_source = ''policy.json'',
      es_contract = sample_identity ''path-policy'', es_value = Some doc\<rparr>"

lemma materialization_iff_admits_witness:
  "decideMaterialization (Ok_true (sample_snapshot sample_policy))
     (Some [change_at ''src/x'', change_at ''docs//a.md'']) [''policy.json''] =
   Proceed (materializable [change_at ''src/x'', change_at ''docs//a.md''])"
proof -
  have "distinct (map (normal_path \<circ> oc_path) [change_at ''src/x'', change_at ''docs//a.md''])"
    by code_simp
  moreover have "es_value (sample_snapshot sample_policy) = Some sample_policy" by code_simp
  moreover have "admits sample_policy [''policy.json''] [change_at ''src/x'', change_at ''docs//a.md'']"
    by code_simp
  ultimately show ?thesis using materialization_iff_admits by blast
qed

text \<open>
  C23: Of every change of a set that proceeds, however many changes the host reports of one path,
  the change's own normalized path is outside each prohibited prefix and each protected authority
  source and under some declared root; and so is the place where the last change of each path lands,
  the target of its link if it has one. The place where an earlier change of the same path lands is
  not protected, as \<open>duplicate_change_launders_link\<close> shows.
\<close>

theorem materialization_protects:
  assumes "decideMaterialization policy (Some cs) sources = Proceed m"
  shows "\<exists>v doc. policy = Ok_true v \<and> es_value v = Some doc \<and>
    (\<forall>c \<in> set cs. place_ok doc sources (normal_path (oc_path c))) \<and>
    (\<forall>bs c ds. cs = bs @ c # ds \<longrightarrow> normal_path (oc_path c) \<notin> (normal_path \<circ> oc_path) ` set ds \<longrightarrow>
       place_ok doc sources (landing (with_normal_path c))) \<and>
    within_bounds doc cs \<and> m = materializable cs"
proof -
  obtain v doc where v: "policy = Ok_true v" "es_value v = Some doc"
      "decide_document doc (Some cs) sources = Proceed m"
    using assms by (auto simp: decideMaterialization_def split: supplied.splits option.splits)
  note dec = decide_document_proceedD[OF v(3)]
  let ?eff = "effectiveOf (landings (map with_normal_path cs) Map.empty)"
  have own: "(\<forall>c \<in> set cs. place_ok doc sources (normal_path (oc_path c))) \<and> within_bounds doc cs \<and>
      m = materializable cs"
    and eff: "\<forall>c \<in> set cs. place_ok doc sources (?eff (normal_path (oc_path c)))"
    using v(3) unfolding decide_document_normalized[OF dec] decide_normalized_iff
    by (auto simp: Let_def place_ok_covered materializable_def)
  have "place_ok doc sources (landing (with_normal_path c))"
    if "cs = bs @ c # ds" and "normal_path (oc_path c) \<notin> (normal_path \<circ> oc_path) ` set ds" for bs c ds
  proof -
    have "?eff (oc_path (with_normal_path c)) = landing (with_normal_path c)"
      using landings_last[of "with_normal_path c" "map with_normal_path ds" "map with_normal_path bs"] that
      by (simp add: image_image comp_def)
    moreover have "c \<in> set cs" by (simp add: that(1))
    ultimately show ?thesis using eff by (metis with_normal_path_simps(1))
  qed
  with own v(1,2) show ?thesis by blast
qed

lemma materialization_protects_witness:
  "\<exists>v doc. Ok_true (sample_snapshot sample_policy) = Ok_true v \<and> es_value v = Some doc \<and>
    place_ok doc [''policy.json''] (landing (with_normal_path (change_at ''src/x'')))"
proof -
  have "decideMaterialization (Ok_true (sample_snapshot sample_policy)) (Some [change_at ''src/x'']) [''policy.json''] =
      Proceed (materializable [change_at ''src/x''])"
    by code_simp
  from materialization_protects[OF this] obtain v doc where
    "Ok_true (sample_snapshot sample_policy) = Ok_true v" "es_value v = Some doc"
    and l: "\<And>bs c ds. [change_at ''src/x''] = bs @ c # ds \<Longrightarrow>
      normal_path (oc_path c) \<notin> (normal_path \<circ> oc_path) ` set ds \<Longrightarrow>
      place_ok doc [''policy.json''] (landing (with_normal_path c))"
    by blast
  with l[of "[]" "change_at ''src/x''" "[]"] show ?thesis by auto
qed

text \<open>
  Protection outranks the write roots and the bounds: as soon as everything can be
  decided and one change's own path is covered by a prohibited rule or a protected source, the
  refusal is \<open>protected_path\<close>, even for a path under an allowed root or a set over its bounds.
\<close>

theorem protection_outranks:
  assumes "es_value v = Some doc" and "decidable doc sources cs" and "c \<in> set cs"
    and "(\<exists>rule \<in> set (pp_prohibited_rules doc). isPathPrefix (pr_prefix rule) (normal_path (oc_path c)))
       \<or> (\<exists>s \<in> set sources. isPathPrefix (normal_path s) (normal_path (oc_path c)))"
  shows "code_of (decideMaterialization (Ok_true v) (Some cs) sources) = Some protected_path"
proof -
  let ?prots = "map pr_prefix (pp_prohibited_rules doc) @ map normal_path sources"
  let ?ns = "map with_normal_path cs"
  let ?roots = "map normal_path (pp_allowed_write_roots doc)"
  let ?eff = "effectiveOf (landings ?ns Map.empty)"
  have "covered ?prots (normal_path (oc_path c))"
    using assms(4) by (auto simp: covered_def list_ex_iff)
  then have "check_protection ?prots ?roots ?eff ?ns \<noteq> None"
    using assms(3) by (auto simp: check_protection_None)
  then obtain r where r: "check_protection ?prots ?roots ?eff ?ns = Some r" by blast
  have "effective_paths ?ns Map.empty = Inr (landings ?ns Map.empty)"
    using assms(2) by (intro effective_paths_ok) (auto simp: decidable_def)
  then have "decide_normalized doc ?prots ?roots ?ns = Refused r"
    using r by (simp add: decide_normalized_def)
  moreover have "decide_document doc (Some cs) sources = decide_normalized doc ?prots ?roots ?ns"
    using assms(2) by (intro decide_document_normalized) (auto simp: decidable_def)
  ultimately show ?thesis
    using assms(1) check_protection_code[OF r] by (simp add: decideMaterialization_def)
qed

lemma protection_outranks_witness:
  "code_of (decideMaterialization (Ok_true (sample_snapshot sample_policy))
     (Some [change_at ''docs/private/key'', change_at ''etc/passwd'', change_at ''docs/a'', change_at ''docs/b''])
     [''policy.json'']) = Some protected_path"
proof (rule protection_outranks)
  show "es_value (sample_snapshot sample_policy) = Some sample_policy" by code_simp
  show "decidable sample_policy [''policy.json'']
    [change_at ''docs/private/key'', change_at ''etc/passwd'', change_at ''docs/a'', change_at ''docs/b'']"
    by code_simp
  show "change_at ''docs/private/key'' \<in> set
    [change_at ''docs/private/key'', change_at ''etc/passwd'', change_at ''docs/a'', change_at ''docs/b'']"
    by simp
  show "(\<exists>rule \<in> set (pp_prohibited_rules sample_policy).
      isPathPrefix (pr_prefix rule) (normal_path (oc_path (change_at ''docs/private/key''))))
    \<or> (\<exists>s \<in> set [''policy.json''].
      isPathPrefix (normal_path s) (normal_path (oc_path (change_at ''docs/private/key''))))"
    by code_simp
qed

text \<open>
  The condition of one change per path matters for links: with two changes of the
  same normalized path the later one overwrites the link target of the earlier, and a change
  that lands outside every root (here on a protected path) is admitted.
\<close>

theorem duplicate_change_launders_link:
  "proceeds (decideMaterialization (Ok_true (sample_snapshot sample_policy))
     (Some [(change_at ''docs/a'')\<lparr>oc_link_target := Some ''docs/private/key''\<rparr>,
            change_at ''docs/./a'']) []) \<and>
   code_of (decideMaterialization (Ok_true (sample_snapshot sample_policy))
     (Some [(change_at ''docs/a'')\<lparr>oc_link_target := Some ''docs/private/key''\<rparr>]) []) =
     Some protected_path"
  by code_simp

text \<open>
  The bounds of a change set are compared without the finiteness test of the single
  bound comparison: a change whose observed size is not a number passes all three, where the
  bound comparison refuses the same value.
\<close>

theorem nan_size_is_admitted:
  "proceeds (decideMaterialization (Ok_true (sample_snapshot sample_policy))
     (Some [(change_at ''docs/a'')\<lparr>oc_bytes := NaN\<rparr>]) []) \<and>
   code_of (enforceBound ''max_file_bytes'' NaN (Num 6)) = Some undecidable"
  by code_simp

end
