(* ===== verification/Eligibility.thy ===== *)
theory Eligibility
  imports Materialize
begin

text \<open>
  Pre-spend eligibility: \<^verbatim>\<open>packages/runner-core/src/eligibility/decide.ts\<close>, over the captured
  snapshots of \<^verbatim>\<open>authority/snapshots.ts\<close>, with the execution profile and the gate registry of
  \<^verbatim>\<open>packages/contracts/src\<close>.
\<close>

section \<open>The authority documents\<close>

datatype MountPosture = Read_only | Read_write

record Mount =
  mo_path :: string
  mo_posture :: MountPosture

record Destination =
  de_host :: string
  de_port :: int

text \<open>The network policy is default deny, so only the granted destinations vary.\<close>

record CapabilityGrant =
  cg_tools :: "string list"
  cg_mounts :: "Mount list"
  cg_granted_destinations :: "Destination list"
  cg_credentials :: "string list"

datatype RoutingClass = R0 | R1 | R2 | R3

record ProfileRef =
  prf_name :: string
  prf_version :: string

record Limits =
  li_wall_clock_seconds :: js_number
  li_cpu_cores :: js_number
  li_memory_bytes :: js_number
  li_pids :: js_number
  li_output_bytes :: js_number

record ExecutionProfile =
  ep_identity :: ProfileRef
  ep_image_digest :: string
  ep_adapter :: string
  ep_capability :: CapabilityGrant
  ep_routing_class :: RoutingClass
  ep_model_route :: string
  ep_fallback :: string
  ep_limits :: Limits
  ep_principal_sub :: string
  ep_actor_required :: bool
  ep_knowledge_selection :: string
  ep_evidence_contract :: string

record GateSpec =
  gs_executable :: string
  gs_args :: "string list"
  gs_timeout_seconds :: js_number
  gs_max_output_bytes :: js_number
  gs_environment_names :: "string list"

record GateRegistry =
  gr_gates :: "(string \<times> GateSpec) list"

record AuthoritySnapshots =
  as_profile :: "ExecutionProfile supplied"
  as_path_policy :: "PathPolicy supplied"
  as_gate_registry :: "GateRegistry supplied"

record Eligible =
  el_profile :: CapturedIdentity
  el_path_policy :: CapturedIdentity
  el_gate_registry :: "CapturedIdentity option"
  el_gates :: "string list"

section \<open>The decision\<close>

text \<open>
  \<^verbatim>\<open>key in object\<close> asks the object and what it inherits; the gates of a registry are an
  ordinary object, so the member names of the standard object prototype are found in it.
\<close>

definition inherited_members :: "string list" where
  "inherited_members =
     [''constructor'', ''__defineGetter__'', ''__defineSetter__'', ''hasOwnProperty'',
      ''__lookupGetter__'', ''__lookupSetter__'', ''isPrototypeOf'', ''propertyIsEnumerable'',
      ''toString'', ''valueOf'', ''__proto__'', ''toLocaleString'']"

definition in_object :: "string \<Rightarrow> (string \<times> 'a) list \<Rightarrow> bool" where
  "in_object key members \<longleftrightarrow> key \<in> set (map fst members) \<or> key \<in> set inherited_members"

text \<open>
  One required snapshot: \<open>missing\<close> and \<open>unknown\<close> are the details of the two refusals. Reading
  the \<^verbatim>\<open>ok\<close> flag of \<^verbatim>\<open>null\<close> throws. On the right, the established capture.
\<close>

definition require_snapshot ::
  "string \<Rightarrow> string \<Rightarrow> string \<Rightarrow> 'd supplied \<Rightarrow> (Refusal + 'd established) js" where
  "require_snapshot name missing unknown snapshot =
     (case snapshot of
        Undefined \<Rightarrow> Returned (Inl (refusal missing_authority (element name) missing))
      | Null \<Rightarrow> Threw
      | Ok_false reported_refusal \<Rightarrow> Returned (Inl (coerceRefusal reported_refusal name))
      | Ok_true view \<Rightarrow>
          (if es_digest view \<noteq> None then Returned (Inr view)
           else Returned (Inl (refusal undecidable (element name) unknown)))
      | _ \<Rightarrow> Returned (Inl (refusal undecidable (element name) unknown)))"

definition required_profile ::
  "ExecutionProfile supplied \<Rightarrow> (Refusal + ExecutionProfile established) js" where
  "required_profile =
     require_snapshot ''execution-profile'' ''no execution profile in the snapshot set''
       ''profile snapshot state cannot be established''"

definition required_policy :: "PathPolicy supplied \<Rightarrow> (Refusal + PathPolicy established) js" where
  "required_policy =
     require_snapshot ''path-policy''
       (template [''no path policy in the snapshot set '', em_dash,
                  '' the policy is required authority''])
       ''path-policy snapshot state cannot be established''"

definition required_registry ::
  "GateRegistry supplied \<Rightarrow> (Refusal + GateRegistry established) js" where
  "required_registry =
     require_snapshot ''gate-registry''
       ''gates were requested but no gate registry is in the snapshot set''
       ''gate-registry snapshot state cannot be established''"

fun check_gates :: "string list \<Rightarrow> string list \<Rightarrow> Refusal option" where
  "check_gates seen [] = None"
| "check_gates seen (gate # gates) =
     (if \<not> GateId gate then
        Some (refusal undeclared_gate (element gate)
          ''requested gate identity is not a valid gate id'')
      else if gate \<in> set seen then
        Some (refusal duplicate_gate (element gate)
          ''requested gate identity appears more than once'')
      else check_gates (gate # seen) gates)"

fun check_declared :: "(string \<times> GateSpec) list \<Rightarrow> string list \<Rightarrow> Refusal option" where
  "check_declared registered [] = None"
| "check_declared registered (gate # gates) =
     (if \<not> in_object gate registered then
        Some (refusal undeclared_gate (element gate)
          ''requested gate identity is absent from the captured registry'')
      else check_declared registered gates)"

text \<open>The registry is needed only when a gate is requested.\<close>

definition decide_registry ::
  "string list \<Rightarrow> GateRegistry supplied \<Rightarrow> (Refusal + CapturedIdentity option) js" where
  "decide_registry gates registry =
     (if gates = [] then Returned (Inr None)
      else
        (case required_registry registry of
           Threw \<Rightarrow> Threw
         | Returned (Inl r) \<Rightarrow> Returned (Inl r)
         | Returned (Inr view) \<Rightarrow>
             (case es_value view of
                None \<Rightarrow> Threw
              | Some doc \<Rightarrow>
                  (case check_declared (gr_gates doc) gates of
                     Some r \<Rightarrow> Returned (Inl r)
                   | None \<Rightarrow> Returned (Inr (Some (es_contract view)))))))"

definition decideEligibility ::
  "AuthoritySnapshots \<Rightarrow> string list \<Rightarrow> Eligible Decision js" where
  "decideEligibility snapshots requestedGates =
     (case required_profile (as_profile snapshots) of
        Threw \<Rightarrow> Threw
      | Returned (Inl r) \<Rightarrow> Returned (Refused r)
      | Returned (Inr profile) \<Rightarrow>
     (case required_policy (as_path_policy snapshots) of
        Threw \<Rightarrow> Threw
      | Returned (Inl r) \<Rightarrow> Returned (Refused r)
      | Returned (Inr path_policy) \<Rightarrow>
     (case check_gates [] requestedGates of
        Some r \<Rightarrow> Returned (Refused r)
      | None \<Rightarrow>
     (case decide_registry requestedGates (as_gate_registry snapshots) of
        Threw \<Rightarrow> Threw
      | Returned (Inl r) \<Rightarrow> Returned (Refused r)
      | Returned (Inr registryIdentity) \<Rightarrow>
          Returned (proceed
            \<lparr>el_profile = es_contract profile, el_path_policy = es_contract path_policy,
             el_gate_registry = registryIdentity,
             el_gates = canonicalSort (\<lambda>gate. gate) requestedGates\<rparr>)))))"

section \<open>Lemmas\<close>

lemma check_gates_None:
  "check_gates seen gates = None \<longleftrightarrow>
   list_all GateId gates \<and> distinct gates \<and> set seen \<inter> set gates = {}"
  by (induction gates arbitrary: seen) auto

lemma check_declared_None:
  "check_declared registered gates = None \<longleftrightarrow> (\<forall>gate \<in> set gates. in_object gate registered)"
  by (induction gates) auto

lemma check_gates_code:
  "check_gates seen gates = Some r \<Longrightarrow> rf_code r \<in> {undeclared_gate, duplicate_gate}"
  by (induction gates arbitrary: seen) (auto split: if_splits)

lemma required_Inr:
  "required_profile p = Returned (Inr pv) \<longleftrightarrow> p = Ok_true pv \<and> es_digest pv \<noteq> None"
  "required_policy q = Returned (Inr qv) \<longleftrightarrow> q = Ok_true qv \<and> es_digest qv \<noteq> None"
  "required_registry r = Returned (Inr rv) \<longleftrightarrow> r = Ok_true rv \<and> es_digest rv \<noteq> None"
  by (cases p; cases q; cases r;
      auto simp: require_snapshot_def required_profile_def required_policy_def
        required_registry_def)+

lemma required_Threw:
  "required_profile p = Threw \<longleftrightarrow> p = Null"
  "required_policy q = Threw \<longleftrightarrow> q = Null"
  "required_registry r = Threw \<longleftrightarrow> r = Null"
  by (cases p; cases q; cases r;
      auto simp: require_snapshot_def required_profile_def required_policy_def
        required_registry_def)+

lemma decide_registry_Inr:
  "decide_registry gates registry = Returned (Inr identity) \<longleftrightarrow>
   gates = [] \<and> identity = None
   \<or> gates \<noteq> [] \<and> (\<exists>view doc. registry = Ok_true view \<and> es_digest view \<noteq> None \<and>
        es_value view = Some doc \<and> (\<forall>gate \<in> set gates. in_object gate (gr_gates doc)) \<and>
        identity = Some (es_contract view))"
proof (cases "required_registry registry")
  case Threw
  then show ?thesis using required_Threw(3)[of registry]
    by (auto simp: decide_registry_def)
next
  case (Returned found)
  show ?thesis
  proof (cases found)
    case (Inl r)
    then show ?thesis
      using Returned required_Inr(3)[of registry] by (auto simp: decide_registry_def)
  next
    case (Inr view)
    then have reg: "registry = Ok_true view \<and> es_digest view \<noteq> None"
      using Returned required_Inr(3)[of registry view] by simp
    show ?thesis
    proof (cases "es_value view")
      case (Some doc)
      then show ?thesis
        using Returned Inr reg check_declared_None[of "gr_gates doc" gates]
        by (cases "check_declared (gr_gates doc) gates") (auto simp: decide_registry_def)
    qed (use Returned Inr reg in \<open>auto simp: decide_registry_def\<close>)
  qed
qed

text \<open>A well-typed capture always carries its digest and its value.\<close>

lemma established_of_simps [simp]:
  "es_digest (established_of c) = Some (cp_digest c)"
  "es_value (established_of c) = Some (cd_body (cp_value c))"
  "es_contract (established_of c) = cp_contract c"
  "es_source (established_of c) = cp_source c"
  by (simp_all add: established_of_def)

lemma decideEligibility_proceed:
  "decideEligibility s gates = Returned (Proceed e) \<longleftrightarrow>
   (\<exists>profile policy identity.
      as_profile s = Ok_true profile \<and> es_digest profile \<noteq> None \<and>
      as_path_policy s = Ok_true policy \<and> es_digest policy \<noteq> None \<and>
      list_all GateId gates \<and> distinct gates \<and>
      decide_registry gates (as_gate_registry s) = Returned (Inr identity) \<and>
      e = \<lparr>el_profile = es_contract profile, el_path_policy = es_contract policy,
           el_gate_registry = identity, el_gates = canonicalSort (\<lambda>gate. gate) gates\<rparr>)"
proof -
  have "decideEligibility s gates = Returned (Proceed e) \<longleftrightarrow>
    (\<exists>profile policy identity.
      required_profile (as_profile s) = Returned (Inr profile) \<and>
      required_policy (as_path_policy s) =
        Returned (Inr policy) \<and>
      check_gates [] gates = None \<and>
      decide_registry gates (as_gate_registry s) = Returned (Inr identity) \<and>
      e = \<lparr>el_profile = es_contract profile, el_path_policy = es_contract policy,
           el_gate_registry = identity, el_gates = canonicalSort (\<lambda>gate. gate) gates\<rparr>)"
    by (auto simp: decideEligibility_def split: js.splits sum.splits option.splits)
  then show ?thesis by (auto simp: required_Inr check_gates_None)
qed

section \<open>Properties\<close>

text \<open>
  C24: Over captured snapshots, a run is eligible exactly when the profile and the
  policy are captured, every requested gate is a valid gate identity requested once, and, if
  any gate is requested, the registry is captured with its digest and value and holds each of them
  (as an own member or an inherited one). The decision then records the captured identities and the
  sorted gates.
\<close>

theorem eligibility_exact:
  assumes "s = \<lparr>as_profile = as_supplied profile, as_path_policy = as_supplied policy,
                as_gate_registry = registry\<rparr>"
  shows "decideEligibility s gates = Returned (Proceed e) \<longleftrightarrow>
    (\<exists>p q identity. profile = Captured_ok p \<and> policy = Captured_ok q \<and>
       list_all GateId gates \<and> distinct gates \<and>
       (if gates = [] then identity = None
        else (\<exists>view doc. registry = Ok_true view \<and> es_digest view \<noteq> None \<and> es_value view = Some doc \<and>
          list_all (\<lambda>gate. gate \<in> set (map fst (gr_gates doc)) \<or> gate \<in> set inherited_members) gates \<and>
          identity = Some (es_contract view))) \<and>
       e = \<lparr>el_profile = cp_contract p, el_path_policy = cp_contract q,
            el_gate_registry = identity, el_gates = canonicalSort (\<lambda>gate. gate) gates\<rparr>)"
proof -
  have reg: "decide_registry gates registry = Returned (Inr identity) \<longleftrightarrow>
    (if gates = [] then identity = None
     else (\<exists>view doc. registry = Ok_true view \<and> es_digest view \<noteq> None \<and> es_value view = Some doc \<and>
       list_all (\<lambda>gate. gate \<in> set (map fst (gr_gates doc)) \<or> gate \<in> set inherited_members) gates \<and>
       identity = Some (es_contract view)))" for identity
    by (auto simp: decide_registry_Inr in_object_def list_all_iff)
  show ?thesis
    unfolding decideEligibility_proceed reg[symmetric] using assms
    by (cases profile; cases policy) auto
qed

definition sample_profile :: ExecutionProfile where
  "sample_profile =
     \<lparr>ep_identity = \<lparr>prf_name = ''agent'', prf_version = ''1.0.0''\<rparr>,
      ep_image_digest = ''sha256:1'', ep_adapter = ''deterministic'',
      ep_capability = \<lparr>cg_tools = [''edit''], cg_mounts = [], cg_granted_destinations = [],
                       cg_credentials = []\<rparr>,
      ep_routing_class = R0, ep_model_route = ''local'', ep_fallback = ''none'',
      ep_limits = \<lparr>li_wall_clock_seconds = Num 60, li_cpu_cores = Num 1,
                   li_memory_bytes = Num 1024, li_pids = Num 8, li_output_bytes = Num 4096\<rparr>,
      ep_principal_sub = ''runner'', ep_actor_required = False,
      ep_knowledge_selection = ''default'', ep_evidence_contract = ''2.0.0''\<rparr>"

definition sample_gate :: GateSpec where
  "sample_gate =
     \<lparr>gs_executable = ''pnpm'', gs_args = [''test''], gs_timeout_seconds = Num 60,
      gs_max_output_bytes = Num 1000, gs_environment_names = []\<rparr>"

definition sample_registry :: GateRegistry where
  "sample_registry = \<lparr>gr_gates = [(''unit'', sample_gate), (''lint'', sample_gate)]\<rparr>"

definition capture_of :: "string \<Rightarrow> string \<Rightarrow> 'd \<Rightarrow> 'd Captured" where
  "capture_of source cid doc =
     captured source (template [''sha256:'', source])
       \<lparr>cd_contract_id = cid, cd_contract_version = ''1.0.0'', cd_body = doc\<rparr>"

definition sample_snapshots :: AuthoritySnapshots where
  "sample_snapshots =
     \<lparr>as_profile = as_supplied (Captured_ok (capture_of ''profile.json'' ''execution-profile'' sample_profile)),
      as_path_policy = as_supplied (Captured_ok (capture_of ''policy.json'' ''path-policy'' sample_policy)),
      as_gate_registry = as_supplied (Captured_ok (capture_of ''gates.json'' ''gate-registry'' sample_registry))\<rparr>"

lemma eligibility_exact_witness:
  "\<exists>e. decideEligibility sample_snapshots [''unit'', ''lint''] = Returned (Proceed e) \<and>
       el_gates e = [''lint'', ''unit''] \<and> ci_digest (el_profile e) = ''sha256:profile.json''"
proof -
  let ?p = "capture_of ''profile.json'' ''execution-profile'' sample_profile"
  let ?q = "capture_of ''policy.json'' ''path-policy'' sample_policy"
  let ?reg = "capture_of ''gates.json'' ''gate-registry'' sample_registry"
  let ?e = "\<lparr>el_profile = cp_contract ?p, el_path_policy = cp_contract ?q,
    el_gate_registry = Some (cp_contract ?reg), el_gates = canonicalSort (\<lambda>gate. gate) [''unit'', ''lint'']\<rparr>"
  have gates: "list_all GateId [''unit'', ''lint'']" "distinct [''unit'', ''lint'']" by code_simp+
  have "gr_gates (cd_body (cp_value ?reg)) = [(''unit'', sample_gate), (''lint'', sample_gate)]"
    by (simp add: capture_of_def captured_def sample_registry_def)
  then have held: "list_all (\<lambda>gate. gate \<in> set (map fst (gr_gates (cd_body (cp_value ?reg)))) \<or>
      gate \<in> set inherited_members) [''unit'', ''lint'']"
    by simp
  have "decideEligibility sample_snapshots [''unit'', ''lint''] = Returned (Proceed ?e)"
    unfolding eligibility_exact[OF sample_snapshots_def]
  proof (intro exI[of _ ?p] exI[of _ ?q] exI[of _ "Some (cp_contract ?reg)"] conjI)
    show "if [''unit'', ''lint''] = [] then Some (cp_contract ?reg) = None
      else \<exists>view doc. as_supplied (Captured_ok ?reg) = Ok_true view \<and> es_digest view \<noteq> None \<and>
        es_value view = Some doc \<and>
        list_all (\<lambda>gate. gate \<in> set (map fst (gr_gates doc)) \<or> gate \<in> set inherited_members) [''unit'', ''lint''] \<and>
        Some (cp_contract ?reg) = Some (es_contract view)"
      unfolding if_not_P[OF list.simps(3)]
      by (intro exI[of _ "established_of ?reg"] exI[of _ "cd_body (cp_value ?reg)"] conjI held) simp_all
  qed (rule refl gates)+
  moreover have "canonicalSort (\<lambda>gate. gate) [''unit'', ''lint''] = [''lint'', ''unit'']" by code_simp
  moreover have "ci_digest (cp_contract ?p) = ''sha256:profile.json''" by code_simp
  ultimately show ?thesis by (intro exI[of _ ?e]) simp
qed

text \<open>
  No incomplete or unestablished snapshot set is eligible, for any value an untyped
  caller supplies: eligible means established captures of the profile and the policy, and every
  requested gate is either declared in an established registry or the one inherited member name
  that is also a gate identity.
\<close>

theorem eligible_only_established:
  assumes "decideEligibility s gates = Returned (Proceed e)"
  shows "(\<exists>view. as_profile s = Ok_true view \<and> es_digest view \<noteq> None \<and> el_profile e = es_contract view) \<and>
    (\<exists>view. as_path_policy s = Ok_true view \<and> es_digest view \<noteq> None \<and> el_path_policy e = es_contract view) \<and>
    (\<forall>gate \<in> set gates. \<exists>view doc. as_gate_registry s = Ok_true view \<and> es_value view = Some doc \<and>
       (gate \<in> set (map fst (gr_gates doc)) \<or> gate = ''constructor'')) \<and>
    mset (el_gates e) = mset gates"
proof -
  obtain identity where reg: "decide_registry gates (as_gate_registry s) = Returned (Inr identity)"
      and valid: "list_all GateId gates" and rest: "el_gates e = canonicalSort (\<lambda>gate. gate) gates"
    using assms by (auto simp: decideEligibility_proceed)
  have only: "gate = ''constructor''" if "GateId gate" "gate \<in> set inherited_members" for gate
  proof -
    have "filter GateId inherited_members = [''constructor'']" by code_simp
    moreover have "gate \<in> set (filter GateId inherited_members)" using that by simp
    ultimately show ?thesis by simp
  qed
  have "\<exists>view doc. as_gate_registry s = Ok_true view \<and> es_value view = Some doc \<and>
      (gate \<in> set (map fst (gr_gates doc)) \<or> gate = ''constructor'')" if "gate \<in> set gates" for gate
    using that reg valid only
    by (auto simp: decide_registry_Inr in_object_def list_all_iff) blast+
  then show ?thesis using assms rest by (auto simp: decideEligibility_proceed)
qed

lemma eligible_only_established_witness:
  "\<exists>e. decideEligibility sample_snapshots [''unit''] = Returned (Proceed e) \<and>
       mset (el_gates e) = mset [''unit'']"
proof -
  have "decideEligibility sample_snapshots [''unit''] =
    Returned (Proceed
      \<lparr>el_profile = cp_contract (capture_of ''profile.json'' ''execution-profile'' sample_profile),
       el_path_policy = cp_contract (capture_of ''policy.json'' ''path-policy'' sample_policy),
       el_gate_registry = Some (cp_contract (capture_of ''gates.json'' ''gate-registry'' sample_registry)),
       el_gates = [''unit'']\<rparr>)"
    by code_simp
  with eligible_only_established[OF this] show ?thesis by blast
qed

text \<open>
  A gate the captured registry does not declare can be eligible: the membership test
  also finds inherited members, and \<^verbatim>\<open>constructor\<close> is a valid gate identity.
\<close>

theorem undeclared_constructor_gate_is_eligible:
  "''constructor'' \<notin> set (map fst (gr_gates sample_registry)) \<and>
   (case decideEligibility sample_snapshots [''constructor''] of
      Returned d \<Rightarrow> proceeds d | Threw \<Rightarrow> False)"
  by code_simp

text \<open>
  The decision throws exactly when it reaches a snapshot that is \<^verbatim>\<open>null\<close>, or an
  established registry without a value, and never for a contract reason: on every other
  snapshot set it returns a decision.
\<close>

theorem eligibility_throws_iff:
  "decideEligibility s gates = Threw \<longleftrightarrow>
   (as_profile s = Null \<or>
    (\<exists>profile. as_profile s = Ok_true profile \<and> es_digest profile \<noteq> None \<and>
      (as_path_policy s = Null \<or>
       (\<exists>policy. as_path_policy s = Ok_true policy \<and> es_digest policy \<noteq> None \<and>
          list_all GateId gates \<and> distinct gates \<and> gates \<noteq> [] \<and>
          (as_gate_registry s = Null \<or>
           (\<exists>registry. as_gate_registry s = Ok_true registry \<and> es_digest registry \<noteq> None \<and>
              es_value registry = None))))))"
proof -
  have reg: "decide_registry gates registry = Threw \<longleftrightarrow>
      gates \<noteq> [] \<and> (registry = Null \<or>
        (\<exists>view. registry = Ok_true view \<and> es_digest view \<noteq> None \<and> es_value view = None))"
    for registry
    by (cases registry)
      (auto simp: decide_registry_def required_registry_def require_snapshot_def
        split: option.splits)
  have "decideEligibility s gates = Threw \<longleftrightarrow>
    (required_profile (as_profile s) = Threw \<or>
     (\<exists>profile. required_profile (as_profile s) = Returned (Inr profile) \<and>
       (required_policy (as_path_policy s) = Threw \<or>
        (\<exists>policy. required_policy (as_path_policy s) =
            Returned (Inr policy) \<and>
          check_gates [] gates = None \<and> decide_registry gates (as_gate_registry s) = Threw))))"
    by (auto simp: decideEligibility_def split: js.splits sum.splits option.splits)
  then show ?thesis
    by (simp add: required_Threw required_Inr check_gates_None reg)
qed

end
