(* ===== verification/Reconcile.thy ===== *)
theory Reconcile
  imports Workspace
begin

text \<open>
  Observed-versus-claimed reconciliation:
  \<^verbatim>\<open>packages/runner-core/src/reconciliation/reconcile.ts\<close>. Claims are untrusted and untyped; they
  are compared with the authoritative set and never change it.
\<close>

section \<open>Values\<close>

record ClaimedChange =
  cl_path :: string
  cl_kind :: ChangeKind

record Disagreement =
  dg_path :: string
  dg_detail :: string

datatype claims_state = Claims_present | Claims_absent | Claims_malformed

record Reconciliation =
  rc_agreement :: bool
  rc_claims :: claims_state
  rc_claimed :: "ClaimedChange list"
  rc_disagreements :: "Disagreement list"

text \<open>
  The claim set as parsed from a run: absent (\<^verbatim>\<open>undefined\<close> or \<^verbatim>\<open>null\<close>), not an array, or an array
  whose entries are not objects or carry a path and a kind that are strings or not.
\<close>

datatype claim_entry =
    Entry_not_object
  | Entry "string option" "string option"

datatype claims_raw =
    No_claims
  | Claims_not_array
  | Claims_array "claim_entry list"

fun kind_text :: "ChangeKind \<Rightarrow> string" where
  "kind_text Created = ''created''"
| "kind_text Modified = ''modified''"
| "kind_text Deleted = ''deleted''"

definition CHANGE_KINDS :: "(string \<times> ChangeKind) list" where
  "CHANGE_KINDS =
     [(''created'', Created), (''modified'', Modified), (''deleted'', Deleted)]"

section \<open>The operation\<close>

fun parse_claim :: "claim_entry \<Rightarrow> ClaimedChange option" where
  "parse_claim (Entry (Some path) (Some kind)) =
     (if length path = 0 then None
      else
        (case map_of CHANGE_KINDS kind of
           None \<Rightarrow> None
         | Some k \<Rightarrow> Some \<lparr>cl_path = path, cl_kind = k\<rparr>))"
| "parse_claim _ = None"

fun parse_entries :: "claim_entry list \<Rightarrow> ClaimedChange list option" where
  "parse_entries [] = Some []"
| "parse_entries (e # es) =
     (case parse_claim e of
        None \<Rightarrow> None
      | Some c \<Rightarrow> (case parse_entries es of None \<Rightarrow> None | Some cs \<Rightarrow> Some (c # cs)))"

fun parseClaims :: "claims_raw \<Rightarrow> ClaimedChange list option" where
  "parseClaims (Claims_array es) = parse_entries es"
| "parseClaims _ = None"

definition keyOf :: "string \<Rightarrow> ChangeKind \<Rightarrow> string" where
  "keyOf path kind = template [kind_text kind, '' '', path]"

definition observed_key :: "ObservedChange \<Rightarrow> string" where
  "observed_key c = keyOf (oc_path c) (oc_kind c)"

definition claimed_key :: "ClaimedChange \<Rightarrow> string" where
  "claimed_key c = keyOf (cl_path c) (cl_kind c)"

text \<open>A \<^verbatim>\<open>Map\<close> built from pairs keeps the last value of a key.\<close>

definition last_kind :: "ObservedChange list \<Rightarrow> string \<rightharpoonup> ChangeKind" where
  "last_kind changes = map_of (rev (map (\<lambda>c. (oc_path c, oc_kind c)) changes))"

definition claim_disagreement :: "ObservedChange list \<Rightarrow> ClaimedChange \<Rightarrow> Disagreement" where
  "claim_disagreement changes c =
     \<lparr>dg_path = cl_path c,
      dg_detail =
        (case last_kind changes (cl_path c) of
           None \<Rightarrow> ''claimed but not observed''
         | Some observedKind \<Rightarrow>
             template [''divergent kind: claimed '', quoted (kind_text (cl_kind c)),
               '', observed '', quoted (kind_text observedKind), '' '', em_dash,
               '' the observed kind is authoritative''])\<rparr>"

definition disagreements_of ::
  "ObservedChange list \<Rightarrow> ClaimedChange list \<Rightarrow> Disagreement list" where
  "disagreements_of changes claimed =
     map (claim_disagreement changes)
       (filter (\<lambda>c. claimed_key c \<notin> observed_key ` set changes) claimed) @
     map (\<lambda>c. \<lparr>dg_path = oc_path c, dg_detail = ''observed but not claimed''\<rparr>)
       (filter (\<lambda>c. observed_key c \<notin> claimed_key ` set claimed \<and>
                    oc_path c \<notin> cl_path ` set claimed) changes)"

text \<open>The authoritative set is \<open>None\<close> when an untyped caller's value has no change list.\<close>

definition reconcileClaims :: "ObservedChange list option \<Rightarrow> claims_raw \<Rightarrow> Reconciliation" where
  "reconcileClaims authoritativeInput claimedRaw =
     (let changes = (case authoritativeInput of Some cs \<Rightarrow> cs | None \<Rightarrow> []) in
      if claimedRaw = No_claims then
        \<lparr>rc_agreement = False, rc_claims = Claims_absent, rc_claimed = [],
         rc_disagreements =
           map (\<lambda>c. \<lparr>dg_path = oc_path c,
                     dg_detail = ''observed but not claimed (claim set absent)''\<rparr>) changes\<rparr>
      else
        (case parseClaims claimedRaw of
           None \<Rightarrow>
             \<lparr>rc_agreement = False, rc_claims = Claims_malformed, rc_claimed = [],
              rc_disagreements =
                [\<lparr>dg_path = ''(claim set)'',
                  dg_detail = ''claimed change set is malformed; observation authoritative''\<rparr>]\<rparr>
         | Some claimed \<Rightarrow>
             let disagreements = disagreements_of changes claimed in
             \<lparr>rc_agreement = (length disagreements = 0), rc_claims = Claims_present,
              rc_claimed =
                canonicalSort (\<lambda>c. template [cl_path c, '':'', kind_text (cl_kind c)]) claimed,
              rc_disagreements = canonicalSort dg_path disagreements\<rparr>))"

section \<open>Lemmas\<close>

lemma kind_text_no_space: "CHR '' '' \<notin> set (kind_text k)"
  by (cases k) auto

text \<open>The textual key determines the kind and the path: no kind holds a space.\<close>

lemma keyOf_inj [simp]: "keyOf p k = keyOf q l \<longleftrightarrow> p = q \<and> k = l"
proof
  assume eq: "keyOf p k = keyOf q l"
  have split: "split_at_char (CHR '' '') (keyOf r m) = kind_text m # split_at_char (CHR '' '') r"
    for r m
    by (simp add: keyOf_def template_def split_at_char_append kind_text_no_space)
  have "kind_text k # split_at_char (CHR '' '') p = kind_text l # split_at_char (CHR '' '') q"
    using split[of p k] split[of q l] eq by simp
  then have kinds: "kind_text k = kind_text l"
      and pieces: "split_at_char (CHR '' '') p = split_at_char (CHR '' '') q"
    by simp_all
  have "k = l" using kinds by (cases k; cases l) simp_all
  moreover have "p = q"
    using arg_cong[OF pieces, of "join [CHR '' '']"] unfolding join_split .
  ultimately show "p = q \<and> k = l" by simp
qed simp

lemma claimed_in_observed:
  "claimed_key c \<in> observed_key ` set changes \<longleftrightarrow>
   (cl_path c, cl_kind c) \<in> (\<lambda>ob. (oc_path ob, oc_kind ob)) ` set changes"
  by (auto simp: claimed_key_def observed_key_def image_iff)

lemma observed_in_claimed:
  "observed_key ob \<in> claimed_key ` set claimed \<longleftrightarrow>
   (oc_path ob, oc_kind ob) \<in> (\<lambda>c. (cl_path c, cl_kind c)) ` set claimed"
  by (auto simp: claimed_key_def observed_key_def image_iff)

lemma disagreements_empty:
  "disagreements_of changes claimed = [] \<longleftrightarrow>
   (\<forall>c \<in> set claimed. claimed_key c \<in> observed_key ` set changes) \<and>
   (\<forall>ob \<in> set changes. observed_key ob \<in> claimed_key ` set claimed \<or>
      oc_path ob \<in> cl_path ` set claimed)"
  by (auto simp: disagreements_of_def filter_empty_conv)

text \<open>The kind observed last is the only one when paths are distinct.\<close>

lemma last_kind_distinct:
  assumes "distinct (map oc_path changes)" and "ob \<in> set changes"
  shows "last_kind changes (oc_path ob) = Some (oc_kind ob)"
proof -
  let ?ps = "rev (map (\<lambda>c. (oc_path c, oc_kind c)) changes)"
  have "distinct (map fst ?ps)" using assms(1) by (simp add: rev_map[symmetric] comp_def)
  moreover have "(oc_path ob, oc_kind ob) \<in> set ?ps" using assms(2) by auto
  ultimately show ?thesis unfolding last_kind_def by (rule map_of_is_SomeI)
qed

lemma last_kind_None: "last_kind changes p = None \<longleftrightarrow> p \<notin> oc_path ` set changes"
  by (auto simp: last_kind_def map_of_eq_None_iff image_iff)

section \<open>Properties\<close>

text \<open>
  For an observation with one change per path, reconciliation reports agreement
  exactly when a well-formed claim set is present and claims the same changes, as sets of paths
  with their kinds, in any order and multiplicity.
\<close>

theorem agreement_iff_same_changes:
  assumes "distinct (map oc_path changes)"
  shows "rc_agreement (reconcileClaims (Some changes) raw) \<longleftrightarrow>
    (\<exists>claimed. parseClaims raw = Some claimed \<and>
       (\<lambda>c. (cl_path c, cl_kind c)) ` set claimed = (\<lambda>ob. (oc_path ob, oc_kind ob)) ` set changes)"
proof -
  have core: "disagreements_of changes claimed = [] \<longleftrightarrow>
      (\<lambda>c. (cl_path c, cl_kind c)) ` set claimed = (\<lambda>ob. (oc_path ob, oc_kind ob)) ` set changes"
    (is "_ \<longleftrightarrow> ?C = ?O") for claimed
  proof
    assume "?C = ?O"
    then show "disagreements_of changes claimed = []"
      unfolding disagreements_empty claimed_in_observed observed_in_claimed by blast
  next
    assume "disagreements_of changes claimed = []"
    then have 1: "?C \<subseteq> ?O"
      and 2: "\<forall>ob \<in> set changes. (oc_path ob, oc_kind ob) \<in> ?C \<or> oc_path ob \<in> cl_path ` set claimed"
      unfolding disagreements_empty claimed_in_observed observed_in_claimed by blast+
    have "(oc_path ob, oc_kind ob) \<in> ?C" if ob: "ob \<in> set changes" for ob
    proof (rule ccontr)
      assume not: "(oc_path ob, oc_kind ob) \<notin> ?C"
      then have "oc_path ob \<in> cl_path ` set claimed" using 2 ob by blast
      then obtain c where c: "c \<in> set claimed" "cl_path c = oc_path ob" by auto
      then have "(oc_path ob, cl_kind c) \<in> ?O" using 1 by force
      then obtain ob' where "ob' \<in> set changes" "oc_path ob' = oc_path ob" "oc_kind ob' = cl_kind c"
        by auto
      then have "ob' = ob" using assms ob by (auto simp: distinct_map inj_on_def)
      then show False using not c \<open>oc_kind ob' = cl_kind c\<close> by force
    qed
    with 1 show "?C = ?O" by blast
  qed
  show ?thesis
  proof (cases "parseClaims raw")
    case None
    then show ?thesis by (cases raw) (auto simp: reconcileClaims_def Let_def)
  next
    case (Some claimed)
    then have "raw \<noteq> No_claims" by auto
    with Some show ?thesis by (simp add: reconcileClaims_def Let_def core)
  qed
qed

definition sample_changes :: "ObservedChange list" where
  "sample_changes = [change_at ''docs/a'', change_at ''docs/b'']"

definition claim_modified :: "string \<Rightarrow> claim_entry" where
  "claim_modified path = Entry (Some path) (Some ''modified'')"

lemma agreement_iff_same_changes_witness:
  "rc_agreement (reconcileClaims (Some sample_changes)
     (Claims_array [claim_modified ''docs/b'', claim_modified ''docs/a'']))"
proof -
  have "distinct (map oc_path sample_changes)" by code_simp
  note iff = agreement_iff_same_changes[OF this]
  have "parseClaims (Claims_array [claim_modified ''docs/b'', claim_modified ''docs/a'']) =
      Some [\<lparr>cl_path = ''docs/b'', cl_kind = Modified\<rparr>, \<lparr>cl_path = ''docs/a'', cl_kind = Modified\<rparr>]"
    by code_simp
  moreover have "(\<lambda>c. (cl_path c, cl_kind c)) `
      set [\<lparr>cl_path = ''docs/b'', cl_kind = Modified\<rparr>, \<lparr>cl_path = ''docs/a'', cl_kind = Modified\<rparr>] =
      (\<lambda>ob. (oc_path ob, oc_kind ob)) ` set sample_changes"
    by code_simp
  ultimately show ?thesis using iff by blast
qed

text \<open>
  Without that condition a change can be lost: when the host reports one path twice
  with different kinds and a claim names one of them, the other is neither claimed nor reported
  as a disagreement, and the reconciliation says agreement.
\<close>

theorem duplicate_observation_hides_unclaimed_change:
  "reconcileClaims
     (Some [change_at ''docs/a'', (change_at ''docs/a'')\<lparr>oc_kind := Deleted\<rparr>])
     (Claims_array [claim_modified ''docs/a'']) =
   \<lparr>rc_agreement = True, rc_claims = Claims_present,
    rc_claimed = [\<lparr>cl_path = ''docs/a'', cl_kind = Modified\<rparr>], rc_disagreements = []\<rparr>"
  by code_simp

text \<open>
  The comparison does not depend on the presentation order: permuting the
  observed changes (one per path) and the claims keeps the agreement, and the recorded
  disagreements are the same up to the order of equal paths.
\<close>

theorem reconcile_order_independent:
  assumes "mset changes = mset changes'" and "distinct (map oc_path changes)"
    and "parseClaims raw = Some claimed" and "parseClaims raw' = Some claimed'"
    and "mset claimed = mset claimed'"
  shows "rc_agreement (reconcileClaims (Some changes) raw) =
      rc_agreement (reconcileClaims (Some changes') raw') \<and>
    mset (rc_disagreements (reconcileClaims (Some changes) raw)) =
      mset (rc_disagreements (reconcileClaims (Some changes') raw'))"
proof -
  have sets: "set changes' = set changes" "set claimed' = set claimed"
    using assms(1,5) mset_eq_setD by metis+
  have dist': "distinct (map oc_path changes')"
    using assms(1,2) by (metis mset_map mset_eq_imp_distinct_iff)
  have kinds: "last_kind changes' = last_kind changes"
  proof
    fix p
    show "last_kind changes' p = last_kind changes p"
    proof (cases "p \<in> oc_path ` set changes")
      case True
      then show ?thesis
        using last_kind_distinct[OF assms(2)] last_kind_distinct[OF dist'] sets by auto
    next
      case False
      then show ?thesis using last_kind_None[of changes p] last_kind_None[of changes' p] sets by simp
    qed
  qed
  then have "claim_disagreement changes' = claim_disagreement changes"
    by (simp add: claim_disagreement_def fun_eq_iff)
  then have same: "mset (disagreements_of changes' claimed') = mset (disagreements_of changes claimed)"
    using assms(1,5) sets by (simp add: disagreements_of_def)
  then have "length (disagreements_of changes' claimed') = length (disagreements_of changes claimed)"
    by (metis size_mset)
  moreover have "raw \<noteq> No_claims" "raw' \<noteq> No_claims" using assms(3,4) by auto
  ultimately show ?thesis
    using assms(3,4) same by (simp add: reconcileClaims_def Let_def del: length_0_conv)
qed

lemma reconcile_order_independent_witness:
  "rc_agreement (reconcileClaims (Some [change_at ''a'', change_at ''b''])
       (Claims_array [claim_modified ''a'', claim_modified ''c''])) =
     rc_agreement (reconcileClaims (Some [change_at ''b'', change_at ''a''])
       (Claims_array [claim_modified ''c'', claim_modified ''a''])) \<and>
   mset (rc_disagreements (reconcileClaims (Some [change_at ''a'', change_at ''b''])
       (Claims_array [claim_modified ''a'', claim_modified ''c'']))) =
     mset (rc_disagreements (reconcileClaims (Some [change_at ''b'', change_at ''a''])
       (Claims_array [claim_modified ''c'', claim_modified ''a''])))"
proof (rule reconcile_order_independent)
  show "parseClaims (Claims_array [claim_modified ''a'', claim_modified ''c'']) =
      Some [\<lparr>cl_path = ''a'', cl_kind = Modified\<rparr>, \<lparr>cl_path = ''c'', cl_kind = Modified\<rparr>]"
    by code_simp
  show "parseClaims (Claims_array [claim_modified ''c'', claim_modified ''a'']) =
      Some [\<lparr>cl_path = ''c'', cl_kind = Modified\<rparr>, \<lparr>cl_path = ''a'', cl_kind = Modified\<rparr>]"
    by code_simp
qed (simp_all add: change_at_def)

end
