(* ===== verification/Contracts.thy ===== *)
theory Contracts
  imports Eligibility Reconcile
begin

text \<open>
  The contract shapes the evidence is made of, as records with their schemas as predicates:
  \<^verbatim>\<open>packages/events/src/evidence.ts\<close>, \<^verbatim>\<open>run-record.ts\<close>, \<^verbatim>\<open>run-events.ts\<close>,
  \<^verbatim>\<open>early-termination-record.ts\<close> and the primitives of \<^verbatim>\<open>packages/contracts/src/primitives\<close>.
  The record types carry the structure (which members there are, the closed vocabularies);
  the predicates carry what the schemas check of the values.

  Parameters: \<open>datetime\<close>, the date-time format test of the schema library, and \<open>report\<close>, the texts
  of the issues it reports for a value that fails.
\<close>

section \<open>Identities\<close>

definition is_hex :: "char \<Rightarrow> bool" where
  "is_hex c \<longleftrightarrow> is_digit c \<or> (CHR ''a'' \<le> c \<and> c \<le> CHR ''f'')"

definition is_kebab :: "char \<Rightarrow> bool" where
  "is_kebab c \<longleftrightarrow> is_lower c \<or> is_digit c \<or> c = CHR ''-''"

text \<open>\<^verbatim>\<open>/^sha256:[0-9a-f]{64}$/\<close>\<close>

definition Digest :: "string \<Rightarrow> bool" where
  "Digest s \<longleftrightarrow> take 7 s = ''sha256:'' \<and> length (drop 7 s) = 64 \<and> list_all is_hex (drop 7 s)"

text \<open>\<^verbatim>\<open>/^[a-z][a-z0-9-]{0,63}$/\<close>: profile names, adapter identities, contract identities.\<close>

fun kebab_name :: "string \<Rightarrow> bool" where
  "kebab_name [] = False"
| "kebab_name (c # cs) = (is_lower c \<and> length cs \<le> 63 \<and> list_all is_kebab cs)"

definition AdapterId :: "string \<Rightarrow> bool" where
  "AdapterId s = kebab_name s"

text \<open>\<^verbatim>\<open>/^[a-z0-9][a-z0-9-]{0,127}$/\<close>\<close>

fun RunId :: "string \<Rightarrow> bool" where
  "RunId [] = False"
| "RunId (c # cs) = ((is_lower c \<or> is_digit c) \<and> length cs \<le> 127 \<and> list_all is_kebab cs)"

definition CallId :: "string \<Rightarrow> bool" where
  "CallId s = RunId s"

text \<open>\<^verbatim>\<open>(0|[1-9]\d*)\<close>, and three of them between dots.\<close>

fun numeral :: "string \<Rightarrow> bool" where
  "numeral [] = False"
| "numeral (c # cs) =
     (if c = CHR ''0'' then cs = [] else is_digit c \<and> list_all is_digit cs)"

definition SemVer :: "string \<Rightarrow> bool" where
  "SemVer s =
     (let parts = split_at_char (CHR ''.'') s in length parts = 3 \<and> list_all numeral parts)"

text \<open>\<^verbatim>\<open>/^[A-Z][A-Z0-9_]*$/\<close>\<close>

definition is_upper :: "char \<Rightarrow> bool" where
  "is_upper c \<longleftrightarrow> CHR ''A'' \<le> c \<and> c \<le> CHR ''Z''"

fun EnvName :: "string \<Rightarrow> bool" where
  "EnvName [] = False"
| "EnvName (c # cs) =
     (is_upper c \<and> list_all (\<lambda>d. is_upper d \<or> is_digit d \<or> d = CHR ''_'') cs)"

text \<open>\<^verbatim>\<open>/^[a-z0-9]([a-z0-9.-]{0,251}[a-z0-9])?$/\<close>\<close>

definition hostname :: "string \<Rightarrow> bool" where
  "hostname s \<longleftrightarrow>
     (let alnum = (\<lambda>c. is_lower c \<or> is_digit c) in
      s \<noteq> [] \<and> alnum (hd s) \<and> alnum (last s) \<and> length s \<le> 253 \<and>
      list_all (\<lambda>c. alnum c \<or> c \<in> set ''.-'') (tl s))"

fun nonempty :: "'a list \<Rightarrow> bool" where
  "nonempty [] = False"
| "nonempty (_ # _) = True"

record ProfileIdentity =
  pi_name :: string
  pi_version :: string
  pi_digest :: string

definition valid_ProfileIdentity :: "ProfileIdentity \<Rightarrow> bool" where
  "valid_ProfileIdentity i \<longleftrightarrow>
     kebab_name (pi_name i) \<and> SemVer (pi_version i) \<and> Digest (pi_digest i)"

definition valid_ProfileRef :: "ProfileRef \<Rightarrow> bool" where
  "valid_ProfileRef r \<longleftrightarrow> kebab_name (prf_name r) \<and> SemVer (prf_version r)"

text \<open>An authority identity whose contract id is the given literal.\<close>

definition valid_AuthorityIdentity :: "string \<Rightarrow> CapturedIdentity \<Rightarrow> bool" where
  "valid_AuthorityIdentity cid i \<longleftrightarrow>
     ci_contract_id i = cid \<and> SemVer (ci_contract_version i) \<and> Digest (ci_digest i)"

section \<open>Grants and principals\<close>

definition valid_Mount :: "Mount \<Rightarrow> bool" where
  "valid_Mount m \<longleftrightarrow> prefix ''/'' (mo_path m)"

definition valid_Destination :: "Destination \<Rightarrow> bool" where
  "valid_Destination d \<longleftrightarrow> hostname (de_host d) \<and> 1 \<le> de_port d \<and> de_port d \<le> 65535"

definition valid_CapabilityGrant :: "CapabilityGrant \<Rightarrow> bool" where
  "valid_CapabilityGrant g \<longleftrightarrow>
     list_all nonempty (cg_tools g) \<and> list_all valid_Mount (cg_mounts g) \<and>
     list_all valid_Destination (cg_granted_destinations g) \<and>
     list_all EnvName (cg_credentials g)"

datatype Acting = Actor string | Autonomous

record Principal =
  pl_sub :: string
  pl_acting :: Acting

definition valid_Principal :: "Principal \<Rightarrow> bool" where
  "valid_Principal p \<longleftrightarrow>
     nonempty (pl_sub p) \<and> (case pl_acting p of Actor s \<Rightarrow> nonempty s | Autonomous \<Rightarrow> True)"

section \<open>Outcomes\<close>

datatype TerminalState =
  COMPLETED | REFUSED | OPERATIONAL_FAILURE | CANCELLED | TIMED_OUT | INDETERMINATE

fun TERMINAL_SUCCESS :: "TerminalState \<Rightarrow> bool" where
  "TERMINAL_SUCCESS COMPLETED = True"
| "TERMINAL_SUCCESS REFUSED = False"
| "TERMINAL_SUCCESS OPERATIONAL_FAILURE = False"
| "TERMINAL_SUCCESS CANCELLED = False"
| "TERMINAL_SUCCESS TIMED_OUT = False"
| "TERMINAL_SUCCESS INDETERMINATE = False"

text \<open>
  The discriminated union: the failure class of \<^verbatim>\<open>REFUSED\<close> is always \<^verbatim>\<open>contract_refusal\<close> and that
  of \<^verbatim>\<open>OPERATIONAL_FAILURE\<close> always \<^verbatim>\<open>operational\<close>, so the constructors carry the detail only.
\<close>

datatype RunOutcome =
    CompletedOutcome
  | RefusedOutcome string
  | OperationalFailureOutcome string
  | CancelledOutcome string
  | TimedOutOutcome string
  | IndeterminateOutcome string

fun terminal_state :: "RunOutcome \<Rightarrow> TerminalState" where
  "terminal_state CompletedOutcome = COMPLETED"
| "terminal_state (RefusedOutcome _) = REFUSED"
| "terminal_state (OperationalFailureOutcome _) = OPERATIONAL_FAILURE"
| "terminal_state (CancelledOutcome _) = CANCELLED"
| "terminal_state (TimedOutOutcome _) = TIMED_OUT"
| "terminal_state (IndeterminateOutcome _) = INDETERMINATE"

fun valid_EarlyTerminationOutcome :: "RunOutcome \<Rightarrow> bool" where
  "valid_EarlyTerminationOutcome CompletedOutcome = False"
| "valid_EarlyTerminationOutcome (RefusedOutcome d) = nonempty d"
| "valid_EarlyTerminationOutcome (OperationalFailureOutcome d) = nonempty d"
| "valid_EarlyTerminationOutcome (CancelledOutcome d) = nonempty d"
| "valid_EarlyTerminationOutcome (TimedOutOutcome d) = nonempty d"
| "valid_EarlyTerminationOutcome (IndeterminateOutcome d) = nonempty d"

definition valid_RunOutcome :: "RunOutcome \<Rightarrow> bool" where
  "valid_RunOutcome out \<longleftrightarrow> out = CompletedOutcome \<or> valid_EarlyTerminationOutcome out"

fun terminal_text :: "TerminalState \<Rightarrow> string" where
  "terminal_text COMPLETED = ''COMPLETED''"
| "terminal_text REFUSED = ''REFUSED''"
| "terminal_text OPERATIONAL_FAILURE = ''OPERATIONAL_FAILURE''"
| "terminal_text CANCELLED = ''CANCELLED''"
| "terminal_text TIMED_OUT = ''TIMED_OUT''"
| "terminal_text INDETERMINATE = ''INDETERMINATE''"

section \<open>The evidence bundle\<close>

record OperationRecord =
  or_name :: string
  or_target :: "string option"

record EvidenceOperation =
  eo_call_id :: string
  eo_operation :: OperationRecord

record EvidenceOperations =
  eos_attempted :: "EvidenceOperation list"
  eos_permitted :: "EvidenceOperation list"
  eos_denied :: "EvidenceOperation list"

datatype GateDisposition = PASS | FAIL | SKIP_OK | SKIP_ENV

record GateOutcome =
  go_disposition :: GateDisposition
  go_truncated :: bool
  go_reason :: "string option"

type_synonym GateResults = "(string \<times> GateOutcome) list"

record ArtifactEntry =
  ae_path :: string
  ae_digest :: string
  ae_bytes :: nat

record EvidenceIdentities =
  ei_run_id :: string
  ei_profile :: ProfileIdentity
  ei_image_digest :: string
  ei_argv_digest :: string
  ei_path_policy :: CapturedIdentity
  ei_gate_registry :: CapturedIdentity
  ei_runtime :: string
  ei_provider :: string
  ei_adapter :: string

text \<open>A file change of the bundle is a path with its kind; the claimed ones have the same shape.\<close>

record ChangeSets =
  cs_observed :: "ClaimedChange list"
  cs_claimed :: "ClaimedChange list"
  cs_agreement :: bool
  cs_disagreements :: "Disagreement list"

text \<open>The duration in milliseconds; the record prints it divided by 1000.\<close>

record EvidenceTiming =
  et_started_at :: string
  et_finished_at :: string
  et_duration_milliseconds :: int

record EvidenceBundle =
  eb_contract_id :: string
  eb_contract_version :: string
  eb_identities :: EvidenceIdentities
  eb_principal :: Principal
  eb_granted_capabilities :: CapabilityGrant
  eb_operations :: EvidenceOperations
  eb_gate_results :: GateResults
  eb_artifacts :: "ArtifactEntry list"
  eb_change_sets :: ChangeSets
  eb_outcome :: RunOutcome
  eb_timing :: EvidenceTiming

section \<open>Its schema\<close>

fun optional_nonempty :: "string option \<Rightarrow> bool" where
  "optional_nonempty None = True"
| "optional_nonempty (Some s) = nonempty s"

definition valid_EvidenceOperation :: "EvidenceOperation \<Rightarrow> bool" where
  "valid_EvidenceOperation e \<longleftrightarrow>
     CallId (eo_call_id e) \<and> nonempty (or_name (eo_operation e)) \<and>
     optional_nonempty (or_target (eo_operation e))"

definition valid_GateOutcome :: "GateOutcome \<Rightarrow> bool" where
  "valid_GateOutcome g \<longleftrightarrow>
     (if go_disposition g = FAIL
      then (case go_reason g of Some r \<Rightarrow> nonempty r | None \<Rightarrow> False)
      else \<not> go_truncated g \<and> optional_nonempty (go_reason g))"

definition valid_GateResults :: "GateResults \<Rightarrow> bool" where
  "valid_GateResults rs \<longleftrightarrow> list_all (\<lambda>(g, out). GateId g \<and> valid_GateOutcome out) rs"

definition valid_ArtifactEntry :: "ArtifactEntry \<Rightarrow> bool" where
  "valid_ArtifactEntry a \<longleftrightarrow> nonempty (ae_path a) \<and> Digest (ae_digest a)"

definition valid_EvidenceIdentities :: "EvidenceIdentities \<Rightarrow> bool" where
  "valid_EvidenceIdentities i \<longleftrightarrow>
     RunId (ei_run_id i) \<and> valid_ProfileIdentity (ei_profile i) \<and>
     Digest (ei_image_digest i) \<and> Digest (ei_argv_digest i) \<and>
     valid_AuthorityIdentity ''path-policy'' (ei_path_policy i) \<and>
     valid_AuthorityIdentity ''gate-registry'' (ei_gate_registry i) \<and>
     nonempty (ei_runtime i) \<and> nonempty (ei_provider i) \<and> AdapterId (ei_adapter i)"

definition valid_ChangeSets :: "ChangeSets \<Rightarrow> bool" where
  "valid_ChangeSets c \<longleftrightarrow>
     list_all (\<lambda>f. nonempty (cl_path f)) (cs_observed c) \<and>
     list_all (\<lambda>f. nonempty (cl_path f)) (cs_claimed c) \<and>
     list_all (\<lambda>d. nonempty (dg_path d) \<and> nonempty (dg_detail d)) (cs_disagreements c)"

definition valid_EvidenceTiming :: "(string \<Rightarrow> bool) \<Rightarrow> EvidenceTiming \<Rightarrow> bool" where
  "valid_EvidenceTiming datetime t \<longleftrightarrow>
     datetime (et_started_at t) \<and> datetime (et_finished_at t) \<and> 0 \<le> et_duration_milliseconds t"

definition valid_EvidenceBundle :: "(string \<Rightarrow> bool) \<Rightarrow> EvidenceBundle \<Rightarrow> bool" where
  "valid_EvidenceBundle datetime b \<longleftrightarrow>
     eb_contract_id b = ''evidence-bundle'' \<and> eb_contract_version b = ''2.0.0'' \<and>
     valid_EvidenceIdentities (eb_identities b) \<and> valid_Principal (eb_principal b) \<and>
     valid_CapabilityGrant (eb_granted_capabilities b) \<and>
     list_all valid_EvidenceOperation (eos_attempted (eb_operations b)) \<and>
     list_all valid_EvidenceOperation (eos_permitted (eb_operations b)) \<and>
     list_all valid_EvidenceOperation (eos_denied (eb_operations b)) \<and>
     valid_GateResults (eb_gate_results b) \<and>
     list_all valid_ArtifactEntry (eb_artifacts b) \<and>
     valid_ChangeSets (eb_change_sets b) \<and> valid_RunOutcome (eb_outcome b) \<and>
     valid_EvidenceTiming datetime (eb_timing b)"

text \<open>\<^verbatim>\<open>EvidenceBundle.safeParse\<close>: the value itself, or the reported issues.\<close>

definition parse_EvidenceBundle ::
  "(string \<Rightarrow> bool) \<Rightarrow> (EvidenceBundle \<Rightarrow> Issue list) \<Rightarrow> EvidenceBundle \<Rightarrow>
   EvidenceBundle schema_result" where
  "parse_EvidenceBundle datetime report b =
     (if valid_EvidenceBundle datetime b then Schema_ok b else Schema_issues (report b))"

lemma parse_EvidenceBundle_ok [simp]:
  "parse_EvidenceBundle datetime report b = Schema_ok b' \<longleftrightarrow> b' = b \<and> valid_EvidenceBundle datetime b"
  by (auto simp: parse_EvidenceBundle_def)

section \<open>The early-termination record\<close>

record EarlyTerminationRecord =
  etr_contract_id :: string
  etr_contract_version :: string
  etr_run_id :: string
  etr_requester :: Principal
  etr_requested_profile :: "ProfileRef option"
  etr_outcome :: RunOutcome
  etr_timing :: EvidenceTiming

definition valid_EarlyTerminationRecord :: "(string \<Rightarrow> bool) \<Rightarrow> EarlyTerminationRecord \<Rightarrow> bool" where
  "valid_EarlyTerminationRecord datetime r \<longleftrightarrow>
     etr_contract_id r = ''early-termination-record'' \<and> etr_contract_version r = ''1.0.0'' \<and>
     RunId (etr_run_id r) \<and> valid_Principal (etr_requester r) \<and>
     (case etr_requested_profile r of None \<Rightarrow> True | Some p \<Rightarrow> valid_ProfileRef p) \<and>
     valid_EarlyTerminationOutcome (etr_outcome r) \<and> valid_EvidenceTiming datetime (etr_timing r)"

text \<open>
  A gate outcome that validates is truncated only as a failure with a reason, and
  an early-termination record that validates never carries a success: the two shapes keep what
  their unions promise.
\<close>

theorem validated_shapes_cannot_overclaim:
  "(valid_GateOutcome g \<and> go_truncated g \<longrightarrow>
      go_disposition g = FAIL \<and> (\<exists>r. go_reason g = Some r \<and> r \<noteq> [])) \<and>
   (valid_EarlyTerminationRecord datetime r \<longrightarrow> \<not> TERMINAL_SUCCESS (terminal_state (etr_outcome r)))"
proof -
  have "valid_EarlyTerminationOutcome out \<longrightarrow> \<not> TERMINAL_SUCCESS (terminal_state out)" for out
    by (cases out) auto
  then show ?thesis
    by (auto simp: valid_GateOutcome_def valid_EarlyTerminationRecord_def
        split: if_splits option.splits)
qed

definition truncated_gate :: GateOutcome where
  "truncated_gate = \<lparr>go_disposition = FAIL, go_truncated = True, go_reason = Some ''cut''\<rparr>"

definition zero_digest :: string where
  "zero_digest = ''sha256:'' @ replicate 64 (CHR ''0'')"

lemma identity_examples:
  "Digest zero_digest" "SemVer ''1.20.3''" "\<not> SemVer ''01.2.3''" "RunId ''run-1''"
  "\<not> RunId ''Run''" "AdapterId ''deterministic''" "hostname ''a.example''" "\<not> hostname ''a-''"
  "EnvName ''API_KEY''"
  by code_simp+


definition sample_principal :: Principal where
  "sample_principal = \<lparr>pl_sub = ''human:ada'', pl_acting = Autonomous\<rparr>"

definition sample_timing :: EvidenceTiming where
  "sample_timing = \<lparr>et_started_at = ''t0'', et_finished_at = ''t1'', et_duration_milliseconds = 5\<rparr>"

definition refused_record :: EarlyTerminationRecord where
  "refused_record =
     \<lparr>etr_contract_id = ''early-termination-record'', etr_contract_version = ''1.0.0'',
      etr_run_id = ''run-1'', etr_requester = sample_principal, etr_requested_profile = None,
      etr_outcome = RefusedOutcome ''no profile'', etr_timing = sample_timing\<rparr>"

lemma validated_shapes_cannot_overclaim_witness:
  "go_disposition truncated_gate = FAIL \<and>
   \<not> TERMINAL_SUCCESS (terminal_state (etr_outcome refused_record))"
proof -
  have "valid_GateOutcome truncated_gate \<and> go_truncated truncated_gate" by code_simp
  moreover have "valid_EarlyTerminationRecord (\<lambda>_. True) refused_record" by code_simp
  ultimately show ?thesis using validated_shapes_cannot_overclaim by blast
qed

end
