(* ===== verification/Lifecycle.thy ===== *)
theory Lifecycle
  imports Contracts
begin

text \<open>
  The lifecycle of a run: the closed vocabulary and the declared transition table of
  \<^verbatim>\<open>services/runner-control/src/lifecycle/states.ts\<close> and \<^verbatim>\<open>transitions.ts\<close>, and the total
  transition function with its single writer, \<^verbatim>\<open>machine.ts\<close>.

  The machine is an explicit state; the clock is the sequence of the answers its reads get.
  A commit capability is an object: it has an identity, which a forged copy of its contents
  does not share.
\<close>

section \<open>States\<close>

text \<open>\<^verbatim>\<open>COMPLETED\<close> is listed both as the end of the progress states and as a terminal.\<close>

datatype LifecycleState =
    REQUESTED
  | PROFILE_RESOLVED
  | ELIGIBLE
  | SANDBOX_STARTED
  | RUNNING
  | VERIFYING
  | EVIDENCE_SEALED
  | Terminal TerminalState

fun state_text :: "LifecycleState \<Rightarrow> string" where
  "state_text REQUESTED = ''REQUESTED''"
| "state_text PROFILE_RESOLVED = ''PROFILE_RESOLVED''"
| "state_text ELIGIBLE = ''ELIGIBLE''"
| "state_text SANDBOX_STARTED = ''SANDBOX_STARTED''"
| "state_text RUNNING = ''RUNNING''"
| "state_text VERIFYING = ''VERIFYING''"
| "state_text EVIDENCE_SEALED = ''EVIDENCE_SEALED''"
| "state_text (Terminal t) = terminal_text t"

definition PROGRESS_STATES :: "LifecycleState list" where
  "PROGRESS_STATES =
     [REQUESTED, PROFILE_RESOLVED, ELIGIBLE, SANDBOX_STARTED, RUNNING, VERIFYING,
      EVIDENCE_SEALED, Terminal COMPLETED]"

definition TERMINAL_STATES :: "LifecycleState list" where
  "TERMINAL_STATES =
     map Terminal [COMPLETED, REFUSED, OPERATIONAL_FAILURE, CANCELLED, TIMED_OUT, INDETERMINATE]"

definition isTerminal :: "LifecycleState \<Rightarrow> bool" where
  "isTerminal state \<longleftrightarrow> state \<in> set TERMINAL_STATES"

definition canConstructEvidence :: "LifecycleState \<Rightarrow> bool" where
  "canConstructEvidence state \<longleftrightarrow> state \<noteq> REQUESTED"

lemma isTerminal_iff [simp]: "isTerminal s \<longleftrightarrow> (\<exists>t. s = Terminal t)"
proof -
  have "t \<in> set [COMPLETED, REFUSED, OPERATIONAL_FAILURE, CANCELLED, TIMED_OUT, INDETERMINATE]" for t
    by (cases t) auto
  then show ?thesis by (auto simp: isTerminal_def TERMINAL_STATES_def)
qed

section \<open>The transition table\<close>

datatype TransitionKind =
    resolve_profile
  | decide_eligibility
  | commit_spend
  | begin_execution
  | begin_verification
  | seal_evidence
  | complete_run
  | refuse_run
  | operational_fault
  | cancel_run
  | timeout_run
  | indeterminate_run

fun transition_text :: "TransitionKind \<Rightarrow> string" where
  "transition_text resolve_profile = ''resolve_profile''"
| "transition_text decide_eligibility = ''decide_eligibility''"
| "transition_text commit_spend = ''commit_spend''"
| "transition_text begin_execution = ''begin_execution''"
| "transition_text begin_verification = ''begin_verification''"
| "transition_text seal_evidence = ''seal_evidence''"
| "transition_text complete_run = ''complete''"
| "transition_text refuse_run = ''refuse''"
| "transition_text operational_fault = ''operational_fault''"
| "transition_text cancel_run = ''cancel''"
| "transition_text timeout_run = ''timeout''"
| "transition_text indeterminate_run = ''indeterminate''"

definition TRANSITIONS_KINDS :: "TransitionKind list" where
  "TRANSITIONS_KINDS =
     [resolve_profile, decide_eligibility, commit_spend, begin_execution, begin_verification,
      seal_evidence, complete_run, refuse_run, operational_fault, cancel_run, timeout_run,
      indeterminate_run]"

type_synonym transition_row = "TransitionKind \<rightharpoonup> LifecycleState"
type_synonym TransitionTable = "LifecycleState \<Rightarrow> transition_row"

fun TERMINAL_BRANCHES :: transition_row where
  "TERMINAL_BRANCHES refuse_run = Some (Terminal REFUSED)"
| "TERMINAL_BRANCHES operational_fault = Some (Terminal OPERATIONAL_FAILURE)"
| "TERMINAL_BRANCHES cancel_run = Some (Terminal CANCELLED)"
| "TERMINAL_BRANCHES timeout_run = Some (Terminal TIMED_OUT)"
| "TERMINAL_BRANCHES indeterminate_run = Some (Terminal INDETERMINATE)"
| "TERMINAL_BRANCHES _ = None"

definition withTerminals :: "transition_row \<Rightarrow> transition_row" where
  "withTerminals progress = progress ++ TERMINAL_BRANCHES"

fun TRANSITIONS :: TransitionTable where
  "TRANSITIONS REQUESTED = withTerminals [resolve_profile \<mapsto> PROFILE_RESOLVED]"
| "TRANSITIONS PROFILE_RESOLVED = withTerminals [decide_eligibility \<mapsto> ELIGIBLE]"
| "TRANSITIONS ELIGIBLE = withTerminals [commit_spend \<mapsto> SANDBOX_STARTED]"
| "TRANSITIONS SANDBOX_STARTED = withTerminals [begin_execution \<mapsto> RUNNING]"
| "TRANSITIONS RUNNING = withTerminals [begin_verification \<mapsto> VERIFYING]"
| "TRANSITIONS VERIFYING = withTerminals [seal_evidence \<mapsto> EVIDENCE_SEALED]"
| "TRANSITIONS EVIDENCE_SEALED = withTerminals [complete_run \<mapsto> Terminal COMPLETED]"
| "TRANSITIONS (Terminal _) = Map.empty"

definition declaredNext ::
  "TransitionTable \<Rightarrow> LifecycleState \<Rightarrow> TransitionKind \<Rightarrow> LifecycleState option" where
  "declaredNext table state kind = table state kind"

section \<open>The machine\<close>

record TransitionEntry =
  te_run_id :: string
  te_from :: LifecycleState
  te_to :: LifecycleState
  te_kind :: TransitionKind
  te_cause :: string
  te_at :: string

datatype RejectionReason =
  undeclared_transition | terminal_state_reached | stale_writer | precondition_unmet | foreign_claim

record RejectionEntry =
  re_run_id :: string
  re_state :: LifecycleState
  re_attempted :: TransitionKind
  re_reason :: RejectionReason
  re_detail :: string
  re_at :: string

record CommitCapability =
  cc_identity :: nat
  cc_entries :: "TransitionEntry list"
  cc_fromVersion :: nat

record WriteClaim =
  wc_run_id :: string
  wc_version :: nat

record RunMachine =
  rm_runId :: string
  rm_table :: TransitionTable
  rm_clock :: "nat \<Rightarrow> string"
  rm_reads :: nat
  rm_transitions :: "TransitionEntry list"
  rm_rejections :: "RejectionEntry list"
  rm_state :: LifecycleState
  rm_version :: nat
  rm_journaledTransitions :: nat
  rm_projections :: "CommitCapability list"
  rm_journaledRejections :: nat

datatype TransitionResult =
    Advanced LifecycleState TransitionEntry
  | Rejected LifecycleState RejectionEntry

definition new_machine :: "string \<Rightarrow> (nat \<Rightarrow> string) \<Rightarrow> TransitionTable \<Rightarrow> RunMachine" where
  "new_machine runId clock table =
     \<lparr>rm_runId = runId, rm_table = table, rm_clock = clock, rm_reads = 0, rm_transitions = [],
      rm_rejections = [], rm_state = REQUESTED, rm_version = 0, rm_journaledTransitions = 0,
      rm_projections = [], rm_journaledRejections = 0\<rparr>"

text \<open>One read of the clock.\<close>

definition now :: "RunMachine \<Rightarrow> string" where
  "now m = rm_clock m (rm_reads m)"

definition permits :: "RunMachine \<Rightarrow> TransitionKind \<Rightarrow> bool" where
  "permits m kind \<longleftrightarrow>
     \<not> isTerminal (rm_state m) \<and> declaredNext (rm_table m) (rm_state m) kind \<noteq> None"

definition pendingJournal :: "RunMachine \<Rightarrow> TransitionEntry list \<times> RejectionEntry list" where
  "pendingJournal m =
     (drop (rm_journaledTransitions m) (rm_transitions m),
      drop (rm_journaledRejections m) (rm_rejections m))"

definition confirmJournaled :: "nat \<Rightarrow> nat \<Rightarrow> RunMachine \<Rightarrow> RunMachine" where
  "confirmJournaled transitions rejections m =
     m\<lparr>rm_journaledTransitions := rm_journaledTransitions m + transitions,
       rm_journaledRejections := rm_journaledRejections m + rejections\<rparr>"

definition claim_write :: "RunMachine \<Rightarrow> WriteClaim" where
  "claim_write m = \<lparr>wc_run_id = rm_runId m, wc_version = rm_version m\<rparr>"

definition reject ::
  "RunMachine \<Rightarrow> TransitionKind \<Rightarrow> RejectionReason \<Rightarrow> string \<Rightarrow> TransitionResult \<times> RunMachine" where
  "reject m attempted reason detail =
     (let entry =
        \<lparr>re_run_id = rm_runId m, re_state = rm_state m, re_attempted = attempted,
         re_reason = reason, re_detail = detail, re_at = now m\<rparr> in
      (Rejected (rm_state m) entry,
       m\<lparr>rm_rejections := rm_rejections m @ [entry], rm_reads := rm_reads m + 1\<rparr>))"

definition apply_claim ::
  "RunMachine \<Rightarrow> WriteClaim \<Rightarrow> TransitionKind \<Rightarrow> string \<Rightarrow> TransitionResult \<times> RunMachine" where
  "apply_claim m claim kind cause =
     (if wc_run_id claim \<noteq> rm_runId m then
        reject m kind foreign_claim
          (template [''the claim was taken for run '', wc_run_id claim,
             ''; this machine advances run '', rm_runId m])
      else if wc_version claim \<noteq> rm_version m then
        reject m kind stale_writer
          (template [''the run advanced to version '', string_of_int (int (rm_version m)),
             '' after this claim was taken at '', string_of_int (int (wc_version claim))])
      else if isTerminal (rm_state m) then
        reject m kind terminal_state_reached
          (template [state_text (rm_state m), '' is terminal and accepts no further transition''])
      else
        (case declaredNext (rm_table m) (rm_state m) kind of
           None \<Rightarrow>
             reject m kind undeclared_transition
               (template [''the machine declares no '', transition_text kind, '' transition for '',
                  state_text (rm_state m)])
         | Some next_state \<Rightarrow>
             let entry =
               \<lparr>te_run_id = rm_runId m, te_from = rm_state m, te_to = next_state, te_kind = kind,
                te_cause = cause, te_at = now m\<rparr> in
             (Advanced next_state entry,
              m\<lparr>rm_state := next_state, rm_version := rm_version m + 1,
                rm_transitions := rm_transitions m @ [entry], rm_reads := rm_reads m + 1\<rparr>)))"

definition hold :: "RunMachine \<Rightarrow> TransitionKind \<Rightarrow> string \<Rightarrow> TransitionResult \<times> RunMachine" where
  "hold m kind detail = reject m kind precondition_unmet detail"

definition advance_machine ::
  "RunMachine \<Rightarrow> TransitionKind \<Rightarrow> string \<Rightarrow> TransitionResult \<times> RunMachine" where
  "advance_machine m kind cause = apply_claim m (claim_write m) kind cause"

text \<open>
  The loop of \<^verbatim>\<open>project\<close>: the entries of the steps from a state, or the kind and the state at
  which they stop. The last component is the number of clock reads made.
\<close>

fun project_steps ::
  "RunMachine \<Rightarrow> LifecycleState \<Rightarrow> nat \<Rightarrow> (TransitionKind \<times> string) list \<Rightarrow>
   ((TransitionKind \<times> LifecycleState) + TransitionEntry list) \<times> nat" where
  "project_steps m state reads [] = (Inr [], reads)"
| "project_steps m state reads ((kind, cause) # steps) =
     (if isTerminal state then (Inl (kind, state), reads)
      else
        (case declaredNext (rm_table m) state kind of
           None \<Rightarrow> (Inl (kind, state), reads)
         | Some next_state \<Rightarrow>
             let entry =
               \<lparr>te_run_id = rm_runId m, te_from = state, te_to = next_state, te_kind = kind,
                te_cause = cause, te_at = rm_clock m reads\<rparr> in
             (case project_steps m next_state (reads + 1) steps of
                (Inl stop, r) \<Rightarrow> (Inl stop, r)
              | (Inr entries, r) \<Rightarrow> (Inr (entry # entries), r))))"

text \<open>\<^verbatim>\<open>project\<close>; \<open>identity\<close> is the identity of the object it creates.\<close>

definition project ::
  "RunMachine \<Rightarrow> nat \<Rightarrow> (TransitionKind \<times> string) list \<Rightarrow>
   ((TransitionKind \<times> LifecycleState) + CommitCapability) \<times> RunMachine" where
  "project m identity steps =
     (case project_steps m (rm_state m) (rm_reads m) steps of
        (Inl stop, reads) \<Rightarrow> (Inl stop, m\<lparr>rm_reads := reads\<rparr>)
      | (Inr entries, reads) \<Rightarrow>
          let capability =
            \<lparr>cc_identity = identity, cc_entries = entries, cc_fromVersion = rm_version m\<rparr> in
          (Inr capability,
           m\<lparr>rm_reads := reads, rm_projections := capability # rm_projections m\<rparr>))"

definition adopt :: "TransitionEntry \<Rightarrow> RunMachine \<Rightarrow> RunMachine" where
  "adopt entry m =
     m\<lparr>rm_transitions := rm_transitions m @ [entry], rm_state := te_to entry,
       rm_version := rm_version m + 1\<rparr>"

text \<open>
  \<^verbatim>\<open>commitProjected\<close>: the text of the error it throws, if it does, and the machine after it. A
  stale capability is already deleted when the second test throws.
\<close>

definition commitProjected :: "RunMachine \<Rightarrow> CommitCapability \<Rightarrow> string option \<times> RunMachine" where
  "commitProjected m capability =
     (if capability \<notin> set (rm_projections m) then
        (Some ''commitProjected requires a capability minted by project() on this machine; an unprojected entry list cannot advance it'', m)
      else
        let m1 = m\<lparr>rm_projections := filter (\<lambda>c. c \<noteq> capability) (rm_projections m)\<rparr> in
        if cc_fromVersion capability \<noteq> rm_version m1 then
          (Some (template [''this capability was projected from version '',
             string_of_int (int (cc_fromVersion capability)), '' and the machine is at '',
             string_of_int (int (rm_version m1)), ''; a stale projection cannot advance it'']), m1)
        else
          let m2 = fold adopt (cc_entries capability) m1 in
          (None,
           m2\<lparr>rm_journaledTransitions :=
                rm_journaledTransitions m2 + length (cc_entries capability)\<rparr>))"

section \<open>What each operation changes\<close>

lemma reject_frame [frame_simps]:
  "rm_state (snd (reject m k r d)) = rm_state m"
  "rm_version (snd (reject m k r d)) = rm_version m"
  "rm_transitions (snd (reject m k r d)) = rm_transitions m"
  "rm_projections (snd (reject m k r d)) = rm_projections m"
  "rm_table (snd (reject m k r d)) = rm_table m"
  "rm_runId (snd (reject m k r d)) = rm_runId m"
  "length (rm_rejections (snd (reject m k r d))) = length (rm_rejections m) + 1"
  by (simp_all add: reject_def Let_def)

lemma apply_claim_cases:
  obtains (rejected) reason detail where
    "apply_claim m claim kind cause = reject m kind reason detail"
  | (advanced) next_state entry where
    "wc_run_id claim = rm_runId m" "wc_version claim = rm_version m" "\<not> isTerminal (rm_state m)"
    "rm_table m (rm_state m) kind = Some next_state"
    "entry = \<lparr>te_run_id = rm_runId m, te_from = rm_state m, te_to = next_state, te_kind = kind,
       te_cause = cause, te_at = now m\<rparr>"
    "apply_claim m claim kind cause = (Advanced next_state entry,
       m\<lparr>rm_state := next_state, rm_version := rm_version m + 1,
         rm_transitions := rm_transitions m @ [entry], rm_reads := rm_reads m + 1\<rparr>)"
proof -
  consider "wc_run_id claim \<noteq> rm_runId m"
    | "wc_run_id claim = rm_runId m" "wc_version claim \<noteq> rm_version m"
    | "wc_run_id claim = rm_runId m" "wc_version claim = rm_version m" "isTerminal (rm_state m)"
    | "wc_run_id claim = rm_runId m" "wc_version claim = rm_version m"
      "\<not> isTerminal (rm_state m)" "rm_table m (rm_state m) kind = None"
    | next_state where "wc_run_id claim = rm_runId m" "wc_version claim = rm_version m"
      "\<not> isTerminal (rm_state m)" "rm_table m (rm_state m) kind = Some next_state"
    by blast
  then show thesis
  proof cases
    case 1
    show ?thesis by (rule rejected) (simp add: apply_claim_def 1)
  next
    case 2
    show ?thesis by (rule rejected) (simp add: apply_claim_def 2)
  next
    case 3
    show ?thesis by (rule rejected) (use 3 in \<open>simp add: apply_claim_def del: isTerminal_iff\<close>)
  next
    case 4
    show ?thesis
      by (rule rejected)
        (use 4 in \<open>simp add: apply_claim_def declaredNext_def del: isTerminal_iff\<close>)
  next
    case 5
    then show ?thesis
      by (intro advanced[of next_state]) (simp_all add: apply_claim_def declaredNext_def Let_def)
  qed
qed

lemma adopt_fold:
  "fold adopt es m =
   m\<lparr>rm_transitions := rm_transitions m @ es,
     rm_state := (if es = [] then rm_state m else te_to (last es)),
     rm_version := rm_version m + length es\<rparr>"
  by (induction es arbitrary: m) (auto simp: adopt_def)

section \<open>The record is a walk\<close>

text \<open>
  A list of entries that a run's table declares, each from where the previous one arrived,
  none from a terminal state.
\<close>

fun walks ::
  "TransitionTable \<Rightarrow> string \<Rightarrow> LifecycleState \<Rightarrow> TransitionEntry list \<Rightarrow> LifecycleState \<Rightarrow> bool" where
  "walks table run s [] u = (s = u)"
| "walks table run s (e # es) u =
     (te_run_id e = run \<and> te_from e = s \<and> \<not> isTerminal s \<and> table s (te_kind e) = Some (te_to e) \<and>
      walks table run (te_to e) es u)"

lemma walks_append:
  "walks t r s (es @ fs) u \<longleftrightarrow> (\<exists>w. walks t r s es w \<and> walks t r w fs u)"
  by (induction es arbitrary: s) auto

lemma walks_last: "walks t r s es u \<Longrightarrow> u = (if es = [] then s else te_to (last es))"
  by (induction es arbitrary: s) auto

lemma walks_terminal: "isTerminal s \<Longrightarrow> walks t r s es u \<Longrightarrow> es = []"
  by (cases es) auto

lemma project_steps_walks:
  "project_steps m s reads steps = (Inr es, r) \<Longrightarrow>
   (\<exists>u. walks (rm_table m) (rm_runId m) s es u) \<and> map te_kind es = map fst steps"
proof (induction m s reads steps arbitrary: es r rule: project_steps.induct)
  case (2 m state reads kind cause steps)
  then obtain u where nt: "\<not> isTerminal state" and u: "rm_table m state kind = Some u"
    by (auto simp: declaredNext_def split: if_splits option.splits)
  obtain res r' where rest: "project_steps m u (reads + 1) steps = (res, r')" by fastforce
  then obtain fs where fs: "res = Inr fs"
      "es = \<lparr>te_run_id = rm_runId m, te_from = state, te_to = u, te_kind = kind,
              te_cause = cause, te_at = rm_clock m reads\<rparr> # fs"
    using "2.prems" nt u by (cases res) (auto simp: declaredNext_def Let_def)
  then have "(\<exists>v. walks (rm_table m) (rm_runId m) u fs v) \<and> map te_kind fs = map fst steps"
    using "2.IH"[OF nt _ refl] u rest by (simp add: declaredNext_def)
  then show ?case using fs nt u by auto
qed auto

text \<open>
  The invariant: the record is a walk of the table from \<^verbatim>\<open>REQUESTED\<close> to the current state, the
  version counts it, and a projection minted at the current version is a walk from here.
\<close>

definition wf_machine :: "RunMachine \<Rightarrow> bool" where
  "wf_machine m \<longleftrightarrow>
     walks (rm_table m) (rm_runId m) REQUESTED (rm_transitions m) (rm_state m) \<and>
     rm_version m = length (rm_transitions m) \<and>
     (\<forall>c \<in> set (rm_projections m). cc_fromVersion c \<le> rm_version m \<and>
        (cc_fromVersion c = rm_version m \<longrightarrow>
           (\<exists>u. walks (rm_table m) (rm_runId m) (rm_state m) (cc_entries c) u)))"

lemma wf_new [simp]: "wf_machine (new_machine r c t)"
  by (simp add: wf_machine_def new_machine_def)

lemma wf_reject: "wf_machine m \<Longrightarrow> wf_machine (snd (reject m k r d))"
  unfolding wf_machine_def frame_simps .

lemma wf_apply:
  assumes "wf_machine m"
  shows "wf_machine (snd (apply_claim m claim kind cause))"
proof (cases rule: apply_claim_cases[of m claim kind cause])
  case (rejected reason detail)
  then show ?thesis using wf_reject[OF assms] by simp
next
  case (advanced next_state entry)
  then show ?thesis using assms by (force simp: wf_machine_def walks_append)
qed

lemma wf_project:
  assumes "wf_machine m"
  shows "wf_machine (snd (project m identity steps))"
proof -
  obtain res r where steps: "project_steps m (rm_state m) (rm_reads m) steps = (res, r)"
    by fastforce
  show ?thesis
  proof (cases res)
    case (Inl stop)
    then show ?thesis using assms steps by (auto simp: project_def wf_machine_def)
  next
    case (Inr es)
    then have "\<exists>u. walks (rm_table m) (rm_runId m) (rm_state m) es u"
      using project_steps_walks steps by blast
    then show ?thesis
      using assms steps Inr by (auto simp: project_def wf_machine_def Let_def)
  qed
qed

lemma wf_commit:
  assumes "wf_machine m"
  shows "wf_machine (snd (commitProjected m c))"
proof (cases "c \<in> set (rm_projections m) \<and> cc_fromVersion c = rm_version m")
  case False
  then show ?thesis using assms by (auto simp: commitProjected_def Let_def wf_machine_def)
next
  case True
  then obtain u where u: "walks (rm_table m) (rm_runId m) (rm_state m) (cc_entries c) u"
    using assms by (auto simp: wf_machine_def)
  show ?thesis
    using True assms u walks_last[OF u]
    by (cases "cc_entries c = []")
      (auto simp: commitProjected_def Let_def wf_machine_def adopt_fold walks_append)
qed

text \<open>One operation on the machine, by anybody who holds it.\<close>

inductive machine_step :: "RunMachine \<Rightarrow> RunMachine \<Rightarrow> bool" where
  step_apply: "machine_step m (snd (apply_claim m claim kind cause))"
| step_hold: "machine_step m (snd (hold m kind detail))"
| step_project: "machine_step m (snd (project m identity steps))"
| step_commit: "machine_step m (snd (commitProjected m capability))"
| step_confirm: "machine_step m (confirmJournaled ts rs m)"

inductive reachable :: "RunMachine \<Rightarrow> RunMachine \<Rightarrow> bool" where
  reachable_start: "reachable m m"
| reachable_step: "reachable m m' \<Longrightarrow> machine_step m' m'' \<Longrightarrow> reachable m m''"

lemma wf_confirm: "wf_machine m \<Longrightarrow> wf_machine (confirmJournaled ts rs m)"
  by (auto simp: confirmJournaled_def wf_machine_def)

lemma wf_step: "machine_step m m' \<Longrightarrow> wf_machine m \<Longrightarrow> wf_machine m'"
  by (induction rule: machine_step.induct)
    (simp_all add: wf_apply wf_project wf_commit hold_def wf_reject wf_confirm)

lemma wf_reachable: "reachable m m' \<Longrightarrow> wf_machine m \<Longrightarrow> wf_machine m'"
  by (induction rule: reachable.induct) (auto intro: wf_step)

lemma step_constants:
  "machine_step m m' \<Longrightarrow> rm_table m' = rm_table m \<and> rm_runId m' = rm_runId m"
proof (induction rule: machine_step.induct)
  case (step_apply m claim kind cause)
  then show ?case
    by (cases rule: apply_claim_cases[of m claim kind cause]) (auto simp: frame_simps)
next
  case (step_project m identity steps)
  then show ?case by (auto simp: project_def Let_def split: prod.splits sum.splits)
qed (auto simp: hold_def frame_simps commitProjected_def Let_def adopt_fold confirmJournaled_def)

lemma reachable_constants:
  "reachable m m' \<Longrightarrow> rm_table m' = rm_table m \<and> rm_runId m' = rm_runId m"
  by (induction rule: reachable.induct) (auto dest: step_constants)

lemma reachable_walks:
  assumes "reachable (new_machine run clock table) m"
  shows "walks table run REQUESTED (rm_transitions m) (rm_state m)"
    "rm_version m = length (rm_transitions m)"
  using wf_reachable[OF assms] reachable_constants[OF assms]
  by (auto simp: wf_machine_def new_machine_def)

lemma reject_not_advanced [simp]: "reject m k r d \<noteq> (Advanced s e, m')"
  by (simp add: reject_def Let_def)

lemma advance_Advanced:
  assumes "advance_machine m k c = (Advanced s e, m')"
  shows "rm_transitions m' = rm_transitions m @ [e] \<and> te_kind e = k \<and> te_to e = s \<and> rm_state m' = s"
  using assms unfolding advance_machine_def
  by (cases rule: apply_claim_cases[of m "claim_write m" k c]) auto

section \<open>Properties\<close>

text \<open>
  C33: Whatever sequence of operations is performed on a new machine, with any claims,
  steps and capabilities, its record is a walk of its table from \<^verbatim>\<open>REQUESTED\<close> to its current
  state, every entry of its own run and none leaving a terminal state, and its version is the
  length of that record.
\<close>

theorem machine_record_is_a_walk:
  assumes "reachable (new_machine run clock table) m"
  shows "walks table run REQUESTED (rm_transitions m) (rm_state m) \<and>
    rm_version m = length (rm_transitions m)"
  using reachable_walks[OF assms] by simp

definition run_clock :: "nat \<Rightarrow> string" where
  "run_clock n = replicate n (CHR ''i'')"

definition sample_machine :: RunMachine where
  "sample_machine = new_machine ''run-1'' run_clock TRANSITIONS"

lemma machine_record_is_a_walk_witness:
  "\<exists>m::RunMachine. rm_state m = PROFILE_RESOLVED \<and>
     walks TRANSITIONS ''run-1'' REQUESTED (rm_transitions m) (rm_state m)"
proof -
  let ?m = "snd (apply_claim sample_machine \<lparr>wc_run_id = ''run-1'', wc_version = 0\<rparr> resolve_profile ''ok'')"
  have r: "reachable (new_machine ''run-1'' run_clock TRANSITIONS) ?m"
    using reachable_step[OF reachable_start step_apply] by (simp add: sample_machine_def)
  have "rm_state ?m = PROFILE_RESOLVED" by code_simp
  moreover note machine_record_is_a_walk[OF r]
  ultimately show ?thesis by (intro exI[of _ ?m] conjI) blast+
qed

text \<open>
  A terminal state accepts nothing: once a reachable machine is terminal, no operation
  changes its state, its version or its record, not even committing a capability projected
  before the terminal was reached.
\<close>

theorem terminal_is_absorbing:
  assumes "reachable (new_machine run clock table) m" and "isTerminal (rm_state m)"
    and "machine_step m m'"
  shows "rm_state m' = rm_state m \<and> rm_version m' = rm_version m \<and>
    rm_transitions m' = rm_transitions m"
  using assms(3)
proof (cases rule: machine_step.cases)
  case (step_apply claim kind cause)
  then show ?thesis
    using assms(2) by (cases rule: apply_claim_cases[of m claim kind cause]) (auto simp: frame_simps)
next
  case (step_commit capability)
  have "wf_machine m" using wf_reachable[OF assms(1)] by simp
  then have "capability \<in> set (rm_projections m) \<and> cc_fromVersion capability = rm_version m \<Longrightarrow>
      cc_entries capability = []"
    using walks_terminal[OF assms(2)] by (auto simp: wf_machine_def)
  then show ?thesis using step_commit by (auto simp: commitProjected_def Let_def adopt_fold)
qed (auto simp: hold_def frame_simps project_def confirmJournaled_def Let_def
      split: prod.splits sum.splits)

lemma terminal_is_absorbing_witness:
  "let m = snd (advance_machine sample_machine cancel_run ''stop'');
       m' = snd (advance_machine m resolve_profile ''late'') in
   rm_state m' = Terminal CANCELLED \<and> rm_version m' = 1"
proof -
  let ?m = "snd (advance_machine sample_machine cancel_run ''stop'')"
  let ?m' = "snd (advance_machine ?m resolve_profile ''late'')"
  have st: "machine_step m (snd (advance_machine m k c))" for m k c
    unfolding advance_machine_def by (rule step_apply)
  have "reachable (new_machine ''run-1'' run_clock TRANSITIONS) ?m"
    using reachable_step[OF reachable_start st] by (simp add: sample_machine_def)
  moreover have "isTerminal (rm_state ?m)" by code_simp
  moreover have "machine_step ?m ?m'" by (rule st)
  ultimately have "rm_state ?m' = rm_state ?m \<and> rm_version ?m' = rm_version ?m"
    using terminal_is_absorbing by blast
  moreover have "rm_state ?m = Terminal CANCELLED \<and> rm_version ?m = 1" by code_simp
  ultimately show ?thesis by (simp add: Let_def)
qed

text \<open>
  Applying a claim is total and has one writer. It advances exactly when the claim is
  of this run and of the current version, the state is not terminal and the table declares the
  kind; it then records one entry and moves to the declared state. In every other case it
  records one rejection with the first reason that applies and leaves the run where it is.
\<close>

theorem apply_is_total:
  "(case apply_claim m claim kind cause of
      (Advanced s e, m') \<Rightarrow>
        wc_run_id claim = rm_runId m \<and> wc_version claim = rm_version m \<and>
        \<not> isTerminal (rm_state m) \<and> declaredNext (rm_table m) (rm_state m) kind = Some s \<and>
        rm_state m' = s \<and> rm_version m' = rm_version m + 1 \<and>
        rm_transitions m' = rm_transitions m @ [e] \<and> rm_rejections m' = rm_rejections m \<and>
        te_from e = rm_state m \<and> te_to e = s \<and> te_kind e = kind \<and> te_cause e = cause
    | (Rejected s e, m') \<Rightarrow>
        s = rm_state m \<and> rm_state m' = rm_state m \<and> rm_version m' = rm_version m \<and>
        rm_transitions m' = rm_transitions m \<and> rm_rejections m' = rm_rejections m @ [e] \<and>
        re_attempted e = kind \<and> re_state e = rm_state m \<and>
        re_reason e =
          (if wc_run_id claim \<noteq> rm_runId m then foreign_claim
           else if wc_version claim \<noteq> rm_version m then stale_writer
           else if isTerminal (rm_state m) then terminal_state_reached
           else undeclared_transition) \<and>
        (re_reason e = undeclared_transition \<longrightarrow>
           declaredNext (rm_table m) (rm_state m) kind = None))"
  by (auto simp: apply_claim_def reject_def Let_def split: option.splits)

lemma apply_is_total_witness:
  "\<exists>s e m'. apply_claim sample_machine \<lparr>wc_run_id = ''run-2'', wc_version = 0\<rparr> resolve_profile ''x'' =
     (Rejected s e, m') \<and> re_reason e = foreign_claim \<and> rm_state m' = REQUESTED"
proof -
  let ?c = "\<lparr>wc_run_id = ''run-2'', wc_version = 0\<rparr>"
  obtain s e m' where eq: "apply_claim sample_machine ?c resolve_profile ''x'' = (Rejected s e, m')"
    by (simp add: apply_claim_def reject_def sample_machine_def new_machine_def Let_def)
  then show ?thesis
    using apply_is_total[where m = sample_machine and claim = ?c and kind = resolve_profile and cause = "''x''"] eq
    by (simp add: sample_machine_def new_machine_def)
qed

text \<open>
  Concurrent attempts serialize: of two claims taken at one version, once the first
  has advanced the run the second is rejected as a stale writer and changes neither the state nor
  the record.
\<close>

theorem second_writer_is_stale:
  assumes "apply_claim m claim kind cause = (Advanced s e, m')"
    and "wc_version claim' = wc_version claim" and "wc_run_id claim' = wc_run_id claim"
  shows "\<exists>r m''. apply_claim m' claim' kind' cause' = (Rejected s r, m'') \<and>
    re_reason r = stale_writer \<and> rm_state m'' = s \<and> rm_transitions m'' = rm_transitions m'"
  using assms by (auto simp: apply_claim_def reject_def Let_def split: if_splits option.splits)

lemma second_writer_is_stale_witness:
  "let claim = claim_write sample_machine in
   \<exists>r m''. apply_claim (snd (apply_claim sample_machine claim resolve_profile ''a'')) claim refuse_run ''b'' =
     (Rejected PROFILE_RESOLVED r, m'') \<and> re_reason r = stale_writer"
proof -
  let ?c = "claim_write sample_machine"
  obtain e m' where eq: "apply_claim sample_machine ?c resolve_profile ''a'' = (Advanced PROFILE_RESOLVED e, m')"
    by (simp add: apply_claim_def sample_machine_def new_machine_def claim_write_def declaredNext_def
        withTerminals_def Let_def map_add_def)
  show ?thesis
    using second_writer_is_stale[OF eq refl refl, of refuse_run "''b''"] eq by (auto simp: Let_def)
qed

text \<open>The kinds that remain to be taken from a state on the successful path.\<close>

fun remaining :: "LifecycleState \<Rightarrow> TransitionKind list" where
  "remaining REQUESTED =
     [resolve_profile, decide_eligibility, commit_spend, begin_execution, begin_verification,
      seal_evidence, complete_run]"
| "remaining PROFILE_RESOLVED =
     [decide_eligibility, commit_spend, begin_execution, begin_verification, seal_evidence,
      complete_run]"
| "remaining ELIGIBLE =
     [commit_spend, begin_execution, begin_verification, seal_evidence, complete_run]"
| "remaining SANDBOX_STARTED =
     [begin_execution, begin_verification, seal_evidence, complete_run]"
| "remaining RUNNING = [begin_verification, seal_evidence, complete_run]"
| "remaining VERIFYING = [seal_evidence, complete_run]"
| "remaining EVIDENCE_SEALED = [complete_run]"
| "remaining (Terminal _) = []"

lemma TERMINAL_BRANCHES_failure:
  "TERMINAL_BRANCHES k = Some u \<Longrightarrow> \<exists>t. u = Terminal t \<and> t \<noteq> COMPLETED"
  by (cases k) auto

lemma withTerminals_single:
  "withTerminals [k0 \<mapsto> s0] k = Some u \<Longrightarrow>
   (\<exists>t. u = Terminal t \<and> t \<noteq> COMPLETED) \<or> k = k0 \<and> u = s0"
  by (auto simp: withTerminals_def map_add_def split: option.splits if_splits
      dest: TERMINAL_BRANCHES_failure)

lemma TRANSITIONS_cases:
  assumes "TRANSITIONS s k = Some u"
  shows "(\<exists>t. u = Terminal t \<and> t \<noteq> COMPLETED) \<or> remaining s = k # remaining u"
  using assms by (cases s) (simp_all, (drule withTerminals_single, force)+)

lemma walks_to_completed:
  "walks TRANSITIONS r s es (Terminal COMPLETED) \<Longrightarrow> map te_kind es = remaining s"
proof (induction es arbitrary: s)
  case (Cons e es)
  then have step: "TRANSITIONS s (te_kind e) = Some (te_to e)"
    and rest: "walks TRANSITIONS r (te_to e) es (Terminal COMPLETED)" by auto
  have "\<not> (\<exists>t. te_to e = Terminal t \<and> t \<noteq> COMPLETED)"
    using rest walks_terminal[of "te_to e" TRANSITIONS r es] by (cases es) auto
  with TRANSITIONS_cases[OF step] have "remaining s = te_kind e # remaining (te_to e)" by blast
  with Cons.IH[OF rest] show ?case by simp
qed auto

text \<open>
  Success is only reached by the whole walk: a reachable machine over the declared
  table is \<^verbatim>\<open>COMPLETED\<close> only if it took exactly the seven progress transitions, each once and in
  order.
\<close>

theorem completed_only_by_the_full_walk:
  assumes "reachable (new_machine run clock TRANSITIONS) m"
    and "rm_state m = Terminal COMPLETED"
  shows "map te_kind (rm_transitions m) =
    [resolve_profile, decide_eligibility, commit_spend, begin_execution, begin_verification,
     seal_evidence, complete_run]"
proof -
  have "walks TRANSITIONS run REQUESTED (rm_transitions m) (Terminal COMPLETED)"
    using reachable_walks(1)[OF assms(1)] assms(2) by simp
  from walks_to_completed[OF this] show ?thesis by simp
qed

fun advance_all :: "(TransitionKind \<times> string) list \<Rightarrow> RunMachine \<Rightarrow> RunMachine" where
  "advance_all [] m = m"
| "advance_all ((k, c) # ks) m = advance_all ks (snd (advance_machine m k c))"

lemma step_advance: "machine_step m (snd (advance_machine m k c))"
  unfolding advance_machine_def by (rule step_apply)

lemma reachable_advance_all: "reachable m0 m \<Longrightarrow> reachable m0 (advance_all ks m)"
proof (induction ks m rule: advance_all.induct)
  case (2 k c ks m)
  then show ?case using reachable_step[OF _ step_advance] by simp
qed simp

lemma advance_declared:
  assumes "\<not> isTerminal (rm_state m)" and "rm_table m (rm_state m) k = Some u"
  shows "rm_state (snd (advance_machine m k c)) = u"
    "rm_table (snd (advance_machine m k c)) = rm_table m"
  using assms by (simp_all add: advance_machine_def apply_claim_def claim_write_def
      declaredNext_def Let_def)

fun follow :: "TransitionTable \<Rightarrow> LifecycleState \<Rightarrow> (TransitionKind \<times> string) list \<Rightarrow> LifecycleState option"
where
  "follow t s [] = Some s"
| "follow t s ((k, c) # ks) =
     (if isTerminal s then None
      else (case t s k of None \<Rightarrow> None | Some u \<Rightarrow> follow t u ks))"

lemma advance_all_follow:
  "follow (rm_table m) (rm_state m) ks = Some u \<Longrightarrow> rm_state (advance_all ks m) = u"
  by (induction ks m rule: advance_all.induct)
    (auto simp: advance_declared simp del: isTerminal_iff split: if_splits option.splits)

lemma completed_only_by_the_full_walk_witness:
  "let m = advance_all (map (\<lambda>k. (k, ''ok'')) (remaining REQUESTED)) sample_machine in
   rm_state m = Terminal COMPLETED \<and> map te_kind (rm_transitions m) = remaining REQUESTED"
proof -
  let ?m = "advance_all (map (\<lambda>k. (k, ''ok'')) (remaining REQUESTED)) sample_machine"
  have "reachable (new_machine ''run-1'' run_clock TRANSITIONS) ?m"
    unfolding sample_machine_def by (rule reachable_advance_all[OF reachable_start])
  moreover have "rm_state ?m = Terminal COMPLETED"
    by (rule advance_all_follow)
      (simp add: sample_machine_def new_machine_def withTerminals_def map_add_def)
  ultimately show ?thesis using completed_only_by_the_full_walk by (simp add: Let_def)
qed

text \<open>
  C34: Committing a projection moves the journal cursor by the number of entries the
  commit wrote, counted from the oldest entry still pending: what is pending afterwards is the
  old pending list followed by the committed entries, less as many entries from its front. With
  an earlier append still pending that drops this pending entry from the retry set and leaves a
  committed one in it.
\<close>

theorem commit_cursor_drops_oldest_pending:
  assumes "commitProjected m c = (None, m')"
    and "rm_journaledTransitions m \<le> length (rm_transitions m)"
  shows "fst (pendingJournal m') =
    drop (length (cc_entries c)) (fst (pendingJournal m) @ cc_entries c)"
  using assms
  by (auto simp: commitProjected_def Let_def adopt_fold pendingJournal_def add.commute
      split: if_splits)

lemma commit_cursor_drops_oldest_pending_witness:
  "\<exists>m c m' pending committed.
     commitProjected m c = (None, m') \<and> fst (pendingJournal m) = [pending] \<and>
     cc_entries c = [committed] \<and> pending \<noteq> committed \<and> fst (pendingJournal m') = [committed]"
proof -
  let ?e1 = "\<lparr>te_run_id = ''r'', te_from = REQUESTED, te_to = PROFILE_RESOLVED, te_kind = resolve_profile,
              te_cause = ''a'', te_at = ''t''\<rparr>"
  let ?e2 = "\<lparr>te_run_id = ''r'', te_from = PROFILE_RESOLVED, te_to = ELIGIBLE, te_kind = decide_eligibility,
              te_cause = ''b'', te_at = ''t''\<rparr>"
  let ?c = "\<lparr>cc_identity = 7, cc_entries = [?e2], cc_fromVersion = 1\<rparr>"
  let ?m = "(new_machine ''r'' (\<lambda>_. ''t'') TRANSITIONS)
    \<lparr>rm_transitions := [?e1], rm_state := PROFILE_RESOLVED, rm_version := 1, rm_projections := [?c]\<rparr>"
  obtain m' where m': "commitProjected ?m ?c = (None, m')"
    by (simp add: commitProjected_def new_machine_def Let_def)
  moreover have "fst (pendingJournal m') = [?e2]"
    using commit_cursor_drops_oldest_pending[OF m']
    by (simp add: pendingJournal_def new_machine_def)
  moreover have "fst (pendingJournal ?m) = [?e1]" by (simp add: pendingJournal_def new_machine_def)
  ultimately show ?thesis by (intro exI[of _ ?m] exI[of _ ?c] exI[of _ m'] exI[of _ ?e1] exI[of _ ?e2]) simp
qed

end
