(* ===== verification/Walk.thy ===== *)
theory Walk
  imports Lifecycle
begin

text \<open>
  The walk engine, \<^verbatim>\<open>services/runner-control/src/lifecycle/walk.ts\<close>: a phase is data, its
  effects together with the transition they earn, and the machine decides whether the next
  phase runs at all. The effects of a phase and the hooks are functions on a state that holds
  the machine and everything else (\<open>'w\<close>).
\<close>

section \<open>The engine\<close>

datatype 'a PhaseCommand = Earned string | Terminate 'a | Hold string

type_synonym 'w walk_state = "RunMachine \<times> 'w"

record ('a, 'w) Phase =
  ph_name :: string
  ph_earns :: TransitionKind
  ph_run :: "'w walk_state \<Rightarrow> 'a PhaseCommand \<times> 'w walk_state"

record 'w WalkHooks =
  wh_beforePhase :: "(string \<Rightarrow> 'w walk_state \<Rightarrow> string option \<times> 'w walk_state) option"
  wh_afterRecord :: "('w walk_state \<Rightarrow> 'w walk_state) option"

datatype 'a WalkOutcome =
    Walked
  | Terminated 'a
  | Held string
  | Halted string RejectionEntry
  | Lost string string

definition before_phase ::
  "'w WalkHooks \<Rightarrow> string \<Rightarrow> 'w walk_state \<Rightarrow> string option \<times> 'w walk_state" where
  "before_phase hooks name st =
     (case wh_beforePhase hooks of None \<Rightarrow> (None, st) | Some f \<Rightarrow> f name st)"

definition after_record :: "'w WalkHooks \<Rightarrow> 'w walk_state \<Rightarrow> 'w walk_state" where
  "after_record hooks st = (case wh_afterRecord hooks of None \<Rightarrow> st | Some f \<Rightarrow> f st)"

text \<open>One phase: how the walk ends there, or \<open>None\<close> when the next phase may run.\<close>

definition walk_phase ::
  "'w WalkHooks \<Rightarrow> ('a, 'w) Phase \<Rightarrow> 'w walk_state \<Rightarrow> 'a WalkOutcome option \<times> 'w walk_state" where
  "walk_phase hooks phase st =
     (case before_phase hooks (ph_name phase) st of
        (Some reason, st1) \<Rightarrow> (Some (Lost (ph_name phase) reason), st1)
      | (None, st1) \<Rightarrow>
     (case ph_run phase st1 of
        (Terminate value, st2) \<Rightarrow> (Some (Terminated value), st2)
      | (Hold detail, (m, w)) \<Rightarrow>
          (Some (Held detail), after_record hooks (snd (hold m (ph_earns phase) detail), w))
      | (Earned cause, (m, w)) \<Rightarrow>
          (case advance_machine m (ph_earns phase) cause of
             (Rejected _ entry, m') \<Rightarrow>
               (Some (Halted (ph_name phase) entry), after_record hooks (m', w))
           | (Advanced _ _, m') \<Rightarrow> (None, after_record hooks (m', w)))))"

fun walk ::
  "'w WalkHooks \<Rightarrow> ('a, 'w) Phase list \<Rightarrow> 'w walk_state \<Rightarrow> 'a WalkOutcome \<times> 'w walk_state" where
  "walk hooks [] st = (Walked, st)"
| "walk hooks (phase # phases) st =
     (case walk_phase hooks phase st of
        (Some outcome, st') \<Rightarrow> (outcome, st')
      | (None, st') \<Rightarrow> walk hooks phases st')"

section \<open>Properties\<close>

text \<open>
  The machine is authoritative over effects: the walk of two lists of phases is the
  walk of the first, followed by the second only when every phase of the first earned its
  transition. Whatever ends the first part (a refused transition, a termination, a hold, a lost
  lease), no effect of a later phase happens.
\<close>

theorem walk_append:
  "walk hooks (ps @ qs) st =
   (case walk hooks ps st of
      (Walked, st') \<Rightarrow> walk hooks qs st'
    | (stopped, st') \<Rightarrow> (stopped, st'))"
proof (induction ps arbitrary: st)
  case (Cons p ps)
  have "walk_phase hooks p st \<noteq> (Some Walked, st')" for st'
    by (auto simp: walk_phase_def split: prod.splits option.splits PhaseCommand.splits
        TransitionResult.splits)
  with Cons show ?case
    by (auto split: prod.splits option.splits WalkOutcome.splits)
qed simp

text \<open>The effects of a phase and the hooks leave the machine to the engine.\<close>

definition machine_untouched :: "'w WalkHooks \<Rightarrow> ('a, 'w) Phase list \<Rightarrow> bool" where
  "machine_untouched hooks phases \<longleftrightarrow>
     (\<forall>p \<in> set phases. \<forall>st. fst (snd (ph_run p st)) = fst st) \<and>
     (\<forall>name st. fst (snd (before_phase hooks name st)) = fst st) \<and>
     (\<forall>st. fst (after_record hooks st) = fst st)"

lemma walk_phase_untouched:
  assumes "machine_untouched hooks [p]" and "walk_phase hooks p st = (None, st')"
  shows "\<exists>cause s e. advance_machine (fst st) (ph_earns p) cause = (Advanced s e, fst st')"
proof -
  obtain r st1 where b: "before_phase hooks (ph_name p) st = (r, st1)" by (rule prod.exhaust)
  obtain c m w where run: "ph_run p st1 = (c, (m, w))" by (metis surj_pair)
  have "fst (snd (before_phase hooks (ph_name p) st)) = fst st" "fst (snd (ph_run p st1)) = fst st1"
    using assms(1) unfolding machine_untouched_def by (auto simp del: split_paired_All)
  then have "fst st1 = fst st" "m = fst st1" using b run by simp_all
  moreover obtain cause where "r = None" "c = Earned cause"
    using assms(2) b run
    by (auto simp: walk_phase_def split: option.splits PhaseCommand.splits)
  moreover obtain res m' where adv: "advance_machine m (ph_earns p) cause = (res, m')" by (rule prod.exhaust)
  ultimately have "\<exists>s e. res = Advanced s e \<and> st' = after_record hooks (m', w)"
    using assms(2) b run by (auto simp: walk_phase_def split: TransitionResult.splits)
  then show ?thesis
    using adv \<open>fst st1 = fst st\<close> \<open>m = fst st1\<close> assms(1) by (auto simp: machine_untouched_def)
qed

text \<open>
  With phases and hooks that leave the machine to the walk, a walk that reaches its end took exactly
  the transitions its phases earn, one per phase and in order. The phases of a real run touch the
  machine themselves; what their walk keeps is proved in \<^verbatim>\<open>RunConduct\<close>.
\<close>

theorem walked_records_every_transition:
  assumes "machine_untouched hooks phases" and "walk hooks phases st = (Walked, st')"
  shows "map te_kind (rm_transitions (fst st')) =
    map te_kind (rm_transitions (fst st)) @ map ph_earns phases"
  using assms
proof (induction phases arbitrary: st)
  case (Cons p ps)
  obtain st1 where st1: "walk_phase hooks p st = (None, st1)" "walk hooks ps st1 = (Walked, st')"
    using Cons.prems(2)
    by (auto simp: walk_phase_def split: prod.splits option.splits PhaseCommand.splits
        TransitionResult.splits)
  have one: "machine_untouched hooks [p]" and rest: "machine_untouched hooks ps"
    using Cons.prems(1) by (auto simp: machine_untouched_def)
  obtain cause s e where adv: "advance_machine (fst st) (ph_earns p) cause = (Advanced s e, fst st1)"
    using walk_phase_untouched[OF one st1(1)] by blast
  then have "rm_transitions (fst st1) = rm_transitions (fst st) @ [e] \<and> te_kind e = ph_earns p"
    using advance_Advanced by blast
  with Cons.IH[OF rest st1(2)] show ?case by simp
qed simp

definition earning_phase :: "TransitionKind \<Rightarrow> (unit, TransitionKind list) Phase" where
  "earning_phase k =
     \<lparr>ph_name = transition_text k, ph_earns = k,
      ph_run = (\<lambda>(m, w). (Earned ''done'', (m, w @ [k])))\<rparr>"

definition no_hooks :: "'w WalkHooks" where
  "no_hooks = \<lparr>wh_beforePhase = None, wh_afterRecord = None\<rparr>"

lemma walked_records_every_transition_witness:
  "\<exists>st'. walk no_hooks (map earning_phase (remaining REQUESTED)) (sample_machine, []) = (Walked, st') \<and>
     map te_kind (rm_transitions (fst st')) = remaining REQUESTED"
proof -
  let ?ps = "map earning_phase (remaining REQUESTED)"
  have u: "machine_untouched no_hooks ?ps"
    by (auto simp: machine_untouched_def earning_phase_def before_phase_def after_record_def no_hooks_def)
  obtain st' where w: "walk no_hooks ?ps (sample_machine, []) = (Walked, st')"
    by (simp add: walk_phase_def earning_phase_def before_phase_def after_record_def no_hooks_def
        advance_machine_def apply_claim_def claim_write_def declaredNext_def sample_machine_def
        new_machine_def withTerminals_def map_add_def Let_def)
  from walked_records_every_transition[OF u w] w show ?thesis
    by (auto simp: sample_machine_def new_machine_def earning_phase_def)
qed

definition without_transition :: "TransitionKind \<Rightarrow> TransitionTable \<Rightarrow> TransitionTable" where
  "without_transition kind table = (\<lambda>s k. if k = kind then None else table s k)"

text \<open>
  The walk is driven by the declared table: deleting one transition from it stops the
  walk at the phase that earns it, and the effects of the later phases do not happen.
\<close>

theorem narrowed_table_halts_the_walk:
  "\<exists>entry m.
     walk no_hooks (map earning_phase (remaining REQUESTED))
       (new_machine ''run-1'' run_clock (without_transition begin_execution TRANSITIONS), []) =
     (Halted ''begin_execution'' entry,
      (m, [resolve_profile, decide_eligibility, commit_spend, begin_execution])) \<and>
     re_reason entry = undeclared_transition \<and> rm_state m = SANDBOX_STARTED"
  by (simp add: walk_phase_def earning_phase_def before_phase_def after_record_def no_hooks_def
      advance_machine_def apply_claim_def claim_write_def declaredNext_def new_machine_def
      withTerminals_def map_add_def without_transition_def reject_def Let_def)

end
