(* ===== verification/Fence.thy ===== *)
theory Fence
  imports Lifecycle
begin

text \<open>
  Fencing and commit visibility: \<^verbatim>\<open>services/runner-control/src/run-state/fence.ts\<close> and
  \<^verbatim>\<open>visibility.ts\<close>. A resource remembers the highest generation it has served for a run and
  refuses anything lower; a commit is one insertion into a set.

  Two interfaces: \<open>fenced_resource\<close>, what every fenced port relies on, and
  \<open>commit_visibility\<close>, what the finalization participants share.
\<close>

section \<open>The fence ledger\<close>

record RunFence =
  fn_run_id :: string
  fn_generation :: int

datatype FenceReason = Stale_fence | Conflicting_replay

datatype FenceOutcome = Fence_ok | Fence_refused FenceReason string

type_synonym FenceLedger = "string \<rightharpoonup> int"

definition stale_detail :: "RunFence \<Rightarrow> int \<Rightarrow> string" where
  "stale_detail fence high =
     template [''run '', fn_run_id fence, '' moved on: this caller holds generation '',
       string_of_int (fn_generation fence), '' and the run is at '', string_of_int high]"

text \<open>\<^verbatim>\<open>refuse\<close>: the refusal detail, if any, and the ledger after the request.\<close>

definition fence_refuse :: "FenceLedger \<Rightarrow> RunFence \<Rightarrow> string option \<times> FenceLedger" where
  "fence_refuse ledger fence =
     (case ledger (fn_run_id fence) of
        Some high \<Rightarrow>
          if fn_generation fence < high then (Some (stale_detail fence high), ledger)
          else if fn_generation fence > high then
            (None, ledger(fn_run_id fence \<mapsto> fn_generation fence))
          else (None, ledger)
      | None \<Rightarrow> (None, ledger(fn_run_id fence \<mapsto> fn_generation fence)))"

definition staleFence :: "string \<Rightarrow> FenceOutcome" where
  "staleFence detail = Fence_refused Stale_fence detail"

definition fence_outcome :: "FenceLedger \<Rightarrow> RunFence \<Rightarrow> FenceOutcome \<times> FenceLedger" where
  "fence_outcome ledger fence =
     (case fence_refuse ledger fence of
        (None, ledger') \<Rightarrow> (Fence_ok, ledger')
      | (Some refused, ledger') \<Rightarrow> (staleFence refused, ledger'))"

definition currentFor :: "FenceLedger \<Rightarrow> string \<Rightarrow> int option" where
  "currentFor ledger run_id = ledger run_id"

fun isStaleFence :: "FenceOutcome \<Rightarrow> bool" where
  "isStaleFence Fence_ok = False"
| "isStaleFence (Fence_refused reason _) = (reason = Stale_fence)"

section \<open>The interface of a fenced resource\<close>

text \<open>
  What a holder of a fence may rely on, whoever implements the resource: \<open>admit\<close> is one
  fenced request, \<open>mark\<close> the generation the resource considers current for a run.
\<close>

locale fenced_resource =
  fixes admit :: "'r \<Rightarrow> RunFence \<Rightarrow> bool \<times> 'r"
    and mark :: "'r \<Rightarrow> string \<Rightarrow> int option"
  assumes admitted_iff: "fst (admit r f) \<longleftrightarrow>
      (case mark r (fn_run_id f) of None \<Rightarrow> True | Some h \<Rightarrow> h \<le> fn_generation f)"
    and admitted_marks: "fst (admit r f) \<Longrightarrow>
      mark (snd (admit r f)) = (mark r)(fn_run_id f \<mapsto> fn_generation f)"
    and refused_keeps: "\<not> fst (admit r f) \<Longrightarrow> mark (snd (admit r f)) = mark r"
begin

text \<open>A sequence of requests, and which of them were admitted.\<close>

primrec serve :: "'r \<Rightarrow> RunFence list \<Rightarrow> 'r" where
  "serve r [] = r"
| "serve r (f # fs) = serve (snd (admit r f)) fs"

primrec admissions :: "'r \<Rightarrow> RunFence list \<Rightarrow> RunFence list" where
  "admissions r [] = []"
| "admissions r (f # fs) =
     (if fst (admit r f) then [f] else []) @ admissions (snd (admit r f)) fs"

lemma mark_monotone:
  "mark r run = Some h \<Longrightarrow> \<exists>h'. mark (snd (admit r f)) run = Some h' \<and> h \<le> h'"
  using admitted_iff[of r f] admitted_marks[of r f] refused_keeps[of r f]
  by (cases "fst (admit r f)") auto

lemma serve_monotone:
  "mark r run = Some h \<Longrightarrow> \<exists>h'. mark (serve r fs) run = Some h' \<and> h \<le> h'"
proof (induction fs arbitrary: r h)
  case (Cons f fs)
  then obtain h1 where "mark (snd (admit r f)) run = Some h1" "h \<le> h1"
    using mark_monotone by blast
  with Cons.IH[of "snd (admit r f)" h1] show ?case by fastforce
qed simp

lemma locked_out:
  assumes "fst (admit r f)" and "fn_run_id g = fn_run_id f" and "fn_generation g < fn_generation f"
  shows "\<not> fst (admit (serve (snd (admit r f)) fs) g)"
proof -
  have "mark (snd (admit r f)) (fn_run_id f) = Some (fn_generation f)"
    using admitted_marks[OF assms(1)] by simp
  then obtain h where h: "mark (serve (snd (admit r f)) fs) (fn_run_id f) = Some h"
      "fn_generation f \<le> h"
    using serve_monotone by blast
  have "\<not> h \<le> fn_generation g" using h(2) assms(3) by linarith
  then show ?thesis using admitted_iff[of "serve (snd (admit r f)) fs" g] h(1) assms(2) by simp
qed

lemma admissions_above:
  "mark r run = Some h \<Longrightarrow> g \<in> set (admissions r fs) \<Longrightarrow> fn_run_id g = run \<Longrightarrow>
   h \<le> fn_generation g"
proof (induction fs arbitrary: r h)
  case (Cons f fs)
  then obtain h1 where h1: "mark (snd (admit r f)) run = Some h1" "h \<le> h1"
    using mark_monotone by blast
  show ?case
  proof (cases "g \<in> set (admissions (snd (admit r f)) fs)")
    case True
    then show ?thesis using Cons.IH[OF h1(1)] Cons.prems(3) h1(2) by force
  next
    case False
    then have "g = f" "fst (admit r f)" using Cons.prems(2) by (auto split: if_splits)
    then show ?thesis using admitted_iff[of r f] Cons.prems by simp
  qed
qed simp

text \<open>What one run's holders were admitted with never goes back.\<close>

lemma admissions_sorted:
  "sorted (map fn_generation (filter (\<lambda>f. fn_run_id f = run) (admissions r fs)))"
proof (induction fs arbitrary: r)
  case (Cons f fs)
  have "\<forall>g \<in> set (admissions (snd (admit r f)) fs). fn_run_id g = run \<longrightarrow>
      fn_generation f \<le> fn_generation g"
    if "fst (admit r f)" "fn_run_id f = run"
    using admissions_above[of "snd (admit r f)" run "fn_generation f"] admitted_marks[OF that(1)]
      that(2) by auto
  with Cons show ?case by auto
qed simp

end

lemma fence_refuse_cases:
  "fst (fence_refuse l f) = None \<longleftrightarrow>
     (case l (fn_run_id f) of None \<Rightarrow> True | Some h \<Rightarrow> h \<le> fn_generation f)"
  "fst (fence_refuse l f) = None \<Longrightarrow>
     snd (fence_refuse l f) = l(fn_run_id f \<mapsto> fn_generation f)"
  "fst (fence_refuse l f) \<noteq> None \<Longrightarrow> snd (fence_refuse l f) = l"
  by (auto simp: fence_refuse_def fun_upd_idem split: option.splits)

definition fence_admit :: "FenceLedger \<Rightarrow> RunFence \<Rightarrow> bool \<times> FenceLedger" where
  "fence_admit l f = (fst (fence_refuse l f) = None, snd (fence_refuse l f))"

interpretation fence: fenced_resource fence_admit currentFor
  by unfold_locales
    (use fence_refuse_cases in \<open>auto simp: fence_admit_def currentFor_def split: option.splits\<close>)

lemma fence_outcome_refuse:
  "fence_outcome l f =
   (case fst (fence_refuse l f) of None \<Rightarrow> Fence_ok | Some d \<Rightarrow> Fence_refused Stale_fence d,
    snd (fence_refuse l f))"
  by (auto simp: fence_outcome_def staleFence_def split: prod.splits option.splits)

section \<open>Commit visibility\<close>

text \<open>The published commit ids; publication is one insertion.\<close>

type_synonym CommitLedger = "string list"

definition publish :: "CommitLedger \<Rightarrow> string \<Rightarrow> CommitLedger" where
  "publish ledger commitId = List.insert commitId ledger"

definition isPublished :: "CommitLedger \<Rightarrow> string \<Rightarrow> bool" where
  "isPublished ledger commitId \<longleftrightarrow> commitId \<in> set ledger"

definition publishedCount :: "CommitLedger \<Rightarrow> nat" where
  "publishedCount ledger = length ledger"

definition isVisible :: "CommitLedger \<Rightarrow> string option \<Rightarrow> bool" where
  "isVisible visibility commitId \<longleftrightarrow>
     (case commitId of None \<Rightarrow> True | Some c \<Rightarrow> isPublished visibility c)"

text \<open>What the participants of a commit rely on.\<close>

locale commit_visibility =
  fixes pub :: "'v \<Rightarrow> string \<Rightarrow> 'v"
    and is_pub :: "'v \<Rightarrow> string \<Rightarrow> bool"
  assumes is_pub_pub: "is_pub (pub v c) d \<longleftrightarrow> d = c \<or> is_pub v d"
begin

definition visible_rows :: "'v \<Rightarrow> (string option \<times> 'a) list \<Rightarrow> 'a list" where
  "visible_rows v rows =
     map snd (filter (\<lambda>(c, _). case c of None \<Rightarrow> True | Some d \<Rightarrow> is_pub v d) rows)"

lemma visible_append:
  "visible_rows v (rows @ rows') = visible_rows v rows @ visible_rows v rows'"
  by (simp add: visible_rows_def)

text \<open>Staged rows cannot be seen, and one publication shows all of them at once.\<close>

lemma staged_invisible:
  "\<not> is_pub v c \<Longrightarrow> visible_rows v (rows @ map (Pair (Some c)) new) = visible_rows v rows"
  by (induction new) (auto simp: visible_rows_def)

lemma published_visible:
  assumes "\<forall>(d, _) \<in> set rows. d \<noteq> Some c"
  shows "visible_rows (pub v c) (rows @ map (Pair (Some c)) new) = visible_rows v rows @ new"
proof -
  have "visible_rows (pub v c) rows = visible_rows v rows"
    using assms by (auto simp: visible_rows_def is_pub_pub intro!: arg_cong[of _ _ "map snd"] filter_cong
        split: option.splits)
  moreover have "visible_rows (pub v c) (map (Pair (Some c)) new) = new"
    by (induction new) (auto simp: visible_rows_def is_pub_pub)
  ultimately show ?thesis by (simp add: visible_append)
qed

text \<open>Publishing another commit does not change what is seen of these rows.\<close>

lemma published_other:
  assumes "\<forall>(d, _) \<in> set rows. d \<noteq> Some c"
  shows "visible_rows (pub v c) rows = visible_rows v rows"
  using published_visible[OF assms, of v "[]"] by simp

end

interpretation ledger: commit_visibility publish isPublished
  by unfold_locales (auto simp: publish_def isPublished_def)

text \<open>
  Once a resource has served a generation of a run, no request with a lower generation
  of that run is admitted again, after any further sequence of requests of any runs.
\<close>

theorem stale_holder_locked_out:
  assumes "fst (fence_refuse l f) = None"
    and "fn_run_id g = fn_run_id f" and "fn_generation g < fn_generation f"
  shows "fst (fence_refuse (fence.serve (snd (fence_refuse l f)) fs) g) \<noteq> None"
  using fence.locked_out[of l f g fs] assms by (simp add: fence_admit_def)

lemma stale_holder_locked_out_witness:
  "fst (fence_refuse (fence.serve (snd (fence_refuse Map.empty \<lparr>fn_run_id = ''r'', fn_generation = 5\<rparr>))
      [\<lparr>fn_run_id = ''s'', fn_generation = 9\<rparr>]) \<lparr>fn_run_id = ''r'', fn_generation = 4\<rparr>) \<noteq> None"
  by (rule stale_holder_locked_out) (simp_all add: fence_refuse_def)

text \<open>
  The requests of one run that a resource admits have non-decreasing generations, so no
  resource records a dispossessed holder's work on top of its successor's.
\<close>

theorem admitted_generations_never_go_back:
  "sorted (map fn_generation (filter (\<lambda>f. fn_run_id f = run) (fence.admissions l fs)))"
  by (rule fence.admissions_sorted)

end
