(* ===== verification/Journal.thy ===== *)
theory Journal
  imports Fence
begin

text \<open>
  The run journal, \<^verbatim>\<open>InMemoryRunJournal\<close> of
  \<^verbatim>\<open>services/runner-control/src/run-state/in-memory.ts\<close>, and the one outbox that drains into it,
  \<^verbatim>\<open>run-state/outbox.ts\<close> with the flush loop of \<^verbatim>\<open>orchestration/run.ts\<close>.

  The replay ledger of the journal remembers the canonical text of the fact that landed under an
  identity; the text is equal exactly when category and fact are, so the model remembers the
  fact itself.
\<close>

section \<open>Facts\<close>

datatype AcquisitionEpoch = Production | Verification

datatype acquisition_result = Acquired | Acquisition_failed | Refused_token

record JournaledAcquisition =
  ja_epoch :: AcquisitionEpoch
  ja_source :: string
  ja_outcome :: acquisition_result
  ja_detail :: "string option"

record JournaledHold =
  jh_state :: LifecycleState
  jh_transition :: string
  jh_detail :: string
  jh_at :: string

text \<open>One journal fact by category; also what a replay is compared with.\<close>

datatype OutboxFact =
    Transition_fact TransitionEntry
  | Rejection_fact RejectionEntry
  | Acquisition_fact JournaledAcquisition
  | Hold_fact JournaledHold

section \<open>Replay classification\<close>

datatype replay_class = New_entry | Replay | Conflict

definition classify ::
  "('k \<rightharpoonup> 'f) \<Rightarrow> 'k \<Rightarrow> 'f \<Rightarrow> replay_class \<times> ('k \<rightharpoonup> 'f)" where
  "classify seen entry_id jfact =
     (case seen entry_id of
        None \<Rightarrow> (New_entry, seen(entry_id \<mapsto> jfact))
      | Some landed \<Rightarrow> (if landed = jfact then Replay else Conflict, seen))"

lemma classify_simps [branch_simps]:
  "seen k = None \<Longrightarrow> classify seen k f = (New_entry, seen(k \<mapsto> f))"
  "seen k = Some f \<Longrightarrow> classify seen k f = (Replay, seen)"
  "seen k = Some g \<Longrightarrow> g \<noteq> f \<Longrightarrow> classify seen k f = (Conflict, seen)"
  by (simp_all add: classify_def)

section \<open>The journal\<close>

record JournalPages =
  jp_transitions :: "(string option \<times> TransitionEntry) list"
  jp_rejections :: "RejectionEntry list"
  jp_acquisitions :: "JournaledAcquisition list"
  jp_held :: "JournaledHold option"
  jp_seen :: "string \<rightharpoonup> OutboxFact"

record RunJournal =
  ij_pages :: "string \<rightharpoonup> JournalPages"
  ij_fence :: FenceLedger

definition empty_page :: JournalPages where
  "empty_page =
     \<lparr>jp_transitions = [], jp_rejections = [], jp_acquisitions = [], jp_held = None,
      jp_seen = Map.empty\<rparr>"

definition new_journal :: RunJournal where
  "new_journal = \<lparr>ij_pages = Map.empty, ij_fence = Map.empty\<rparr>"

definition page_of :: "RunJournal \<Rightarrow> string \<Rightarrow> JournalPages" where
  "page_of j run_id = (case ij_pages j run_id of Some page \<Rightarrow> page | None \<Rightarrow> empty_page)"

definition conflict :: "string \<Rightarrow> FenceOutcome" where
  "conflict entry_id =
     Fence_refused Conflicting_replay
       (template [''journal entry '', entry_id, '' already landed a different fact; identity equality must imply fact equality''])"

text \<open>Where a new fact lands; a transition ends a hold.\<close>

fun land :: "OutboxFact \<Rightarrow> JournalPages \<Rightarrow> JournalPages" where
  "land (Transition_fact t) page =
     page\<lparr>jp_transitions := jp_transitions page @ [(None, t)], jp_held := None\<rparr>"
| "land (Rejection_fact r) page = page\<lparr>jp_rejections := jp_rejections page @ [r]\<rparr>"
| "land (Acquisition_fact a) page = page\<lparr>jp_acquisitions := jp_acquisitions page @ [a]\<rparr>"
| "land (Hold_fact h) page = page\<lparr>jp_held := Some h\<rparr>"

text \<open>
  The body the four appends share: the fence first, then the classification, then the fact.
\<close>

definition append_fact ::
  "RunJournal \<Rightarrow> RunFence \<Rightarrow> string \<Rightarrow> OutboxFact \<Rightarrow> FenceOutcome \<times> RunJournal" where
  "append_fact j fence entry_id jfact =
     (case fence_outcome (ij_fence j) fence of
        (Fence_refused reason detail, l) \<Rightarrow> (Fence_refused reason detail, j\<lparr>ij_fence := l\<rparr>)
      | (Fence_ok, l) \<Rightarrow>
          let page = page_of j (fn_run_id fence) in
          (case classify (jp_seen page) entry_id jfact of
             (Replay, _) \<Rightarrow>
               (Fence_ok, j\<lparr>ij_fence := l, ij_pages := (ij_pages j)(fn_run_id fence \<mapsto> page)\<rparr>)
           | (Conflict, _) \<Rightarrow>
               (conflict entry_id,
                j\<lparr>ij_fence := l, ij_pages := (ij_pages j)(fn_run_id fence \<mapsto> page)\<rparr>)
           | (New_entry, seen) \<Rightarrow>
               (Fence_ok,
                j\<lparr>ij_fence := l,
                  ij_pages :=
                    (ij_pages j)(fn_run_id fence \<mapsto> (land jfact page)\<lparr>jp_seen := seen\<rparr>)\<rparr>)))"

definition appendTransition ::
  "RunJournal \<Rightarrow> RunFence \<Rightarrow> string \<Rightarrow> TransitionEntry \<Rightarrow> FenceOutcome \<times> RunJournal" where
  "appendTransition j fence entry_id transition =
     append_fact j fence entry_id (Transition_fact transition)"

definition appendRejection ::
  "RunJournal \<Rightarrow> RunFence \<Rightarrow> string \<Rightarrow> RejectionEntry \<Rightarrow> FenceOutcome \<times> RunJournal" where
  "appendRejection j fence entry_id rejection =
     append_fact j fence entry_id (Rejection_fact rejection)"

definition appendAcquisition ::
  "RunJournal \<Rightarrow> RunFence \<Rightarrow> string \<Rightarrow> JournaledAcquisition \<Rightarrow> FenceOutcome \<times> RunJournal" where
  "appendAcquisition j fence entry_id acquisition =
     append_fact j fence entry_id (Acquisition_fact acquisition)"

definition appendHold ::
  "RunJournal \<Rightarrow> RunFence \<Rightarrow> string \<Rightarrow> JournaledHold \<Rightarrow> FenceOutcome \<times> RunJournal" where
  "appendHold j fence entry_id jhold = append_fact j fence entry_id (Hold_fact jhold)"

text \<open>
  Staging: the refusal detail, or the rows in the page under their commit. The handle it
  returns abandons the commit in the page it staged into.
\<close>

definition stageTransitions ::
  "RunJournal \<Rightarrow> RunFence \<Rightarrow> string \<Rightarrow> TransitionEntry list \<Rightarrow> string option \<times> RunJournal" where
  "stageTransitions j fence commit_id transitions =
     (case fence_refuse (ij_fence j) fence of
        (Some detail, l) \<Rightarrow> (Some detail, j\<lparr>ij_fence := l\<rparr>)
      | (None, l) \<Rightarrow>
          let page = page_of j (fn_run_id fence) in
          (None,
           j\<lparr>ij_fence := l,
             ij_pages :=
               (ij_pages j)(fn_run_id fence \<mapsto>
                  page\<lparr>jp_transitions :=
                    jp_transitions page @ map (\<lambda>entry. (Some commit_id, entry)) transitions\<rparr>)\<rparr>))"

definition abandon_transitions :: "RunJournal \<Rightarrow> string \<Rightarrow> string \<Rightarrow> RunJournal" where
  "abandon_transitions j run_id commit_id =
     (case ij_pages j run_id of
        None \<Rightarrow> j
      | Some page \<Rightarrow>
          j\<lparr>ij_pages :=
              (ij_pages j)(run_id \<mapsto>
                page\<lparr>jp_transitions :=
                  filter (\<lambda>row. fst row \<noteq> Some commit_id) (jp_transitions page)\<rparr>)\<rparr>)"

record JournaledState =
  js_run_id :: string
  js_state :: LifecycleState
  js_transitions :: "TransitionEntry list"
  js_rejections :: "RejectionEntry list"
  js_acquisitions :: "JournaledAcquisition list"
  js_held :: "JournaledHold option"

definition visible_transitions :: "CommitLedger \<Rightarrow> JournalPages \<Rightarrow> TransitionEntry list" where
  "visible_transitions visibility page =
     map snd (filter (\<lambda>row. isVisible visibility (fst row)) (jp_transitions page))"

definition readCurrentState ::
  "CommitLedger \<Rightarrow> RunJournal \<Rightarrow> string \<Rightarrow> JournaledState option" where
  "readCurrentState visibility j run_id =
     (case ij_pages j run_id of
        None \<Rightarrow> None
      | Some page \<Rightarrow>
          let transitions = visible_transitions visibility page in
          if transitions = [] \<and> jp_rejections page = [] \<and> jp_acquisitions page = [] \<and>
             jp_held page = None then None
          else
            Some \<lparr>js_run_id = run_id,
                  js_state = (if transitions = [] then REQUESTED else te_to (last transitions)),
                  js_transitions = transitions, js_rejections = jp_rejections page,
                  js_acquisitions = jp_acquisitions page, js_held = jp_held page\<rparr>)"

section \<open>The outbox\<close>

type_synonym OutboxEntry = "string \<times> OutboxFact"

record JournalOutbox =
  ob_pending :: "OutboxEntry list"
  ob_prefix :: string
  ob_minted :: nat

definition new_outbox :: "string \<Rightarrow> JournalOutbox" where
  "new_outbox pre = \<lparr>ob_pending = [], ob_prefix = pre, ob_minted = 0\<rparr>"

definition entry_identity :: "string \<Rightarrow> nat \<Rightarrow> string" where
  "entry_identity pre n = template [pre, ''#j'', string_of_int (int n)]"

text \<open>\<^verbatim>\<open>record\<close>: the fact enters the queue under a freshly minted identity.\<close>

definition outbox_record :: "OutboxFact \<Rightarrow> JournalOutbox \<Rightarrow> JournalOutbox" where
  "outbox_record jfact b =
     b\<lparr>ob_minted := ob_minted b + 1,
       ob_pending := ob_pending b @ [(entry_identity (ob_prefix b) (ob_minted b + 1), jfact)]\<rparr>"

definition drainMachine :: "RunMachine \<Rightarrow> JournalOutbox \<Rightarrow> RunMachine \<times> JournalOutbox" where
  "drainMachine m b =
     (let (transitions, rejections) = pendingJournal m;
          b1 = fold (\<lambda>t. outbox_record (Transition_fact t)) transitions b;
          b2 = fold (\<lambda>r. outbox_record (Rejection_fact r)) rejections b1 in
      (confirmJournaled (length transitions) (length rejections) m, b2))"

definition outbox_head :: "JournalOutbox \<Rightarrow> OutboxEntry option" where
  "outbox_head b = (case ob_pending b of [] \<Rightarrow> None | e # _ \<Rightarrow> Some e)"

definition outbox_landed :: "JournalOutbox \<Rightarrow> JournalOutbox" where
  "outbox_landed b = b\<lparr>ob_pending := tl (ob_pending b)\<rparr>"

definition outbox_isEmpty :: "JournalOutbox \<Rightarrow> bool" where
  "outbox_isEmpty b \<longleftrightarrow> length (ob_pending b) = 0"

section \<open>The flush\<close>

text \<open>
  What the journal port answers an append: an outcome, or a fault (a rejected promise). The
  journal may have landed the fact before either. \<open>'j\<close> is the store behind the port.
\<close>

datatype port_answer = Answered FenceOutcome | Faulted

datatype flush_result = Flushed | Flush_conflict | Flush_fence_lost string | Flush_fault

text \<open>
  The loop of \<^verbatim>\<open>#flushJournal\<close>, over the pending entries from the head: one append per entry,
  the head removed only when it landed.
\<close>

fun flush_entries ::
  "('j \<Rightarrow> OutboxEntry \<Rightarrow> port_answer \<times> 'j) \<Rightarrow> OutboxEntry list \<Rightarrow> 'j \<Rightarrow>
   flush_result \<times> OutboxEntry list \<times> 'j" where
  "flush_entries port [] j = (Flushed, [], j)"
| "flush_entries port (entry # pending) j =
     (case port j entry of
        (Faulted, j') \<Rightarrow> (Flush_fault, entry # pending, j')
      | (Answered (Fence_refused Conflicting_replay detail), j') \<Rightarrow>
          (Flush_conflict, entry # pending, j')
      | (Answered (Fence_refused Stale_fence detail), j') \<Rightarrow>
          (Flush_fence_lost detail, entry # pending, j')
      | (Answered Fence_ok, j') \<Rightarrow> flush_entries port pending j')"

text \<open>
  \<^verbatim>\<open>#flushJournal\<close>: nothing once the fence is lost; otherwise the machine is drained first. A
  stale fence is recorded as the loss.
\<close>

definition flushJournal ::
  "('j \<Rightarrow> OutboxEntry \<Rightarrow> port_answer \<times> 'j) \<Rightarrow>
   string option \<times> RunMachine \<times> JournalOutbox \<Rightarrow> 'j \<Rightarrow>
   (string option \<times> RunMachine \<times> JournalOutbox) \<times> 'j" where
  "flushJournal port scope j =
     (case scope of (fenceLost, m, b) \<Rightarrow>
        if fenceLost \<noteq> None then (scope, j)
        else
          let (m1, b1) = drainMachine m b;
              (result, pending, j') = flush_entries port (ob_pending b1) j;
              lost = (case result of Flush_fence_lost detail \<Rightarrow> Some detail | _ \<Rightarrow> None) in
          ((lost, m1, b1\<lparr>ob_pending := pending\<rparr>), j'))"

text \<open>\<^verbatim>\<open>#append\<close> against the journal itself, by category.\<close>

definition append_entry ::
  "RunFence \<Rightarrow> RunJournal \<Rightarrow> OutboxEntry \<Rightarrow> port_answer \<times> RunJournal" where
  "append_entry fence j entry =
     (case entry of
        (entry_id, Transition_fact t) \<Rightarrow> map_prod Answered id (appendTransition j fence entry_id t)
      | (entry_id, Rejection_fact r) \<Rightarrow> map_prod Answered id (appendRejection j fence entry_id r)
      | (entry_id, Acquisition_fact a) \<Rightarrow>
          map_prod Answered id (appendAcquisition j fence entry_id a)
      | (entry_id, Hold_fact h) \<Rightarrow> map_prod Answered id (appendHold j fence entry_id h))"

section \<open>Lemmas on the journal\<close>

definition run_fence :: "string \<Rightarrow> int \<Rightarrow> RunFence" where
  "run_fence run g = \<lparr>fn_run_id = run, fn_generation = g\<rparr>"

lemma run_fence_simps [simp]:
  "fn_run_id (run_fence r g) = r" "fn_generation (run_fence r g) = g"
  by (simp_all add: run_fence_def)

lemma new_journal_simps [simp]:
  "ij_pages new_journal = Map.empty" "ij_fence new_journal = Map.empty"
  "page_of new_journal r = empty_page" "ij_pages new_journal r = None"
  by (simp_all add: new_journal_def page_of_def)

lemma empty_page_simps [simp]:
  "jp_transitions empty_page = []" "jp_rejections empty_page = []"
  "jp_acquisitions empty_page = []" "jp_held empty_page = None" "jp_seen empty_page = Map.empty"
  by (simp_all add: empty_page_def)

text \<open>The definitions an append is evaluated with at a concrete journal.\<close>

lemmas append_eval = append_fact_def fence_outcome_def fence_refuse_def classify_def page_of_def Let_def

lemma append_fact_refused:
  assumes "fst (fence_refuse (ij_fence j) f) = Some d"
  shows "append_fact j f k x = (Fence_refused Stale_fence d, j)"
  using assms fence_refuse_cases(3)[of "ij_fence j" f]
  by (simp add: append_fact_def fence_outcome_refuse)

lemma append_fact_admitted:
  assumes "fst (fence_refuse (ij_fence j) f) = None"
  shows "append_fact j f k x =
    (let page = page_of j (fn_run_id f);
         j1 = j\<lparr>ij_fence := (ij_fence j)(fn_run_id f \<mapsto> fn_generation f)\<rparr> in
     case jp_seen page k of
       None \<Rightarrow> (Fence_ok, j1\<lparr>ij_pages := (ij_pages j)(fn_run_id f \<mapsto>
          (land x page)\<lparr>jp_seen := (jp_seen page)(k \<mapsto> x)\<rparr>)\<rparr>)
     | Some y \<Rightarrow> ((if y = x then Fence_ok else conflict k),
          j1\<lparr>ij_pages := (ij_pages j)(fn_run_id f \<mapsto> page)\<rparr>))"
  using assms fence_refuse_cases(2)[of "ij_fence j" f]
  by (auto simp: append_fact_def fence_outcome_refuse classify_def Let_def split: option.splits)

lemma page_of_update [simp]:
  "page_of (j\<lparr>ij_pages := (ij_pages j)(r \<mapsto> p)\<rparr>) r = p"
  "page_of (j\<lparr>ij_fence := l, ij_pages := (ij_pages j)(r \<mapsto> p)\<rparr>) r = p"
  "page_of (j\<lparr>ij_fence := l\<rparr>) r = page_of j r"
  by (simp_all add: page_of_def)

text \<open>What one append does to the facts remembered of the run.\<close>

definition journal_facts :: "string \<Rightarrow> RunJournal \<Rightarrow> string \<rightharpoonup> OutboxFact" where
  "journal_facts run_id j = jp_seen (page_of j run_id)"

lemma append_fact_facts:
  assumes "append_fact j f k x = (answer, j')"
  shows "journal_facts (fn_run_id f) j' = journal_facts (fn_run_id f) j \<and> answer \<noteq> Fence_ok
    \<or> journal_facts (fn_run_id f) j' = journal_facts (fn_run_id f) j \<and>
        journal_facts (fn_run_id f) j k = Some x
    \<or> journal_facts (fn_run_id f) j k = None \<and> answer = Fence_ok \<and>
        journal_facts (fn_run_id f) j' = (journal_facts (fn_run_id f) j)(k \<mapsto> x)"
proof (cases "fst (fence_refuse (ij_fence j) f)")
  case None
  then show ?thesis
    using assms
    by (auto simp: append_fact_admitted journal_facts_def conflict_def Let_def
        split: option.splits if_splits)
next
  case (Some d)
  then show ?thesis using assms append_fact_refused by auto
qed

section \<open>The journal port the flush relies on\<close>

text \<open>
  What the flush loop may rely on of the port, acknowledgements lost or not: an append lands
  its own fact or nothing, never over a fact already landed under the identity, and an
  acknowledgement means the fact is durable.
\<close>

locale journal_port =
  fixes port :: "'j \<Rightarrow> OutboxEntry \<Rightarrow> port_answer \<times> 'j"
    and durable :: "'j \<Rightarrow> string \<rightharpoonup> OutboxFact"
  assumes lands_or_nothing: "port j e = (answer, j') \<Longrightarrow>
      durable j' = durable j \<or>
      durable j (fst e) = None \<and> durable j' = (durable j)(fst e \<mapsto> snd e)"
    and acknowledged: "port j e = (Answered Fence_ok, j') \<Longrightarrow> durable j' (fst e) = Some (snd e)"
begin

lemma durable_grows:
  assumes "port j e = (answer, j')"
  shows "durable j \<subseteq>\<^sub>m durable j'"
  using lands_or_nothing[OF assms] by (auto simp: map_le_def)

text \<open>
  The flush lands a prefix of the queue and keeps the rest: every entry removed is durable,
  every entry removed or not is at most where it was, and nothing behind the first entry kept
  was touched.
\<close>

lemma flush_prefix:
  "flush_entries port es j = (result, rest, j') \<Longrightarrow>
   \<exists>done_es. es = done_es @ rest \<and>
     (\<forall>e \<in> set done_es. durable j' (fst e) = Some (snd e)) \<and>
     durable j \<subseteq>\<^sub>m durable j' \<and>
     dom (durable j') \<subseteq> dom (durable j) \<union> fst ` set (done_es @ take 1 rest) \<and>
     (result = Flushed \<longleftrightarrow> rest = [])"
proof (induction es arbitrary: j)
  case (Cons e es)
  obtain answer j1 where p: "port j e = (answer, j1)" by (rule prod.exhaust)
  have step: "durable j \<subseteq>\<^sub>m durable j1" "dom (durable j1) \<subseteq> insert (fst e) (dom (durable j))"
    using durable_grows[OF p] lands_or_nothing[OF p] by auto
  show ?case
  proof (cases "answer = Answered Fence_ok")
    case True
    then have "flush_entries port es j1 = (result, rest, j')" using Cons.prems p by simp
    from Cons.IH[OF this] obtain done_es where d: "es = done_es @ rest"
        "\<forall>e \<in> set done_es. durable j' (fst e) = Some (snd e)" "durable j1 \<subseteq>\<^sub>m durable j'"
        "dom (durable j') \<subseteq> dom (durable j1) \<union> fst ` set (done_es @ take 1 rest)"
        "(result = Flushed) = (rest = [])" by blast
    have "durable j' (fst e) = Some (snd e)"
      using acknowledged p True d(3) by (metis domI map_le_def)
    moreover have "durable j \<subseteq>\<^sub>m durable j'" using step(1) d(3) by (rule map_le_trans)
    moreover have "dom (durable j') \<subseteq> dom (durable j) \<union> fst ` set ((e # done_es) @ take 1 rest)"
    proof (rule subset_trans[OF d(4)])
      show "dom (durable j1) \<union> fst ` set (done_es @ take 1 rest) \<subseteq>
          dom (durable j) \<union> fst ` set ((e # done_es) @ take 1 rest)"
        using step(2) by (simp only: set_append append_Cons list.set image_Un image_insert) blast
    qed
    ultimately show ?thesis
      using d(1,2,5) by (intro exI[of _ "e # done_es"]) simp
  next
    case False
    then have "rest = e # es" "j' = j1" "result \<noteq> Flushed"
      using Cons.prems p
      by (auto split: port_answer.splits FenceOutcome.splits FenceReason.splits)
    then show ?thesis using step by (intro exI[of _ "[]"]) auto
  qed
qed auto

lemma flushed_all_durable:
  assumes "flush_entries port es j = (Flushed, rest, j')" and "e \<in> set es"
  shows "durable j' (fst e) = Some (snd e)"
  using flush_prefix[OF assms(1)] assms(2) by auto

end

text \<open>A port that loses acknowledgements: the append happens, and the answer is a fault.\<close>

definition lossy ::
  "('j \<Rightarrow> OutboxEntry \<Rightarrow> port_answer \<times> 'j) \<Rightarrow> 'j \<times> bool list \<Rightarrow> OutboxEntry \<Rightarrow>
   port_answer \<times> ('j \<times> bool list)" where
  "lossy port st e =
     (let (answer, j') = port (fst st) e in
      case snd st of
        True # losses \<Rightarrow> (Faulted, (j', losses))
      | _ # losses \<Rightarrow> (answer, (j', losses))
      | [] \<Rightarrow> (answer, (j', [])))"

context journal_port
begin

lemma lossy_is_a_port: "journal_port (lossy port) (\<lambda>st. durable (fst st))"
proof
  fix st e answer st'
  assume l: "lossy port st e = (answer, st')"
  obtain a j1 where p: "port (fst st) e = (a, j1)" by (rule prod.exhaust)
  then have "fst st' = j1 \<and> (answer = Faulted \<or> answer = a)"
    using l by (auto simp: lossy_def split: list.splits bool.splits)
  then show "durable (fst st') = durable (fst st) \<or>
      durable (fst st) (fst e) = None \<and> durable (fst st') = (durable (fst st))(fst e \<mapsto> snd e)"
    using lands_or_nothing[OF p] by simp
next
  fix st e st'
  assume l: "lossy port st e = (Answered Fence_ok, st')"
  obtain a j1 where p: "port (fst st) e = (a, j1)" by (rule prod.exhaust)
  then have "fst st' = j1 \<and> a = Answered Fence_ok"
    using l by (auto simp: lossy_def split: list.splits bool.splits)
  then show "durable (fst st') (fst e) = Some (snd e)" using acknowledged p by simp
qed

end

lemma append_entry_fact:
  "append_entry f j (k, x) = map_prod Answered id (append_fact j f k x)"
  by (cases x)
    (simp_all add: append_entry_def appendTransition_def appendRejection_def
      appendAcquisition_def appendHold_def)

interpretation journal: journal_port "append_entry f" "journal_facts (fn_run_id f)" for f
proof
  fix j e answer j'
  assume "append_entry f j e = (answer, j')"
  then obtain out where "append_fact j f (fst e) (snd e) = (out, j')"
    using append_entry_fact[of f j "fst e" "snd e"]
    by (cases "append_fact j f (fst e) (snd e)") auto
  from append_fact_facts[OF this]
  show "journal_facts (fn_run_id f) j' = journal_facts (fn_run_id f) j \<or>
      journal_facts (fn_run_id f) j (fst e) = None \<and>
      journal_facts (fn_run_id f) j' = (journal_facts (fn_run_id f) j)(fst e \<mapsto> snd e)"
    by blast
next
  fix j e j'
  assume "append_entry f j e = (Answered Fence_ok, j')"
  then have "append_fact j f (fst e) (snd e) = (Fence_ok, j')"
    using append_entry_fact[of f j "fst e" "snd e"]
    by (cases "append_fact j f (fst e) (snd e)") auto
  from append_fact_facts[OF this] show "journal_facts (fn_run_id f) j' (fst e) = Some (snd e)"
    by auto
qed

interpretation lossy_journal: journal_port "lossy (append_entry f)"
    "\<lambda>st. journal_facts (fn_run_id f) (fst st)" for f
  by (rule journal.lossy_is_a_port)

section \<open>Every fact lands once\<close>

fun transition_of :: "OutboxFact \<Rightarrow> TransitionEntry option" where
  "transition_of (Transition_fact t) = Some t"
| "transition_of _ = None"

fun rejection_of :: "OutboxFact \<Rightarrow> RejectionEntry option" where
  "rejection_of (Rejection_fact r) = Some r"
| "rejection_of _ = None"

fun acquisition_of :: "OutboxFact \<Rightarrow> JournaledAcquisition option" where
  "acquisition_of (Acquisition_fact a) = Some a"
| "acquisition_of _ = None"

definition ordinary_rows :: "JournalPages \<Rightarrow> TransitionEntry list" where
  "ordinary_rows page = map snd (filter (\<lambda>row. fst row = None) (jp_transitions page))"

text \<open>
  A page is the record of a sequence of entries with distinct identities: the ledger is their
  map, and the rows of each category are the facts of that category, in order.
\<close>

definition records :: "JournalPages \<Rightarrow> OutboxEntry list \<Rightarrow> bool" where
  "records page es \<longleftrightarrow>
     distinct (map fst es) \<and> jp_seen page = map_of es \<and>
     ordinary_rows page = List.map_filter transition_of (map snd es) \<and>
     jp_rejections page = List.map_filter rejection_of (map snd es) \<and>
     jp_acquisitions page = List.map_filter acquisition_of (map snd es)"

lemma map_filter_snoc:
  "List.map_filter f (xs @ [x]) = List.map_filter f xs @ (case f x of None \<Rightarrow> [] | Some y \<Rightarrow> [y])"
  by (simp add: List.map_filter_def split: option.splits)

lemma map_of_snoc:
  "k \<notin> fst ` set es \<Longrightarrow> map_of (es @ [(k, x)]) = (map_of es)(k \<mapsto> x)"
proof
  fix y
  assume "k \<notin> fst ` set es"
  then have "map_of es k = None" by (simp add: map_of_None_iff)
  then show "map_of (es @ [(k, x)]) y = ((map_of es)(k \<mapsto> x)) y"
    by (cases "map_of es y") (auto simp: map_add_def)
qed

lemma records_empty [simp]: "records empty_page []"
  by (simp add: records_def empty_page_def ordinary_rows_def List.map_filter_def)

lemma records_land:
  assumes "records page es" and "jp_seen page k = None"
  shows "records ((land x page)\<lparr>jp_seen := (jp_seen page)(k \<mapsto> x)\<rparr>) (es @ [(k, x)])"
proof -
  have fresh: "k \<notin> fst ` set es" using assms by (simp add: records_def map_of_None_iff)
  have "jp_seen page = map_of es" using assms(1) by (simp add: records_def)
  then have seen: "(jp_seen page)(k \<mapsto> x) = map_of (es @ [(k, x)])"
    using map_of_snoc[OF fresh] by simp
  show ?thesis
    unfolding records_def seen
    using assms(1) fresh
    by (cases x) (simp_all del: map_of_append add: records_def ordinary_rows_def map_filter_snoc)
qed

definition wf_journal :: "RunJournal \<Rightarrow> bool" where
  "wf_journal j \<longleftrightarrow> (\<forall>run page. ij_pages j run = Some page \<longrightarrow> (\<exists>es. records page es))"

lemma wf_journal_page: "wf_journal j \<Longrightarrow> \<exists>es. records (page_of j run) es"
  unfolding wf_journal_def page_of_def by (auto split: option.splits intro: records_empty)

lemma wf_journal_update:
  "wf_journal j \<Longrightarrow> records page es \<Longrightarrow>
   wf_journal (j\<lparr>ij_fence := l, ij_pages := (ij_pages j)(run \<mapsto> page)\<rparr>)"
  by (auto simp: wf_journal_def)

lemma wf_append:
  assumes "wf_journal j"
  shows "wf_journal (snd (append_fact j f k x))"
proof (cases "fst (fence_refuse (ij_fence j) f)")
  case (Some d)
  then show ?thesis using assms append_fact_refused by simp
next
  case None
  obtain es where es: "records (page_of j (fn_run_id f)) es" using wf_journal_page[OF assms] by blast
  show ?thesis
  proof (cases "jp_seen (page_of j (fn_run_id f)) k")
    case None': None
    show ?thesis
      using wf_journal_update[OF assms records_land[OF es None']]
      by (simp add: append_fact_admitted[OF None] None' Let_def)
  next
    case (Some y)
    show ?thesis
      using wf_journal_update[OF assms es] by (simp add: append_fact_admitted[OF None] Some Let_def)
  qed
qed

lemma records_rows:
  assumes "records page es"
    and "filter (\<lambda>row. fst row = None) rows = filter (\<lambda>row. fst row = None) (jp_transitions page)"
  shows "records (page\<lparr>jp_transitions := rows\<rparr>) es"
  using assms by (simp add: records_def ordinary_rows_def)

lemma filter_staged_rows: "filter (\<lambda>row. fst row = None) (map (\<lambda>e. (Some c, e)) ts) = []"
  by (induction ts) auto

lemma wf_stage:
  assumes "wf_journal j"
  shows "wf_journal (snd (stageTransitions j f c ts))"
proof -
  let ?page = "page_of j (fn_run_id f)"
  obtain es where es: "records ?page es" using wf_journal_page[OF assms] by blast
  have "records (?page\<lparr>jp_transitions := jp_transitions ?page @ map (\<lambda>e. (Some c, e)) ts\<rparr>) es"
    by (rule records_rows[OF es]) (simp add: filter_staged_rows)
  then show ?thesis
    using wf_journal_update[OF assms] assms
    by (auto simp: stageTransitions_def Let_def wf_journal_def split: prod.splits option.splits)
qed

lemma wf_abandon:
  assumes "wf_journal j"
  shows "wf_journal (abandon_transitions j run c)"
proof (cases "ij_pages j run")
  case None
  then show ?thesis using assms by (simp add: abandon_transitions_def)
next
  case (Some page)
  then obtain es where es: "records page es" using assms by (auto simp: wf_journal_def)
  have "filter (\<lambda>row. fst row = None) (filter (\<lambda>row. fst row \<noteq> Some c) (jp_transitions page)) =
      filter (\<lambda>row. fst row = None) (jp_transitions page)"
    by (auto intro: filter_cong)
  from records_rows[OF es this] Some assms show ?thesis
    by (auto simp: abandon_transitions_def wf_journal_def)
qed

text \<open>One operation of the journal, by any caller with any fence.\<close>

inductive journal_step :: "RunJournal \<Rightarrow> RunJournal \<Rightarrow> bool" where
  journal_append: "journal_step j (snd (append_fact j f k x))"
| journal_stage: "journal_step j (snd (stageTransitions j f c ts))"
| journal_abandon: "journal_step j (abandon_transitions j run c)"

inductive journal_reachable :: "RunJournal \<Rightarrow> bool" where
  journal_start: "journal_reachable new_journal"
| journal_next: "journal_reachable j \<Longrightarrow> journal_step j j' \<Longrightarrow> journal_reachable j'"

lemma wf_journal_reachable: "journal_reachable j \<Longrightarrow> wf_journal j"
proof (induction rule: journal_reachable.induct)
  case journal_start
  then show ?case by (simp add: wf_journal_def new_journal_def)
next
  case (journal_next j j')
  from journal_next.hyps(2) journal_next.IH show ?case
    by (induction rule: journal_step.induct) (auto intro: wf_append wf_stage wf_abandon)
qed

section \<open>Reading\<close>

lemma visible_transitions_rows:
  "visible_transitions v page = ledger.visible_rows v (jp_transitions page)"
  unfolding visible_transitions_def ledger.visible_rows_def
  by (rule arg_cong[of _ _ "map snd"], rule filter_cong) (auto simp: isVisible_def)

text \<open>A run without a page reads like one with an empty page: there is no journal.\<close>

lemma readCurrentState_page:
  "readCurrentState v j run =
   (let page = page_of j run; transitions = visible_transitions v page in
    if transitions = [] \<and> jp_rejections page = [] \<and> jp_acquisitions page = [] \<and> jp_held page = None
    then None
    else Some \<lparr>js_run_id = run,
               js_state = (if transitions = [] then REQUESTED else te_to (last transitions)),
               js_transitions = transitions, js_rejections = jp_rejections page,
               js_acquisitions = jp_acquisitions page, js_held = jp_held page\<rparr>)"
  by (auto simp: readCurrentState_def page_of_def empty_page_def visible_transitions_def Let_def
      split: option.splits)

lemma stage_page:
  assumes "stageTransitions j f c ts = (None, j')"
  shows "page_of j' (fn_run_id f) =
    (page_of j (fn_run_id f))\<lparr>jp_transitions :=
       jp_transitions (page_of j (fn_run_id f)) @ map (\<lambda>e. (Some c, e)) ts\<rparr>"
  using assms by (auto simp: stageTransitions_def Let_def split: prod.splits option.splits)

lemma map_Pair_Some: "map (\<lambda>e. (Some c, e)) ts = map (Pair (Some c)) ts"
  by simp

section \<open>Properties\<close>

text \<open>
  C35: One physical fact, one durable fact. In every reachable journal, under any
  interleaving of appends with any fences, retries, conflicting replays, staging and abandoning,
  the page of a run is the record of a sequence of entries with distinct identities: each
  identity landed once, with one fact, and each category's rows are exactly its facts in order.
\<close>

theorem journal_records_each_identity_once:
  assumes "journal_reachable j" and "ij_pages j run = Some page"
  shows "\<exists>es. distinct (map fst es) \<and> jp_seen page = map_of es \<and>
    ordinary_rows page = List.map_filter transition_of (map snd es) \<and>
    jp_rejections page = List.map_filter rejection_of (map snd es) \<and>
    jp_acquisitions page = List.map_filter acquisition_of (map snd es)"
  using wf_journal_reachable[OF assms(1)] assms(2) unfolding wf_journal_def records_def by blast

definition sample_transition :: TransitionEntry where
  "sample_transition =
     \<lparr>te_run_id = ''r'', te_from = REQUESTED, te_to = PROFILE_RESOLVED, te_kind = resolve_profile,
      te_cause = ''ok'', te_at = ''t''\<rparr>"

lemma journal_records_each_identity_once_witness:
  "\<exists>page es. page = page_of (snd (append_fact (snd (append_fact new_journal (run_fence ''r'' 1) ''a''
        (Transition_fact sample_transition))) (run_fence ''r'' 1) ''a'' (Transition_fact sample_transition))) ''r'' \<and>
     jp_seen page = map_of es \<and> ordinary_rows page = [sample_transition] \<and>
     ordinary_rows page = List.map_filter transition_of (map snd es)"
proof -
  let ?x = "Transition_fact sample_transition"
  let ?j1 = "snd (append_fact new_journal (run_fence ''r'' 1) ''a'' ?x)"
  let ?j2 = "snd (append_fact ?j1 (run_fence ''r'' 1) ''a'' ?x)"
  have reach: "journal_reachable ?j2"
    by (rule journal_next[OF journal_next[OF journal_start journal_append] journal_append])
  have pages: "ij_pages ?j2 ''r'' = Some ((land ?x empty_page)\<lparr>jp_seen := [''a'' \<mapsto> ?x]\<rparr>)"
    by (simp add: append_eval)
  then have "ij_pages ?j2 ''r'' = Some (page_of ?j2 ''r'')" by (simp add: page_of_def)
  from journal_records_each_identity_once[OF reach this]
  obtain es where "jp_seen (page_of ?j2 ''r'') = map_of es"
      "ordinary_rows (page_of ?j2 ''r'') = List.map_filter transition_of (map snd es)"
    by blast
  moreover have "ordinary_rows (page_of ?j2 ''r'') = [sample_transition]"
    using pages by (simp add: page_of_def ordinary_rows_def empty_page_def)
  ultimately show ?thesis by blast
qed

text \<open>
  An append that was acknowledged is resolved by repeating it: the same identity with
  the same fact is acknowledged again, with another fact refused as a conflicting replay, and in
  both cases every reader of the run sees what it saw before.
\<close>

theorem append_replay:
  assumes "append_fact j f k x = (Fence_ok, j')"
    and "fn_run_id g = fn_run_id f" and "fn_generation f \<le> fn_generation g"
  shows "fst (append_fact j' g k y) = (if y = x then Fence_ok else conflict k) \<and>
    readCurrentState v (snd (append_fact j' g k y)) (fn_run_id f) =
      readCurrentState v j' (fn_run_id f)"
proof -
  have adm: "fst (fence_refuse (ij_fence j) f) = None"
    using assms(1) append_fact_refused[of j f _ k x] by (cases "fst (fence_refuse (ij_fence j) f)") auto
  have seen: "jp_seen (page_of j' (fn_run_id f)) k = Some x"
    using append_fact_facts[OF assms(1)] by (auto simp: journal_facts_def)
  have "ij_fence j' (fn_run_id f) = Some (fn_generation f)"
    using assms(1) by (auto simp: append_fact_admitted[OF adm] Let_def split: option.splits)
  then have "fst (fence_refuse (ij_fence j') g) = None"
    using assms(2,3) by (simp add: fence_refuse_cases(1))
  from append_fact_admitted[OF this, of k y] show ?thesis
    using seen assms(2) by (auto simp: readCurrentState_page Let_def)
qed

lemma append_replay_witness:
  "let j' = snd (append_fact new_journal (run_fence ''r'' 1) ''a'' (Transition_fact sample_transition)) in
   append_fact new_journal (run_fence ''r'' 1) ''a'' (Transition_fact sample_transition) = (Fence_ok, j') \<and>
   fst (append_fact j' (run_fence ''r'' 2) ''a'' (Transition_fact (sample_transition\<lparr>te_cause := ''z''\<rparr>))) =
     conflict ''a''"
proof -
  let ?x = "Transition_fact sample_transition"
  let ?j' = "snd (append_fact new_journal (run_fence ''r'' 1) ''a'' ?x)"
  have ok: "append_fact new_journal (run_fence ''r'' 1) ''a'' ?x = (Fence_ok, ?j')"
    by (simp add: append_eval)
  have "Transition_fact (sample_transition\<lparr>te_cause := ''z''\<rparr>) \<noteq> ?x"
    by (simp add: sample_transition_def)
  with append_replay[OF ok, of "run_fence ''r'' 2" "Transition_fact (sample_transition\<lparr>te_cause := ''z''\<rparr>)"] ok
  show ?thesis by (simp add: run_fence_def Let_def)
qed

text \<open>
  A staged tail cannot be observed until its commit is published, and is then observed
  as a whole: staging changes nothing any reader sees while the commit is unpublished; publishing
  the commit appends exactly the staged transitions to what is read; abandoning instead leaves
  every reader, whatever is published later, with what it would have seen without the staging.
\<close>

theorem staged_tail_is_atomic:
  assumes "stageTransitions j f c ts = (None, j')" and "run = fn_run_id f"
    and "\<forall>row \<in> set (jp_transitions (page_of j run)). fst row \<noteq> Some c"
  shows "(\<not> isPublished v c \<longrightarrow> readCurrentState v j' run = readCurrentState v j run) \<and>
    visible_transitions (publish v c) (page_of j' run) =
      visible_transitions v (page_of j run) @ ts \<and>
    readCurrentState v (abandon_transitions j' run c) run = readCurrentState v j run"
proof -
  note page = stage_page[OF assms(1), folded assms(2)]
  have fresh: "\<forall>(d, _) \<in> set (jp_transitions (page_of j run)). d \<noteq> Some c" using assms(3) by auto
  have 1: "visible_transitions v (page_of j' run) = visible_transitions v (page_of j run)"
    if "\<not> isPublished v c"
    using ledger.staged_invisible[OF that] by (simp add: visible_transitions_rows page)
  have 2: "visible_transitions (publish v c) (page_of j' run) =
      visible_transitions v (page_of j run) @ ts"
    using ledger.published_visible[OF fresh] by (simp add: visible_transitions_rows page)
  have "ij_pages j' run = Some (page_of j' run)"
    using assms(1,2)
    by (auto simp: stageTransitions_def page_of_def Let_def split: prod.splits option.splits)
  moreover have "filter (\<lambda>row. fst row \<noteq> Some c) (jp_transitions (page_of j' run)) =
      jp_transitions (page_of j run)"
    using assms(3) by (auto simp: page filter_id_conv intro: filter_False)
  ultimately have 3: "page_of (abandon_transitions j' run c) run = page_of j run"
    by (simp add: abandon_transitions_def page)
  from 1 2 3 show ?thesis by (simp add: readCurrentState_page page Let_def)
qed

lemma staged_tail_is_atomic_witness:
  "let j' = snd (stageTransitions new_journal (run_fence ''r'' 1) ''c'' [sample_transition]) in
   readCurrentState [] j' ''r'' = readCurrentState [] new_journal ''r'' \<and>
   visible_transitions (publish [] ''c'') (page_of j' ''r'') =
     visible_transitions [] (page_of new_journal ''r'') @ [sample_transition]"
proof -
  let ?j' = "snd (stageTransitions new_journal (run_fence ''r'' 1) ''c'' [sample_transition])"
  have st: "stageTransitions new_journal (run_fence ''r'' 1) ''c'' [sample_transition] = (None, ?j')"
    by (simp add: stageTransitions_def fence_refuse_def Let_def)
  have "''r'' = fn_run_id (run_fence ''r'' 1)" by simp
  moreover have "\<forall>row \<in> set (jp_transitions (page_of new_journal ''r'')). fst row \<noteq> Some ''c''"
    by simp
  ultimately show ?thesis
    using staged_tail_is_atomic[OF st, of "''r''" "[]"] by (simp add: isPublished_def Let_def)
qed

text \<open>
  C36: A flush lands the outbox in order even when acknowledgements are lost: it removes a
  prefix of the queue, every removed entry is durable with its own fact, no landed fact is
  overwritten, and nothing behind the first entry it keeps has been written.
\<close>

theorem flush_lands_a_prefix:
  assumes "flush_entries (lossy (append_entry f)) es (j, losses) = (result, rest, (j', losses'))"
    and "run = fn_run_id f"
  shows "\<exists>done_es. es = done_es @ rest \<and>
    (\<forall>e \<in> set done_es. journal_facts run j' (fst e) = Some (snd e)) \<and>
    journal_facts run j \<subseteq>\<^sub>m journal_facts run j' \<and>
    dom (journal_facts run j') \<subseteq> dom (journal_facts run j) \<union> fst ` set (done_es @ take 1 rest) \<and>
    (result = Flushed \<longleftrightarrow> rest = [])"
  using lossy_journal.flush_prefix[OF assms(1)] assms(2) by simp

lemma flush_lands_a_prefix_witness:
  "\<exists>result rest j' losses' done_es.
     flush_entries (lossy (append_entry (run_fence ''r'' 1)))
       [(''a'', Transition_fact sample_transition), (''b'', Transition_fact sample_transition)]
       (new_journal, [False, True]) = (result, rest, (j', losses')) \<and>
     [(''a'', Transition_fact sample_transition), (''b'', Transition_fact sample_transition)] = done_es @ rest \<and>
     (\<forall>e \<in> set done_es. journal_facts ''r'' j' (fst e) = Some (snd e)) \<and> length rest = 1"
proof -
  let ?es = "[(''a'', Transition_fact sample_transition), (''b'', Transition_fact sample_transition)]"
  obtain result rest j' losses' where fl: "flush_entries (lossy (append_entry (run_fence ''r'' 1))) ?es
      (new_journal, [False, True]) = (result, rest, (j', losses'))"
    by (metis surj_pair)
  have "length rest = 1"
    using fl by (auto simp: lossy_def append_entry_def appendTransition_def append_eval)
  moreover have "''r'' = fn_run_id (run_fence ''r'' 1)" by simp
  from flush_lands_a_prefix[OF fl this] obtain done_es where "?es = done_es @ rest"
      "\<forall>e \<in> set done_es. journal_facts ''r'' j' (fst e) = Some (snd e)"
    by blast
  ultimately show ?thesis using fl by (intro exI conjI)
qed

text \<open>
  The seal gate asks one question. When a flush leaves the outbox empty, every fact
  that was queued or pending in the machine is durable under its identity, the machine has
  nothing left to hand over, and the run still owns its fence.
\<close>

theorem empty_outbox_means_durable:
  assumes "flushJournal (lossy (append_entry f)) (None, m, b) (j, losses) =
      ((lost, m', b'), (j', losses'))"
    and "outbox_isEmpty b'"
  shows "lost = None \<and> pendingJournal m' = ([], []) \<and>
    (\<forall>e \<in> set (ob_pending (snd (drainMachine m b))).
       journal_facts (fn_run_id f) j' (fst e) = Some (snd e))"
proof -
  let ?es = "ob_pending (snd (drainMachine m b))"
  obtain m1 b1 where dr: "drainMachine m b = (m1, b1)" by (rule prod.exhaust)
  obtain result rest st where fl0: "flush_entries (lossy (append_entry f)) ?es (j, losses) = (result, rest, st)"
    by (metis surj_pair)
  have eq: "((lost, m', b'), (j', losses')) =
      ((case result of Flush_fence_lost detail \<Rightarrow> Some detail | _ \<Rightarrow> None, m1, b1\<lparr>ob_pending := rest\<rparr>), st)"
    using assms(1) dr fl0 by (simp add: flushJournal_def Let_def)
  then have fl: "flush_entries (lossy (append_entry f)) ?es (j, losses) = (result, rest, (j', losses'))"
    and b': "b' = (snd (drainMachine m b))\<lparr>ob_pending := rest\<rparr>"
    and lost: "lost = (case result of Flush_fence_lost detail \<Rightarrow> Some detail | _ \<Rightarrow> None)"
    and m': "m' = fst (drainMachine m b)"
    using fl0 dr by simp_all
  have "rest = []" using assms(2) b' by (simp add: outbox_isEmpty_def)
  then have done_all: "result = Flushed" using lossy_journal.flush_prefix[OF fl] by auto
  then have "lost = None" using lost by simp
  moreover have "\<forall>e \<in> set ?es. journal_facts (fn_run_id f) j' (fst e) = Some (snd e)"
    using lossy_journal.flushed_all_durable[OF fl[unfolded done_all]] by simp
  moreover have "pendingJournal m' = ([], [])"
    using m' by (simp add: drainMachine_def pendingJournal_def confirmJournaled_def Let_def)
  ultimately show ?thesis by simp
qed

lemma empty_outbox_means_durable_witness:
  "\<exists>lost m' b' j' losses'.
     flushJournal (lossy (append_entry (run_fence ''r'' 1)))
       (None, snd (advance_machine sample_machine resolve_profile ''ok''), new_outbox ''p'')
       (new_journal, []) = ((lost, m', b'), (j', losses')) \<and> lost = None \<and>
     pendingJournal m' = ([], [])"
proof -
  let ?m = "snd (advance_machine sample_machine resolve_profile ''ok'')"
  obtain lost m' b' j' losses' where fl: "flushJournal (lossy (append_entry (run_fence ''r'' 1)))
      (None, ?m, new_outbox ''p'') (new_journal, []) = ((lost, m', b'), (j', losses'))"
    by (metis surj_pair)
  have "outbox_isEmpty b'"
    using fl
    by (auto simp: flushJournal_def drainMachine_def pendingJournal_def advance_machine_def
        apply_claim_def claim_write_def sample_machine_def new_machine_def declaredNext_def
        withTerminals_def map_add_def confirmJournaled_def outbox_record_def new_outbox_def lossy_def
        append_entry_def appendTransition_def append_eval outbox_isEmpty_def)
  with empty_outbox_means_durable[OF fl] fl show ?thesis by blast
qed

definition wf_outbox :: "JournalOutbox \<Rightarrow> bool" where
  "wf_outbox b \<longleftrightarrow>
     (\<exists>ns. map fst (ob_pending b) = map (entry_identity (ob_prefix b)) ns \<and>
        sorted_wrt (<) ns \<and> (\<forall>n \<in> set ns. n \<le> ob_minted b))"

lemma entry_identity_inj [simp]: "entry_identity p m = entry_identity p n \<longleftrightarrow> m = n"
  by (simp add: entry_identity_def template_def)

text \<open>
  The identities an outbox mints are never minted twice: after any recording, the
  pending identities are distinct and every one is the prefix with a number up to the count
  minted.
\<close>

theorem outbox_identities_are_fresh:
  assumes "wf_outbox b"
  shows "wf_outbox (outbox_record jfact b) \<and> wf_outbox (outbox_landed b) \<and> distinct (map fst (ob_pending b)) \<and>
    entry_identity (ob_prefix b) (ob_minted b + 1) \<notin> set (map fst (ob_pending b))"
proof -
  obtain ns where ns: "map fst (ob_pending b) = map (entry_identity (ob_prefix b)) ns"
      "sorted_wrt (<) ns" "\<forall>n \<in> set ns. n \<le> ob_minted b"
    using assms by (auto simp: wf_outbox_def)
  have "sorted_wrt (<) (ns @ [Suc (ob_minted b)])"
    using ns(2,3) by (simp add: sorted_wrt_append less_Suc_eq_le)
  then have "wf_outbox (outbox_record jfact b)"
    using ns(1,3) unfolding wf_outbox_def outbox_record_def
    by (intro exI[of _ "ns @ [Suc (ob_minted b)]"]) (simp add: le_SucI)
  moreover have "wf_outbox (outbox_landed b)"
    using ns unfolding wf_outbox_def outbox_landed_def
    by (intro exI[of _ "tl ns"]) (cases ns; simp add: map_tl)
  moreover have "distinct (map fst (ob_pending b))"
    using ns(2) unfolding ns(1) by (auto simp: distinct_map inj_on_def strict_sorted_iff)
  moreover have "entry_identity (ob_prefix b) (ob_minted b + 1) \<notin> set (map fst (ob_pending b))"
    unfolding ns(1) using ns(3) by auto
  ultimately show ?thesis by simp
qed

lemma outbox_identities_are_fresh_witness:
  "wf_outbox (outbox_record (Transition_fact sample_transition) (new_outbox ''p''))"
proof -
  have "wf_outbox (new_outbox ''p'')" by (auto simp: wf_outbox_def new_outbox_def)
  from outbox_identities_are_fresh[OF this] show ?thesis by blast
qed

end
