(* ===== verification/Lease.thy ===== *)
theory Lease
  imports Fence
begin

text \<open>
  The run lease, \<^verbatim>\<open>InMemoryRunLease\<close> of \<^verbatim>\<open>services/runner-control/src/run-state/in-memory.ts\<close>:
  claims identified per attempt, fencing generations, abandonment, renewal and release, and the
  seizure the test fixtures reach through a symbol. The interface \<open>run_lease\<close> is what a holder
  relies on across any sequence of operations.
\<close>

section \<open>The lease\<close>

datatype attempt_state = Granted | Abandoned

record AttemptRecord =
  ar_state :: attempt_state
  ar_generation :: "nat option"

record RunLease =
  le_held :: "string \<rightharpoonup> nat"
  le_attempts :: "string \<rightharpoonup> AttemptRecord"
  le_generation :: nat

datatype ClaimRefusal = Already_leased | Claim_aborted

datatype LeaseClaim = Claimed nat | Claim_refused ClaimRefusal string

definition new_lease :: RunLease where
  "new_lease = \<lparr>le_held = Map.empty, le_attempts = Map.empty, le_generation = 0\<rparr>"

definition attemptKey :: "string \<Rightarrow> string \<Rightarrow> string" where
  "attemptKey run_id attempt_id = template [run_id, [CHR 0x00], attempt_id]"

definition lease_claim ::
  "RunLease \<Rightarrow> string \<Rightarrow> string \<Rightarrow> bool \<Rightarrow> LeaseClaim \<times> RunLease" where
  "lease_claim l run_id attempt_id signal_aborted =
     (let key = attemptKey run_id attempt_id;
          grant =
            (if signal_aborted then
               (Claim_refused Claim_aborted
                  (template [''claim attempt '', attempt_id, '' was aborted before ownership was granted'']), l)
             else
               (case le_held l run_id of
                  Some holder \<Rightarrow>
                    (Claim_refused Already_leased
                       (template [''run '', run_id, '' is already leased at generation '',
                          string_of_int (int holder)]), l)
                | None \<Rightarrow>
                    let g = le_generation l + 1 in
                    (Claimed g,
                     l\<lparr>le_generation := g, le_held := (le_held l)(run_id \<mapsto> g),
                       le_attempts := (le_attempts l)
                         (key \<mapsto> \<lparr>ar_state = Granted, ar_generation = Some g\<rparr>)\<rparr>))) in
      case le_attempts l key of
        None \<Rightarrow> grant
      | Some attempt \<Rightarrow>
          (case ar_state attempt of
             Abandoned \<Rightarrow>
               (Claim_refused Claim_aborted
                  (template [''claim attempt '', attempt_id, '' was abandoned before ownership was granted'']), l)
           | Granted \<Rightarrow>
               if le_held l run_id = ar_generation attempt then
                 (Claimed (the (ar_generation attempt)), l)
               else
                 (Claim_refused Claim_aborted
                    (template [''claim attempt '', attempt_id,
                       '' was already resolved; its grant is no longer current'']), l)))"

definition lease_abandon :: "RunLease \<Rightarrow> string \<Rightarrow> string \<Rightarrow> RunLease" where
  "lease_abandon l run_id attempt_id =
     (let key = attemptKey run_id attempt_id in
      case le_attempts l key of
        None \<Rightarrow>
          l\<lparr>le_attempts := (le_attempts l)(key \<mapsto> \<lparr>ar_state = Abandoned, ar_generation = None\<rparr>)\<rparr>
      | Some attempt \<Rightarrow>
          l\<lparr>le_held :=
              (if ar_state attempt = Granted \<and> le_held l run_id = ar_generation attempt
               then (le_held l)(run_id := None) else le_held l),
            le_attempts := (le_attempts l)(key \<mapsto> attempt\<lparr>ar_state := Abandoned\<rparr>)\<rparr>)"

definition lease_renew :: "RunLease \<Rightarrow> string \<Rightarrow> nat \<Rightarrow> bool" where
  "lease_renew l run_id generation \<longleftrightarrow> le_held l run_id = Some generation"

definition lease_release :: "RunLease \<Rightarrow> string \<Rightarrow> nat \<Rightarrow> RunLease" where
  "lease_release l run_id generation =
     (if le_held l run_id = Some generation then l\<lparr>le_held := (le_held l)(run_id := None)\<rparr> else l)"

definition lease_seize :: "RunLease \<Rightarrow> string \<Rightarrow> nat \<times> RunLease" where
  "lease_seize l run_id =
     (let g = le_generation l + 1 in
      (g, l\<lparr>le_generation := g, le_held := (le_held l)(run_id \<mapsto> g)\<rparr>))"

text \<open>An operation on the lease, by anybody.\<close>

datatype lease_op =
    Op_claim string string bool
  | Op_abandon string string
  | Op_release string nat
  | Op_seize string

fun lease_do :: "RunLease \<Rightarrow> lease_op \<Rightarrow> RunLease" where
  "lease_do l (Op_claim r a s) = snd (lease_claim l r a s)"
| "lease_do l (Op_abandon r a) = lease_abandon l r a"
| "lease_do l (Op_release r g) = lease_release l r g"
| "lease_do l (Op_seize r) = snd (lease_seize l r)"

section \<open>The interface\<close>

text \<open>
  \<open>step\<close> is any operation, \<open>holder\<close> the generation that holds a run, \<open>top\<close> the highest
  generation ever minted and \<open>inv\<close> the invariant of the implementation.
\<close>

locale run_lease =
  fixes step :: "'l \<Rightarrow> 'op \<Rightarrow> 'l"
    and holder :: "'l \<Rightarrow> string \<Rightarrow> nat option"
    and top :: "'l \<Rightarrow> nat"
    and inv :: "'l \<Rightarrow> bool"
  assumes inv_step: "inv l \<Longrightarrow> inv (step l x)"
    and holder_minted: "inv l \<Longrightarrow> holder l r = Some g \<Longrightarrow> g \<le> top l"
    and holder_step: "inv l \<Longrightarrow> holder (step l x) r = Some g \<Longrightarrow>
      holder l r = Some g \<or> top l < g"
    and top_step: "top l \<le> top (step l x)"
begin

lemma inv_run: "inv l \<Longrightarrow> inv (foldl step l xs)"
  by (induction xs arbitrary: l) (auto intro: inv_step)

lemma top_run: "top l \<le> top (foldl step l xs)"
  by (induction xs arbitrary: l) (auto intro: le_trans top_step)

text \<open>A generation that no longer holds the run never holds it again.\<close>

lemma lost_is_lost:
  "inv l \<Longrightarrow> g \<le> top l \<Longrightarrow> holder l r \<noteq> Some g \<Longrightarrow> holder (foldl step l xs) r \<noteq> Some g"
proof (induction xs arbitrary: l)
  case (Cons x xs)
  have "holder (step l x) r \<noteq> Some g"
    using holder_step[OF Cons.prems(1)] Cons.prems(2,3) by (metis leD)
  moreover have "g \<le> top (step l x)" using Cons.prems(2) top_step le_trans by blast
  ultimately show ?case using Cons.IH inv_step[OF Cons.prems(1)] by simp
qed simp

end

section \<open>The invariant\<close>

text \<open>
  Every generation is minted at most once: the ones held and the ones granted are at most the
  counter, a granted record carries its generation, two attempts are never granted the same one,
  and two runs are never held by the same one.
\<close>

definition wf_lease :: "RunLease \<Rightarrow> bool" where
  "wf_lease l \<longleftrightarrow>
     (\<forall>r g. le_held l r = Some g \<longrightarrow> g \<le> le_generation l) \<and>
     (\<forall>k a g. le_attempts l k = Some a \<and> ar_generation a = Some g \<longrightarrow> g \<le> le_generation l) \<and>
     (\<forall>k a. le_attempts l k = Some a \<and> ar_state a = Granted \<longrightarrow> ar_generation a \<noteq> None) \<and>
     (\<forall>k a k' a' g. le_attempts l k = Some a \<and> le_attempts l k' = Some a' \<and>
        ar_generation a = Some g \<and> ar_generation a' = Some g \<longrightarrow> k = k') \<and>
     (\<forall>r r' g. le_held l r = Some g \<and> le_held l r' = Some g \<longrightarrow> r = r')"

lemma wf_leaseD:
  assumes "wf_lease l"
  shows "le_held l r = Some g \<Longrightarrow> g \<le> le_generation l"
    "le_attempts l k = Some a \<Longrightarrow> ar_generation a = Some g \<Longrightarrow> g \<le> le_generation l"
    "le_attempts l k = Some a \<Longrightarrow> ar_state a = Granted \<Longrightarrow> ar_generation a \<noteq> None"
    "le_attempts l k = Some a \<Longrightarrow> le_attempts l k' = Some a' \<Longrightarrow> ar_generation a = Some g \<Longrightarrow>
      ar_generation a' = Some g \<Longrightarrow> k = k'"
    "le_held l r = Some g \<Longrightarrow> le_held l r' = Some g \<Longrightarrow> r = r'"
  using assms unfolding wf_lease_def by blast+

lemma wf_lease_new [simp]: "wf_lease new_lease"
  by (simp add: wf_lease_def new_lease_def)

text \<open>A claim changes the lease only by granting a fresh generation.\<close>

lemma lease_claim_cases:
  obtains (same) answer where "lease_claim l r a s = (answer, l)"
  | (fresh) g where "lease_claim l r a s = (Claimed g,
      l\<lparr>le_generation := g, le_held := (le_held l)(r \<mapsto> g),
        le_attempts := (le_attempts l)(attemptKey r a \<mapsto> \<lparr>ar_state = Granted, ar_generation = Some g\<rparr>)\<rparr>)"
    "g = le_generation l + 1" "le_held l r = None" "le_attempts l (attemptKey r a) = None" "\<not> s"
proof (cases "snd (lease_claim l r a s) = l")
  case True
  then show thesis using same by (metis prod.collapse)
next
  case False
  then show thesis
    by (intro fresh[of "le_generation l + 1"])
      (auto simp: lease_claim_def Let_def split: option.splits attempt_state.splits if_splits)
qed

lemma wf_fresh:
  assumes "wf_lease l" and "g = le_generation l + 1"
  shows "wf_lease (l\<lparr>le_generation := g, le_held := (le_held l)(r \<mapsto> g),
    le_attempts := (le_attempts l)(k \<mapsto> \<lparr>ar_state = Granted, ar_generation = Some g\<rparr>)\<rparr>)"
proof -
  note wf = wf_leaseD[OF assms(1)]
  have "\<And>r'. le_held l r' \<noteq> Some g" "\<And>k' a. le_attempts l k' = Some a \<Longrightarrow> ar_generation a \<noteq> Some g"
    "\<And>r' h. le_held l r' = Some h \<Longrightarrow> h \<le> g"
    "\<And>k' a h. le_attempts l k' = Some a \<Longrightarrow> ar_generation a = Some h \<Longrightarrow> h \<le> g"
    using wf(1,2) assms(2) by fastforce+
  then show ?thesis
    using wf(3,4,5) unfolding wf_lease_def by (auto 0 4 split: if_splits)
qed

lemma wf_seized:
  assumes "wf_lease l" and "g = le_generation l + 1"
  shows "wf_lease (l\<lparr>le_generation := g, le_held := (le_held l)(r \<mapsto> g)\<rparr>)"
proof -
  note wf = wf_leaseD[OF assms(1)]
  have "\<And>r'. le_held l r' \<noteq> Some g" "\<And>k' a. le_attempts l k' = Some a \<Longrightarrow> ar_generation a \<noteq> Some g"
    "\<And>r' h. le_held l r' = Some h \<Longrightarrow> h \<le> g"
    "\<And>k' a h. le_attempts l k' = Some a \<Longrightarrow> ar_generation a = Some h \<Longrightarrow> h \<le> g"
    using wf(1,2) assms(2) by fastforce+
  then show ?thesis
    using wf(3,4,5) unfolding wf_lease_def by (auto 0 4 split: if_splits)
qed

lemma wf_claim: "wf_lease l \<Longrightarrow> wf_lease (snd (lease_claim l r a s))"
  by (cases rule: lease_claim_cases[of l r a s]) (auto intro: wf_fresh)

lemma wf_unheld: "wf_lease l \<Longrightarrow> wf_lease (l\<lparr>le_held := (le_held l)(r := None)\<rparr>)"
  unfolding wf_lease_def by auto

lemma wf_resolved:
  assumes "wf_lease l"
    and "ar_state a = Abandoned"
    and "ar_generation a \<noteq> None \<Longrightarrow>
      \<exists>b. le_attempts l k = Some b \<and> ar_generation a = ar_generation b"
  shows "wf_lease (l\<lparr>le_attempts := (le_attempts l)(k \<mapsto> a)\<rparr>)"
proof -
  note wf = wf_leaseD[OF assms(1)]
  have as_before: "\<exists>b'. le_attempts l k' = Some b' \<and> ar_generation b' = Some g"
    if "((le_attempts l)(k \<mapsto> a)) k' = Some b" "ar_generation b = Some g" for k' b g
    using that assms(3) by (auto split: if_splits)
  show ?thesis
    unfolding wf_lease_def
  proof (intro conjI allI impI)
    fix k1 a1 k2 a2 g
    assume "le_attempts (l\<lparr>le_attempts := (le_attempts l)(k \<mapsto> a)\<rparr>) k1 = Some a1 \<and>
      le_attempts (l\<lparr>le_attempts := (le_attempts l)(k \<mapsto> a)\<rparr>) k2 = Some a2 \<and>
      ar_generation a1 = Some g \<and> ar_generation a2 = Some g"
    then show "k1 = k2" using as_before[of k1 a1 g] as_before[of k2 a2 g] wf(4) by fastforce
  next
    fix k1 a1 g
    assume "le_attempts (l\<lparr>le_attempts := (le_attempts l)(k \<mapsto> a)\<rparr>) k1 = Some a1 \<and>
      ar_generation a1 = Some g"
    then show "g \<le> le_generation (l\<lparr>le_attempts := (le_attempts l)(k \<mapsto> a)\<rparr>)"
      using as_before[of k1 a1 g] wf(2) by fastforce
  qed (use wf(1,3,5) assms(2) in \<open>auto split: if_splits\<close>)
qed

lemma wf_abandon_lease:
  assumes "wf_lease l"
  shows "wf_lease (lease_abandon l r a)"
proof (cases "le_attempts l (attemptKey r a)")
  case None
  then show ?thesis
    using wf_resolved[OF assms, of "\<lparr>ar_state = Abandoned, ar_generation = None\<rparr>" "attemptKey r a"]
    by (simp add: lease_abandon_def Let_def)
next
  case (Some at)
  let ?held = "if ar_state at = Granted \<and> le_held l r = ar_generation at
    then (le_held l)(r := None) else le_held l"
  have "wf_lease (l\<lparr>le_held := ?held\<rparr>)"
    using wf_unheld[OF assms, of r] assms by (auto split: if_splits)
  from wf_resolved[OF this, of "at\<lparr>ar_state := Abandoned\<rparr>" "attemptKey r a"] Some
  show ?thesis by (simp add: lease_abandon_def Let_def)
qed

lemma wf_lease_do: "wf_lease l \<Longrightarrow> wf_lease (lease_do l x)"
  by (cases x)
    (auto simp: wf_claim wf_abandon_lease lease_release_def lease_seize_def Let_def
      intro: wf_unheld wf_seized)

interpretation lease: run_lease lease_do le_held le_generation wf_lease
proof
  fix l x r g
  assume "wf_lease l" and h: "le_held (lease_do l x) r = Some g"
  show "le_held l r = Some g \<or> le_generation l < g"
  proof (cases x)
    case (Op_claim r' a s)
    then show ?thesis
      using h by (cases rule: lease_claim_cases[of l r' a s]) (auto split: if_splits)
  qed (use h in \<open>auto simp: lease_abandon_def lease_release_def lease_seize_def Let_def
        split: if_splits option.splits\<close>)
next
  fix l x
  show "le_generation l \<le> le_generation (lease_do l x)"
  proof (cases x)
    case (Op_claim r' a s)
    then show ?thesis by (cases rule: lease_claim_cases[of l r' a s]) auto
  qed (auto simp: lease_abandon_def lease_release_def lease_seize_def Let_def split: option.splits)
qed (auto simp: wf_lease_do wf_leaseD(1))

section \<open>The record of an attempt\<close>

lemma attemptKey_same_run [simp]: "attemptKey r a = attemptKey r a' \<longleftrightarrow> a = a'"
  by (simp add: attemptKey_def template_def)

text \<open>An attempt keeps its generation once it has one, and stays abandoned once it is.\<close>

lemma attempt_kept:
  assumes "le_attempts l k = Some at"
  shows "\<exists>at'. le_attempts (lease_do l x) k = Some at' \<and> ar_generation at' = ar_generation at \<and>
    (ar_state at = Abandoned \<longrightarrow> ar_state at' = Abandoned)"
proof (cases x)
  case (Op_claim r a s)
  then show ?thesis
    using assms by (cases rule: lease_claim_cases[of l r a s]) auto
qed (use assms in \<open>auto simp: lease_abandon_def lease_release_def lease_seize_def Let_def
      split: option.splits\<close>)

lemma attempt_kept_run:
  assumes "le_attempts l k = Some at"
  shows "\<exists>at'. le_attempts (foldl lease_do l xs) k = Some at' \<and> ar_generation at' = ar_generation at \<and>
    (ar_state at = Abandoned \<longrightarrow> ar_state at' = Abandoned)"
  using assms
proof (induction xs arbitrary: l at)
  case (Cons x xs)
  obtain at1 where "le_attempts (lease_do l x) k = Some at1" "ar_generation at1 = ar_generation at"
      "ar_state at = Abandoned \<longrightarrow> ar_state at1 = Abandoned"
    using attempt_kept[OF Cons.prems] by blast
  with Cons.IH[of "lease_do l x" at1] show ?case by auto
qed auto

lemma claimed_record:
  assumes "lease_claim l r a s = (Claimed g, l')" and "wf_lease l"
  shows "\<exists>at. le_attempts l' (attemptKey r a) = Some at \<and> ar_generation at = Some g \<and>
    ar_state at = Granted \<and> le_held l' r = Some g"
proof (cases "le_attempts l (attemptKey r a)")
  case None
  then show ?thesis
    using assms(1) by (auto simp: lease_claim_def Let_def split: if_splits option.splits)
next
  case (Some at)
  then have "ar_state at = Granted \<and> le_held l r = ar_generation at \<and>
      g = the (ar_generation at) \<and> l' = l"
    using assms(1) by (cases "ar_state at") (auto simp: lease_claim_def Let_def split: if_splits)
  then show ?thesis using Some wf_leaseD(3)[OF assms(2) Some] by auto
qed

lemma wf_lease_history [simp]: "wf_lease (foldl lease_do new_lease xs)"
  by (rule lease.inv_run) simp

section \<open>Properties\<close>

text \<open>
  No two attempts on a run are ever granted the same generation: when one attempt is
  answered with a generation and later, after any operations, a different attempt is answered with
  one, the two differ, so a fence tells their holders apart.
\<close>

theorem grants_are_distinct:
  assumes "l = foldl lease_do new_lease xs" and "lease_claim l r a s = (Claimed g, l1)"
    and "fst (lease_claim (foldl lease_do l1 ys) r a' s') = Claimed g'" and "a \<noteq> a'"
  shows "g \<noteq> g'"
proof
  assume eq: "g = g'"
  have wf: "wf_lease l" using assms(1) by simp
  obtain at where at: "le_attempts l1 (attemptKey r a) = Some at" "ar_generation at = Some g"
    using claimed_record[OF assms(2) wf] by blast
  have wf1: "wf_lease l1" using wf_claim[OF wf, of r a s] assms(2) by simp
  let ?l2 = "foldl lease_do l1 ys"
  have wf2: "wf_lease ?l2" using lease.inv_run[OF wf1] .
  obtain l3 where c: "lease_claim ?l2 r a' s' = (Claimed g', l3)"
    using assms(3) by (cases "lease_claim ?l2 r a' s'") auto
  obtain at' where at': "le_attempts l3 (attemptKey r a') = Some at'" "ar_generation at' = Some g'"
    using claimed_record[OF c wf2] by blast
  have l3: "l3 = foldl lease_do l1 (ys @ [Op_claim r a' s'])" using c by simp
  obtain at2 where "le_attempts l3 (attemptKey r a) = Some at2" "ar_generation at2 = Some g"
    using attempt_kept_run[OF at(1), of "ys @ [Op_claim r a' s']"] at(2) l3 by auto
  moreover have "wf_lease l3" using wf_claim[OF wf2, of r a' s'] c by simp
  ultimately have "attemptKey r a = attemptKey r a'" using wf_leaseD(4) at' eq by blast
  then show False using assms(4) by simp
qed

lemma grants_are_distinct_witness:
  "let l1 = snd (lease_claim new_lease ''r'' ''a'' False) in
   fst (lease_claim new_lease ''r'' ''a'' False) = Claimed 1 \<and>
   fst (lease_claim (lease_release l1 ''r'' 1) ''r'' ''b'' False) = Claimed 2 \<and> (1::nat) \<noteq> 2"
proof -
  let ?l1 = "snd (lease_claim new_lease ''r'' ''a'' False)"
  have 1: "lease_claim (foldl lease_do new_lease []) ''r'' ''a'' False = (Claimed 1, ?l1)"
    by (simp add: lease_claim_def new_lease_def Let_def)
  have 2: "fst (lease_claim (foldl lease_do ?l1 [Op_release ''r'' 1]) ''r'' ''b'' False) = Claimed 2"
    by (simp add: lease_claim_def lease_release_def new_lease_def attemptKey_def template_def Let_def)
  have "(1::nat) \<noteq> 2" by (rule grants_are_distinct[OF refl 1 2]) simp
  moreover have "fst (lease_claim new_lease ''r'' ''a'' False) = Claimed 1"
    using arg_cong[OF 1, of fst] by simp
  ultimately show ?thesis using 2 by (simp add: Let_def)
qed

text \<open>
  An abandoned attempt is never granted: whatever the lease was and whatever operations
  follow, a claim of the attempt is refused, aborted or not.
\<close>

theorem abandoned_is_never_granted:
  "\<exists>detail. fst (lease_claim (foldl lease_do (lease_abandon l r a) xs) r a s) =
     Claim_refused Claim_aborted detail"
proof -
  have "\<exists>at. le_attempts (lease_abandon l r a) (attemptKey r a) = Some at \<and> ar_state at = Abandoned"
    by (auto simp: lease_abandon_def Let_def split: option.splits)
  then obtain at where "le_attempts (foldl lease_do (lease_abandon l r a) xs) (attemptKey r a) = Some at"
      "ar_state at = Abandoned"
    using attempt_kept_run[where xs = xs] by blast
  then show ?thesis by (simp add: lease_claim_def Let_def)
qed

text \<open>
  C37: Lost ownership does not come back: once a minted generation no longer holds the run
  (released, abandoned or seized), no sequence of operations makes it renewable again, and the
  attempt that earned it is never granted again, so a delayed duplicate of its claim cannot
  recreate the ownership.
\<close>

theorem lost_generation_stays_lost:
  assumes "l0 = foldl lease_do new_lease xs" and "lease_claim l0 r a s = (Claimed g, l1)"
    and "l = foldl lease_do l1 ys" and "\<not> lease_renew l r g"
  shows "\<not> lease_renew (foldl lease_do l zs) r g \<and>
    (\<exists>detail. fst (lease_claim (foldl lease_do l zs) r a s') = Claim_refused Claim_aborted detail)"
proof -
  have wf0: "wf_lease l0" using assms(1) by simp
  have wf1: "wf_lease l1" using wf_claim[OF wf0, of r a s] assms(2) by simp
  have wf: "wf_lease l" using lease.inv_run[OF wf1] assms(3) by simp
  obtain at where at: "le_attempts l1 (attemptKey r a) = Some at" "ar_generation at = Some g"
    using claimed_record[OF assms(2) wf0] by blast
  have "g \<le> le_generation l1" using wf_leaseD(2)[OF wf1 at] .
  then have "g \<le> le_generation l" using lease.top_run[of l1 ys] assms(3) by simp
  then have lost: "le_held (foldl lease_do l zs) r \<noteq> Some g"
    using lease.lost_is_lost[OF wf] assms(4) by (simp add: lease_renew_def)
  obtain at' where "le_attempts (foldl lease_do l zs) (attemptKey r a) = Some at'"
      "ar_generation at' = Some g"
    using attempt_kept_run[OF at(1), of "ys @ zs"] at(2) assms(3) by auto
  then show ?thesis
    using lost by (cases "ar_state at'") (auto simp: lease_claim_def lease_renew_def Let_def)
qed

lemma lost_generation_stays_lost_witness:
  "let l1 = snd (lease_claim new_lease ''r'' ''a'' False); l = snd (lease_seize l1 ''r'') in
   \<not> lease_renew l ''r'' 1 \<and>
   (\<exists>detail. fst (lease_claim l ''r'' ''a'' False) = Claim_refused Claim_aborted detail)"
proof -
  let ?l1 = "snd (lease_claim new_lease ''r'' ''a'' False)"
  have 1: "lease_claim (foldl lease_do new_lease []) ''r'' ''a'' False = (Claimed 1, ?l1)"
    by (simp add: lease_claim_def new_lease_def Let_def)
  have lost: "\<not> lease_renew (foldl lease_do ?l1 [Op_seize ''r'']) ''r'' 1"
    by (simp add: lease_claim_def lease_seize_def lease_renew_def new_lease_def Let_def)
  from lost_generation_stays_lost[OF refl 1 refl lost, of "[]"] show ?thesis by (simp add: Let_def)
qed

end
