(* ===== verification/EventSink.thy ===== *)
theory EventSink
  imports Journal
begin

text \<open>
  The event sink, \<^verbatim>\<open>RecordingEventSink\<close> of
  \<^verbatim>\<open>services/runner-control/src/adapters/deterministic.ts\<close>: one identity authority over
  ordinary emissions and staged terminal events.

  A stored row is an object: it carries an identity of its own (\<open>se_id\<close>), by which a stage is
  released. The canonical text of an event is equal exactly when the event is, so the model
  compares events. The key of an event is the pair of its run and sequence; the text the code
  uses for it determines the pair (\<open>event_identity_inj\<close>).
\<close>

section \<open>The sink\<close>

record SinkEvent =
  ev_sequence :: int
  ev_type :: string
  ev_payload :: string

record StoredEvent =
  se_id :: nat
  se_event :: SinkEvent
  se_commit :: "string option"

record Reservation =
  rs_canonical :: SinkEvent
  rs_stages :: "(string \<times> StoredEvent) list"

type_synonym event_key = "string \<times> int"

record EventSink =
  sk_byRun :: "string \<rightharpoonup> StoredEvent list"
  sk_fence :: FenceLedger
  sk_landed :: "event_key \<rightharpoonup> SinkEvent"
  sk_reserved :: "event_key \<rightharpoonup> Reservation"
  sk_next :: nat

definition new_sink :: EventSink where
  "new_sink =
     \<lparr>sk_byRun = Map.empty, sk_fence = Map.empty, sk_landed = Map.empty, sk_reserved = Map.empty,
      sk_next = 0\<rparr>"

definition event_identity :: "event_key \<Rightarrow> string" where
  "event_identity key = template [fst key, ''#e'', string_of_int (snd key)]"

definition rows_of :: "EventSink \<Rightarrow> string \<Rightarrow> StoredEvent list" where
  "rows_of s run_id = (case sk_byRun s run_id of Some rows \<Rightarrow> rows | None \<Rightarrow> [])"

definition row_visible :: "CommitLedger \<Rightarrow> StoredEvent \<Rightarrow> bool" where
  "row_visible v row = isVisible v (se_commit row)"

definition durableCanonical :: "CommitLedger \<Rightarrow> EventSink \<Rightarrow> event_key \<Rightarrow> SinkEvent option" where
  "durableCanonical v s key =
     (case sk_landed s key of
        Some landed \<Rightarrow> Some landed
      | None \<Rightarrow>
          map_option se_event
            (find (\<lambda>row. se_commit row \<noteq> None \<and> row_visible v row \<and>
                         ev_sequence (se_event row) = snd key)
              (rows_of s (fst key))))"

definition liveReservation :: "CommitLedger \<Rightarrow> EventSink \<Rightarrow> event_key \<Rightarrow> Reservation option" where
  "liveReservation v s key =
     (case sk_reserved s key of
        None \<Rightarrow> None
      | Some reservation \<Rightarrow>
          if list_ex (\<lambda>(_, row). se_commit row \<noteq> None \<and> \<not> row_visible v row)
               (rs_stages reservation)
          then Some reservation else None)"

text \<open>
  \<^verbatim>\<open>#releaseStage\<close>: nothing for a published row; otherwise the stage leaves the reservation
  it is in, and the row leaves the store.
\<close>

definition drop_stage ::
  "string \<Rightarrow> StoredEvent \<Rightarrow> (event_key \<rightharpoonup> Reservation) \<Rightarrow> event_key \<Rightarrow> (event_key \<rightharpoonup> Reservation)" where
  "drop_stage commit_id row reserved key =
     (case reserved key of
        None \<Rightarrow> reserved
      | Some reservation \<Rightarrow>
          if map_of (rs_stages reservation) commit_id = Some row then
            let stages = filter (\<lambda>(c, _). c \<noteq> commit_id) (rs_stages reservation) in
            if stages = [] then reserved(key := None)
            else reserved(key \<mapsto> reservation\<lparr>rs_stages := stages\<rparr>)
          else reserved)"

definition releaseStage ::
  "CommitLedger \<Rightarrow> event_key \<Rightarrow> string \<Rightarrow> StoredEvent \<Rightarrow> EventSink \<Rightarrow> EventSink" where
  "releaseStage v key commit_id row s =
     (if se_commit row \<noteq> None \<and> row_visible v row then s
      else
        s\<lparr>sk_reserved := drop_stage commit_id row (sk_reserved s) key,
          sk_byRun := (\<lambda>r. map_option (remove1 row) (sk_byRun s r))\<rparr>)"

text \<open>A new row of a run, with a fresh identity.\<close>

definition push_row ::
  "string \<Rightarrow> SinkEvent \<Rightarrow> string option \<Rightarrow> EventSink \<Rightarrow> StoredEvent \<times> EventSink" where
  "push_row run_id event commit s =
     (let row = \<lparr>se_id = sk_next s, se_event = event, se_commit = commit\<rparr> in
      (row,
       s\<lparr>sk_byRun := (sk_byRun s)(run_id \<mapsto> rows_of s run_id @ [row]),
         sk_next := sk_next s + 1\<rparr>))"

definition sink_conflict :: "event_key \<Rightarrow> string \<Rightarrow> FenceOutcome" where
  "sink_conflict key why =
     Fence_refused Conflicting_replay (template [''event identity '', event_identity key, why])"

text \<open>\<^verbatim>\<open>emit\<close> once the fence has admitted the request.\<close>

definition emit_admitted ::
  "CommitLedger \<Rightarrow> event_key \<Rightarrow> SinkEvent \<Rightarrow> EventSink \<Rightarrow> FenceOutcome \<times> EventSink" where
  "emit_admitted v key event s =
     (case durableCanonical v s key of
        Some durable \<Rightarrow>
          (if durable = event then Fence_ok
           else sink_conflict key '' already carries a different event'', s)
      | None \<Rightarrow>
          (case liveReservation v s key of
             None \<Rightarrow>
               (Fence_ok,
                snd (push_row (fst key) event None (s\<lparr>sk_landed := (sk_landed s)(key \<mapsto> event)\<rparr>)))
           | Some reserved \<Rightarrow>
               if rs_canonical reserved \<noteq> event then
                 (sink_conflict key '' is reserved by an unpublished staged event'', s)
               else
                 let s1 = fold (\<lambda>(c, row). releaseStage v key c row) (rs_stages reserved) s in
                 (Fence_ok,
                  snd (push_row (fst key) event None
                    (s1\<lparr>sk_landed := (sk_landed s1)(key \<mapsto> event)\<rparr>)))))"

definition emit ::
  "CommitLedger \<Rightarrow> RunFence \<Rightarrow> int \<Rightarrow> SinkEvent \<Rightarrow> EventSink \<Rightarrow> FenceOutcome \<times> EventSink" where
  "emit v fence seq event s =
     (case fence_outcome (sk_fence s) fence of
        (Fence_refused reason detail, l) \<Rightarrow> (Fence_refused reason detail, s\<lparr>sk_fence := l\<rparr>)
      | (Fence_ok, l) \<Rightarrow> emit_admitted v (fn_run_id fence, seq) event (s\<lparr>sk_fence := l\<rparr>))"

text \<open>
  The answer of a staging: refused, or staged with the handle that abandons it. A handle
  releases the stage of one commit, or nothing when nothing was staged.
\<close>

datatype stage_handle = No_stage | Stage_of event_key string StoredEvent

datatype Staging = Stage_refused FenceReason string | Staged stage_handle

definition abandon_event :: "CommitLedger \<Rightarrow> stage_handle \<Rightarrow> EventSink \<Rightarrow> EventSink" where
  "abandon_event v handle s =
     (case handle of No_stage \<Rightarrow> s | Stage_of key c row \<Rightarrow> releaseStage v key c row s)"

text \<open>\<^verbatim>\<open>stageEmit\<close> once the fence has admitted the request.\<close>

definition stage_admitted ::
  "CommitLedger \<Rightarrow> event_key \<Rightarrow> string \<Rightarrow> SinkEvent \<Rightarrow> EventSink \<Rightarrow> Staging \<times> EventSink" where
  "stage_admitted v key commit_id event s =
     (case durableCanonical v s key of
        Some durable \<Rightarrow>
          (if durable \<noteq> event then
             Stage_refused Conflicting_replay
               (template [''event identity '', event_identity key,
                  '' already carries a different durable event; the terminal event cannot occupy it''])
           else Staged No_stage, s)
      | None \<Rightarrow>
          (case liveReservation v s key of
             Some reserved \<Rightarrow>
               if rs_canonical reserved \<noteq> event then
                 (Stage_refused Conflicting_replay
                    (template [''event identity '', event_identity key,
                       '' is already reserved for a different event'']), s)
               else
                 (case map_of (rs_stages reserved) commit_id of
                    Some own \<Rightarrow> (Staged (Stage_of key commit_id own), s)
                  | None \<Rightarrow>
                      let (row, s1) = push_row (fst key) event (Some commit_id) s in
                      (Staged (Stage_of key commit_id row),
                       s1\<lparr>sk_reserved := (sk_reserved s1)(key \<mapsto>
                            reserved\<lparr>rs_stages := rs_stages reserved @ [(commit_id, row)]\<rparr>)\<rparr>))
           | None \<Rightarrow>
               let (row, s1) = push_row (fst key) event (Some commit_id) s in
               (Staged (Stage_of key commit_id row),
                s1\<lparr>sk_reserved := (sk_reserved s1)(key \<mapsto>
                     \<lparr>rs_canonical = event, rs_stages = [(commit_id, row)]\<rparr>)\<rparr>)))"

definition stageEmit ::
  "CommitLedger \<Rightarrow> RunFence \<Rightarrow> string \<Rightarrow> SinkEvent \<Rightarrow> EventSink \<Rightarrow> Staging \<times> EventSink" where
  "stageEmit v fence commit_id event s =
     (case fence_refuse (sk_fence s) fence of
        (Some refused, l) \<Rightarrow> (Stage_refused Stale_fence refused, s\<lparr>sk_fence := l\<rparr>)
      | (None, l) \<Rightarrow>
          stage_admitted v (fn_run_id fence, ev_sequence event) commit_id event (s\<lparr>sk_fence := l\<rparr>))"

definition eventsOf :: "CommitLedger \<Rightarrow> EventSink \<Rightarrow> string \<Rightarrow> SinkEvent list" where
  "eventsOf v s run_id = map se_event (filter (row_visible v) (rows_of s run_id))"

section \<open>The text of an identity\<close>

lemma hash_not_digit: "CHR ''#'' \<notin> set (string_of_int i)"
proof -
  have "CHR ''#'' \<notin> set (digits_of_nat n)" for n
  proof (induction n rule: digits_of_nat.induct)
    case (1 n)
    have digit: "char_of (48 + k) \<noteq> CHR ''#''" if "k < 10" for k :: nat
    proof
      assume "char_of (48 + k) = CHR ''#''"
      then have "of_char (char_of (48 + k) :: char) = (of_char (CHR ''#'') :: nat)" by simp
      then show False using that by (simp add: of_char_of)
    qed
    show ?case using 1 digit[of n] digit[of "n mod 10"] by (subst digits_of_nat.simps) auto
  qed
  then show ?thesis by (simp add: string_of_int_def)
qed

lemma string_of_int_inj [simp]: "string_of_int i = string_of_int j \<longleftrightarrow> i = j"
proof -
  have minus: "CHR ''-'' \<noteq> hd (digits_of_nat n) \<and> digits_of_nat n \<noteq> []" for n
  proof (induction n rule: digits_of_nat.induct)
    case (1 n)
    have "char_of (48 + n) \<noteq> CHR ''-''" if "n < 10"
    proof
      assume "char_of (48 + n) = CHR ''-''"
      then have "of_char (char_of (48 + n) :: char) = (of_char (CHR ''-'') :: nat)" by simp
      then show False using that by (simp add: of_char_of)
    qed
    then show ?case using 1 by (subst (1 2) digits_of_nat.simps) auto
  qed
  have neg: "''-'' @ digits_of_nat m \<noteq> digits_of_nat n" for m n
    using minus[of n] by (metis append_Cons list.sel(1))
  show ?thesis
    using neg neg[symmetric] by (auto simp: string_of_int_def)
qed

lemma event_identity_inj: "event_identity k = event_identity l \<longleftrightarrow> k = l"
proof
  assume eq: "event_identity k = event_identity l"
  have split: "takeWhile (\<lambda>c. c \<noteq> CHR ''#'') (rev (event_identity m)) =
      rev (''e'' @ string_of_int (snd m)) \<and>
      rev (event_identity m) = rev (''e'' @ string_of_int (snd m)) @ CHR ''#'' # rev (fst m)" for m
  proof -
    have "takeWhile (\<lambda>c. c \<noteq> CHR ''#'') (rev (string_of_int (snd m)) @ ys) =
        rev (string_of_int (snd m)) @ takeWhile (\<lambda>c. c \<noteq> CHR ''#'') ys" for ys
      by (rule takeWhile_append2) (use hash_not_digit[of "snd m"] in auto)
    then show ?thesis by (simp add: event_identity_def template_def)
  qed
  have "rev (''e'' @ string_of_int (snd k)) = rev (''e'' @ string_of_int (snd l))"
    using split[of k] split[of l] eq by metis
  then have "snd k = snd l" by simp
  then show "k = l"
    using eq by (simp add: event_identity_def template_def prod_eq_iff)
qed simp

section \<open>The invariant\<close>

text \<open>Identities are pairs: a quantifier over them stays one quantifier.\<close>

declare split_paired_All [simp del] split_paired_Ex [simp del]

text \<open>
  The committed rows at an identity are exactly the stages of its reservation; the stages of
  a reservation have distinct commits and carry one event; an identity that landed has no
  reservation; and a row is in the store once.
\<close>

definition committed_at :: "EventSink \<Rightarrow> event_key \<Rightarrow> StoredEvent \<Rightarrow> bool" where
  "committed_at s key row \<longleftrightarrow>
     row \<in> set (rows_of s (fst key)) \<and> se_commit row \<noteq> None \<and>
     ev_sequence (se_event row) = snd key"

definition staged_at :: "EventSink \<Rightarrow> event_key \<Rightarrow> string \<Rightarrow> StoredEvent \<Rightarrow> bool" where
  "staged_at s key c row \<longleftrightarrow>
     (\<exists>R. sk_reserved s key = Some R \<and> (c, row) \<in> set (rs_stages R))"

definition wf_reservation :: "Reservation \<Rightarrow> bool" where
  "wf_reservation R \<longleftrightarrow>
     rs_stages R \<noteq> [] \<and> distinct (map fst (rs_stages R)) \<and>
     (\<forall>(c, row) \<in> set (rs_stages R). se_commit row = Some c \<and> se_event row = rs_canonical R)"

definition wf_rows :: "EventSink \<Rightarrow> bool" where
  "wf_rows s \<longleftrightarrow>
     (\<forall>r. distinct (rows_of s r)) \<and>
     (\<forall>r row. row \<in> set (rows_of s r) \<longrightarrow> se_id row < sk_next s) \<and>
     (\<forall>r r' row. row \<in> set (rows_of s r) \<longrightarrow> row \<in> set (rows_of s r') \<longrightarrow> r = r')"

definition wf_sink :: "EventSink \<Rightarrow> bool" where
  "wf_sink s \<longleftrightarrow>
     wf_rows s \<and>
     (\<forall>key row. committed_at s key row \<longleftrightarrow> (\<exists>c. staged_at s key c row)) \<and>
     (\<forall>key R. sk_reserved s key = Some R \<longrightarrow> wf_reservation R \<and> sk_landed s key = None)"

lemma wf_sinkD:
  assumes "wf_sink s"
  shows "wf_rows s" "committed_at s key row \<longleftrightarrow> (\<exists>c. staged_at s key c row)"
    "sk_reserved s key = Some R \<Longrightarrow> wf_reservation R"
    "sk_reserved s key = Some R \<Longrightarrow> sk_landed s key = None"
  using assms unfolding wf_sink_def by blast+

lemma wf_new_sink [simp]: "wf_sink new_sink"
  by (simp add: wf_sink_def wf_rows_def new_sink_def committed_at_def staged_at_def rows_of_def)

text \<open>What is durable under an identity, from the reservation.\<close>

lemma durable_iff:
  assumes "wf_sink s"
  shows "durableCanonical v s key = Some e \<longleftrightarrow>
    sk_landed s key = Some e \<or>
    (\<exists>R c row. sk_reserved s key = Some R \<and> (c, row) \<in> set (rs_stages R) \<and>
       isPublished v c \<and> e = rs_canonical R)"
proof (cases "sk_landed s key")
  case (Some l)
  then have "sk_reserved s key = None"
    using wf_sinkD(4)[OF assms, of key] by (cases "sk_reserved s key") auto
  then show ?thesis using Some by (auto simp: durableCanonical_def)
next
  case None
  let ?P = "\<lambda>row. se_commit row \<noteq> None \<and> row_visible v row \<and> ev_sequence (se_event row) = snd key"
  have found: "row \<in> set (rows_of s (fst key)) \<and> ?P row \<longleftrightarrow>
      (\<exists>R c. sk_reserved s key = Some R \<and> (c, row) \<in> set (rs_stages R) \<and> isPublished v c \<and>
         se_event row = rs_canonical R)" for row
  proof -
    have "row \<in> set (rows_of s (fst key)) \<and> ?P row \<longleftrightarrow> committed_at s key row \<and> row_visible v row"
      by (auto simp: committed_at_def)
    also have "\<dots> \<longleftrightarrow> (\<exists>R c. sk_reserved s key = Some R \<and> (c, row) \<in> set (rs_stages R)) \<and>
        row_visible v row"
      using wf_sinkD(2)[OF assms] by (auto simp: staged_at_def)
    also have "\<dots> \<longleftrightarrow> (\<exists>R c. sk_reserved s key = Some R \<and> (c, row) \<in> set (rs_stages R) \<and>
        isPublished v c \<and> se_event row = rs_canonical R)"
      using wf_sinkD(3)[OF assms, of key]
      by (fastforce simp: wf_reservation_def row_visible_def isVisible_def)
    finally show ?thesis .
  qed
  show ?thesis
  proof (cases "find ?P (rows_of s (fst key))")
    case none: None
    then have "\<not> (row \<in> set (rows_of s (fst key)) \<and> ?P row)" for row
      by (auto simp: find_None_iff)
    then have "\<not> (\<exists>R c. sk_reserved s key = Some R \<and> (c, row) \<in> set (rs_stages R) \<and> isPublished v c)"
      for row
      using found[of row] wf_sinkD(3)[OF assms, of key] by (fastforce simp: wf_reservation_def)
    then show ?thesis using None none by (auto simp: durableCanonical_def)
  next
    case (Some row)
    then have "row \<in> set (rows_of s (fst key)) \<and> ?P row" by (auto simp: find_Some_iff)
    then obtain R c where R: "sk_reserved s key = Some R" "(c, row) \<in> set (rs_stages R)"
        "isPublished v c" "se_event row = rs_canonical R"
      using found by blast
    then show ?thesis using None Some by (auto simp: durableCanonical_def)
  qed
qed

lemma live_iff:
  assumes "wf_sink s"
  shows "liveReservation v s key = Some R \<longleftrightarrow>
    sk_reserved s key = Some R \<and> (\<exists>(c, row) \<in> set (rs_stages R). \<not> isPublished v c)"
proof (cases "sk_reserved s key")
  case (Some R')
  have "list_ex (\<lambda>(_, row). se_commit row \<noteq> None \<and> \<not> row_visible v row) (rs_stages R') \<longleftrightarrow>
      (\<exists>(c, row) \<in> set (rs_stages R'). \<not> isPublished v c)"
    using wf_sinkD(3)[OF assms Some]
    by (fastforce simp: wf_reservation_def list_ex_iff row_visible_def isVisible_def)
  then show ?thesis using Some by (auto simp: liveReservation_def)
qed (simp add: liveReservation_def)

text \<open>An identity neither durable nor live is free.\<close>

lemma free_identity:
  assumes "wf_sink s" and "durableCanonical v s key = None" and "liveReservation v s key = None"
  shows "sk_reserved s key = None" "sk_landed s key = None"
proof -
  show "sk_landed s key = None"
    using assms(2) durable_iff[OF assms(1), of v key] by (cases "sk_landed s key") auto
  show "sk_reserved s key = None"
  proof (cases "sk_reserved s key")
    case (Some R)
    then obtain c row where st: "(c, row) \<in> set (rs_stages R)"
      using wf_sinkD(3)[OF assms(1)] by (cases "rs_stages R") (auto simp: wf_reservation_def)
    show ?thesis
    proof (cases "isPublished v c")
      case True
      then show ?thesis using st Some assms(2) durable_iff[OF assms(1), of v key] by fastforce
    next
      case False
      then show ?thesis using st Some assms(3) live_iff[OF assms(1), of v key R] by fastforce
    qed
  qed simp
qed

section \<open>Every operation keeps it\<close>

lemma rows_push:
  "push_row r e c s = (row, s') \<Longrightarrow>
   row = \<lparr>se_id = sk_next s, se_event = e, se_commit = c\<rparr> \<and>
   rows_of s' r' = (if r' = r then rows_of s r @ [row] else rows_of s r') \<and>
   sk_reserved s' = sk_reserved s \<and> sk_landed s' = sk_landed s \<and> sk_next s' = Suc (sk_next s) \<and>
   sk_fence s' = sk_fence s"
  by (auto simp: push_row_def rows_of_def Let_def)

lemma wf_rows_push:
  assumes "wf_rows s" and "push_row r e c s = (row, s')"
  shows "wf_rows s'"
proof -
  have fresh: "\<And>r'. row \<notin> set (rows_of s r')"
    using assms rows_push[OF assms(2)] by (fastforce simp: wf_rows_def)
  show ?thesis
    using assms(1) rows_push[OF assms(2)] fresh unfolding wf_rows_def
    by (auto simp: less_Suc_eq)
qed

lemma committed_push_ordinary:
  assumes "push_row r e None s = (row, s')"
  shows "committed_at s' key row' \<longleftrightarrow> committed_at s key row'"
  using rows_push[OF assms, of "fst key"] by (auto simp: committed_at_def)

lemma wf_land:
  assumes "wf_sink s" and "sk_reserved s key = None"
    and "push_row (fst key) e None (s\<lparr>sk_landed := (sk_landed s)(key \<mapsto> e)\<rparr>) = (row, s')"
  shows "wf_sink s'"
proof -
  let ?s1 = "s\<lparr>sk_landed := (sk_landed s)(key \<mapsto> e)\<rparr>"
  have same: "rows_of ?s1 r = rows_of s r" for r by (simp add: rows_of_def)
  have rows: "wf_rows ?s1" using wf_sinkD(1)[OF assms(1)] by (simp add: wf_rows_def same)
  have "committed_at s' k row' \<longleftrightarrow> (\<exists>c. staged_at s' k c row')" for k row'
    using committed_push_ordinary[OF assms(3)] wf_sinkD(2)[OF assms(1), of k row']
      rows_push[OF assms(3)] by (simp add: committed_at_def same staged_at_def)
  then show ?thesis
    using wf_rows_push[OF rows assms(3)] rows_push[OF assms(3)] assms(2) wf_sinkD(3,4)[OF assms(1)]
    unfolding wf_sink_def by auto
qed

text \<open>Adding one stage to a reservation, or a reservation with one stage.\<close>

lemma wf_stage_row:
  assumes "wf_sink s" and "push_row (fst key) e (Some c) s = (row, s1)"
    and "ev_sequence e = snd key" and "sk_landed s key = None"
    and "R' = \<lparr>rs_canonical = e, rs_stages = stages @ [(c, row)]\<rparr>"
    and "case sk_reserved s key of None \<Rightarrow> stages = []
      | Some R \<Rightarrow> rs_stages R = stages \<and> rs_canonical R = e \<and> c \<notin> fst ` set stages"
  shows "wf_sink (s1\<lparr>sk_reserved := (sk_reserved s1)(key \<mapsto> R')\<rparr>)"
proof -
  let ?s2 = "s1\<lparr>sk_reserved := (sk_reserved s1)(key \<mapsto> R')\<rparr>"
  note push = rows_push[OF assms(2)]
  have rows2: "rows_of ?s2 r = rows_of s1 r" for r by (simp add: rows_of_def)
  have "wf_rows s1" by (rule wf_rows_push[OF wf_sinkD(1)[OF assms(1)] assms(2)])
  then have rows: "wf_rows ?s2" by (simp add: wf_rows_def rows2)
  have old: "(\<exists>d. staged_at s key d row') \<longleftrightarrow> row' \<in> snd ` set stages" for row'
    using assms(6) by (force simp: staged_at_def split: option.splits)
  have wfR: "wf_reservation R'"
    using assms(5,6) push wf_sinkD(3)[OF assms(1), of key]
    by (auto simp: wf_reservation_def split: option.splits)
  have "committed_at ?s2 k row' \<longleftrightarrow> (\<exists>d. staged_at ?s2 k d row')" for k row'
  proof (cases "k = key")
    case True
    have "committed_at ?s2 key row' \<longleftrightarrow> committed_at s key row' \<or> row' = row"
      using push assms(3) rows2 by (auto simp: committed_at_def)
    also have "\<dots> \<longleftrightarrow> row' \<in> snd ` set (stages @ [(c, row)])"
      using wf_sinkD(2)[OF assms(1), of key row'] old by auto
    also have "\<dots> \<longleftrightarrow> (\<exists>d. staged_at ?s2 key d row')"
      using assms(5) by (force simp: staged_at_def)
    finally show ?thesis using True by simp
  next
    case False
    have "committed_at ?s2 k row' \<longleftrightarrow> committed_at s k row'"
      using push[of "fst k"] assms(3) False rows2 by (auto simp: committed_at_def prod_eq_iff)
    then show ?thesis
      using False wf_sinkD(2)[OF assms(1), of k row'] push by (simp add: staged_at_def)
  qed
  then show ?thesis
    using rows wfR wf_sinkD(3,4)[OF assms(1)] assms(4) push unfolding wf_sink_def by auto
qed

text \<open>
  What a handle names: a stage still in its reservation, or a row that left the store (and,
  rows being fresh, never comes back).
\<close>

definition handle_ok :: "EventSink \<Rightarrow> stage_handle \<Rightarrow> bool" where
  "handle_ok s handle \<longleftrightarrow>
     (case handle of
        No_stage \<Rightarrow> True
      | Stage_of key c row \<Rightarrow>
          se_commit row = Some c \<and> se_id row < sk_next s \<and>
          (staged_at s key c row \<or> (\<forall>r. row \<notin> set (rows_of s r))))"

lemma staged_rows:
  assumes "wf_sink s" and "staged_at s key c row"
  shows "row \<in> set (rows_of s (fst key))" "se_commit row = Some c"
    "ev_sequence (se_event row) = snd key" "se_id row < sk_next s"
proof -
  have com: "committed_at s key row" using wf_sinkD(2)[OF assms(1)] assms(2) by blast
  then show row: "row \<in> set (rows_of s (fst key))" and "ev_sequence (se_event row) = snd key"
    by (auto simp: committed_at_def)
  show "se_commit row = Some c"
    using assms wf_sinkD(3)[OF assms(1)] by (fastforce simp: staged_at_def wf_reservation_def)
  show "se_id row < sk_next s"
    using row wf_sinkD(1)[OF assms(1)] by (auto simp: wf_rows_def)
qed

lemma staged_unique:
  assumes "wf_sink s" and "staged_at s key c row" and "staged_at s key' d row"
  shows "key' = key \<and> d = c"
proof -
  note a = staged_rows[OF assms(1,2)] and b = staged_rows[OF assms(1,3)]
  have "fst key' = fst key" using a b wf_sinkD(1)[OF assms(1)] by (auto simp: wf_rows_def)
  then show ?thesis using a b by (simp add: prod_eq_iff)
qed

lemma rows_release:
  "rows_of (releaseStage v key c row s) r =
     (if se_commit row \<noteq> None \<and> row_visible v row then rows_of s r else remove1 row (rows_of s r))"
  "sk_landed (releaseStage v key c row s) = sk_landed s"
  "sk_next (releaseStage v key c row s) = sk_next s"
  "sk_fence (releaseStage v key c row s) = sk_fence s"
  by (auto simp: releaseStage_def rows_of_def split: option.splits)

lemma staged_release:
  assumes "wf_sink s" and "staged_at s key c row" and "\<not> isPublished v c"
  shows "staged_at (releaseStage v key c row s) k d row' \<longleftrightarrow> staged_at s k d row' \<and> row' \<noteq> row"
proof -
  obtain R where R: "sk_reserved s key = Some R" "(c, row) \<in> set (rs_stages R)"
    using assms(2) by (auto simp: staged_at_def)
  have wfR: "wf_reservation R" using wf_sinkD(3)[OF assms(1) R(1)] .
  have own: "map_of (rs_stages R) c = Some row"
    using wfR R(2) by (simp add: wf_reservation_def)
  let ?F = "filter (\<lambda>(d, _). d \<noteq> c) (rs_stages R)"
  have inv: "\<not> (se_commit row \<noteq> None \<and> row_visible v row)"
    using staged_rows(2)[OF assms(1,2)] assms(3) by (simp add: row_visible_def isVisible_def)
  have res: "sk_reserved (releaseStage v key c row s) =
      (if ?F = [] then (sk_reserved s)(key := None)
       else (sk_reserved s)(key \<mapsto> R\<lparr>rs_stages := ?F\<rparr>))"
    unfolding releaseStage_def if_not_P[OF inv] using R own by (simp add: drop_stage_def Let_def)
  show ?thesis
  proof (cases "k = key")
    case True
    have "staged_at (releaseStage v key c row s) key d row' \<longleftrightarrow> (d, row') \<in> set ?F"
    proof (cases "?F = []")
      case empty: True
      then show ?thesis unfolding staged_at_def res if_P[OF empty] by simp
    next
      case False
      then show ?thesis unfolding staged_at_def res if_not_P[OF False] by simp
    qed
    also have "\<dots> \<longleftrightarrow> staged_at s key d row' \<and> d \<noteq> c" using R by (auto simp: staged_at_def)
    also have "\<dots> \<longleftrightarrow> staged_at s key d row' \<and> row' \<noteq> row"
    proof -
      have "row' = row" if "(c, row') \<in> set (rs_stages R)"
        using that wfR own by (auto simp: wf_reservation_def)
      moreover have "d = c" if "(d, row) \<in> set (rs_stages R)"
        using staged_unique[OF assms(1,2), of key d] that R by (auto simp: staged_at_def)
      ultimately show ?thesis using R by (auto simp: staged_at_def)
    qed
    finally show ?thesis using True by simp
  next
    case False
    then have "row' \<noteq> row" if "staged_at s k d row'"
      using staged_unique[OF assms(1,2), of k d] that by auto
    then show ?thesis using False by (auto simp: staged_at_def res)
  qed
qed

lemma wf_reservation_filter:
  assumes "wf_reservation R" and "filter P (rs_stages R) \<noteq> []"
  shows "wf_reservation (R\<lparr>rs_stages := filter P (rs_stages R)\<rparr>)"
  using assms by (auto simp: wf_reservation_def distinct_map intro: inj_on_subset)

lemma reserved_release:
  assumes "sk_reserved (releaseStage v key c row s) k = Some R'"
  shows "\<exists>R P. sk_reserved s k = Some R \<and> R' = R\<lparr>rs_stages := filter P (rs_stages R)\<rparr> \<and>
    (rs_stages R \<noteq> [] \<longrightarrow> rs_stages R' \<noteq> [])"
proof -
  have same: "R\<lparr>rs_stages := filter (\<lambda>_. True) (rs_stages R)\<rparr> = R" for R :: Reservation by simp
  show ?thesis
  proof (cases "sk_reserved s k = Some R'")
    case True
    then show ?thesis using same by metis
  next
    case False
    then show ?thesis using assms
      by (auto simp: releaseStage_def drop_stage_def Let_def split: if_splits option.splits)
  qed
qed

lemma wf_release:
  assumes "wf_sink s" and "handle_ok s (Stage_of key c row)"
  shows "wf_sink (releaseStage v key c row s)"
proof (cases "isPublished v c")
  case True
  then have "releaseStage v key c row s = s"
    using assms(2) by (simp add: releaseStage_def handle_ok_def row_visible_def isVisible_def)
  then show ?thesis using assms(1) by simp
next
  case False
  let ?s = "releaseStage v key c row s"
  have rows: "rows_of ?s r = remove1 row (rows_of s r)" for r
    using False assms(2) by (simp add: rows_release handle_ok_def row_visible_def isVisible_def)
  have dist: "distinct (rows_of s r)" for r using wf_sinkD(1)[OF assms(1)] by (simp add: wf_rows_def)
  have set: "set (rows_of ?s r) = set (rows_of s r) - {row}" for r
    by (simp add: rows dist set_remove1_eq)
  have wfr: "wf_rows ?s"
    using wf_sinkD(1)[OF assms(1)] unfolding wf_rows_def set rows_release(3)
    by (simp add: rows distinct_remove1) blast
  have com: "committed_at ?s k row' \<longleftrightarrow> committed_at s k row' \<and> row' \<noteq> row" for k row'
    by (auto simp: committed_at_def set)
  have iff: "committed_at ?s k row' \<longleftrightarrow> (\<exists>d. staged_at ?s k d row')" for k row'
  proof (cases "staged_at s key c row")
    case True
    then show ?thesis
      using com staged_release[OF assms(1) True False] wf_sinkD(2)[OF assms(1), of k row'] by blast
  next
    case gone: False
    then have out: "\<forall>r. row \<notin> set (rows_of s r)" using assms(2) by (simp add: handle_ok_def)
    have "sk_reserved ?s = sk_reserved s"
      using gone map_of_SomeD
      by (fastforce simp: releaseStage_def drop_stage_def staged_at_def split: option.splits)
    then show ?thesis
      using com wf_sinkD(2)[OF assms(1), of k row'] out by (auto simp: staged_at_def committed_at_def)
  qed
  have "wf_reservation R' \<and> sk_landed ?s k = None" if R': "sk_reserved ?s k = Some R'" for k R'
  proof -
    obtain R P where R: "sk_reserved s k = Some R" "R' = R\<lparr>rs_stages := filter P (rs_stages R)\<rparr>"
        "rs_stages R \<noteq> [] \<longrightarrow> rs_stages R' \<noteq> []"
      using reserved_release[OF R'] by blast
    have "wf_reservation R" using wf_sinkD(3)[OF assms(1) R(1)] .
    then show ?thesis
      using R wf_sinkD(4)[OF assms(1) R(1)] wf_reservation_filter[of R P]
      by (simp add: rows_release wf_reservation_def)
  qed
  then show ?thesis using wfr iff unfolding wf_sink_def by blast
qed

lemma handle_release:
  assumes "wf_sink s" and "handle_ok s (Stage_of key c row)" and "handle_ok s h"
  shows "handle_ok (releaseStage v key c row s) h"
proof (cases h)
  case (Stage_of key' d row')
  let ?s = "releaseStage v key c row s"
  have sub: "set (rows_of ?s r) \<subseteq> set (rows_of s r)" for r
    using set_remove1_subset[of row "rows_of s r"] by (simp add: rows_release)
  have "staged_at ?s key' d row' \<or> (\<forall>r. row' \<notin> set (rows_of ?s r))"
    if st: "staged_at s key' d row'"
  proof -
    have w: "wf_sink ?s" by (rule wf_release[OF assms(1,2)])
    have no: "\<forall>r. row' \<notin> set (rows_of ?s r)" if "\<not> (\<exists>k e. staged_at ?s k e row')"
    proof (intro allI notI)
      fix r assume "row' \<in> set (rows_of ?s r)"
      then have "committed_at ?s (r, ev_sequence (se_event row')) row'"
        using staged_rows(2)[OF assms(1) st] by (simp add: committed_at_def)
      then show False using wf_sinkD(2)[OF w] that by blast
    qed
    have "k = key' \<and> e = d" if later: "staged_at ?s k e row'" for k e
    proof -
      obtain R' where R': "sk_reserved ?s k = Some R'" "(e, row') \<in> set (rs_stages R')"
        using later by (auto simp: staged_at_def)
      obtain R P where "sk_reserved s k = Some R" "R' = R\<lparr>rs_stages := filter P (rs_stages R)\<rparr>"
        using reserved_release[OF R'(1)] by blast
      with R' have "staged_at s k e row'" by (auto simp: staged_at_def)
      then show ?thesis using staged_unique[OF assms(1) st] by blast
    qed
    then show ?thesis using no by blast
  qed
  then show ?thesis using assms(3) sub Stage_of
    by (auto simp: handle_ok_def rows_release(3))
qed (simp add: handle_ok_def)

lemma handle_staged:
  assumes "wf_sink s" and "staged_at s key c row"
  shows "handle_ok s (Stage_of key c row)"
  using staged_rows[OF assms] assms(2) by (simp add: handle_ok_def)

lemma reserved_handles:
  assumes "wf_sink s" and "sk_reserved s key = Some R"
  shows "\<forall>(c, row) \<in> set (rs_stages R). handle_ok s (Stage_of key c row)"
proof clarify
  fix c row assume "(c, row) \<in> set (rs_stages R)"
  then have "staged_at s key c row" using assms(2) unfolding staged_at_def by blast
  then show "handle_ok s (Stage_of key c row)" by (rule handle_staged[OF assms(1)])
qed

text \<open>Retiring stages one after another.\<close>

lemma release_fold:
  assumes "wf_sink s" and "\<forall>(c, row) \<in> set stages. handle_ok s (Stage_of key c row)"
  shows "wf_sink (fold (\<lambda>(c, row). releaseStage v key c row) stages s) \<and>
    (\<forall>h. handle_ok s h \<longrightarrow> handle_ok (fold (\<lambda>(c, row). releaseStage v key c row) stages s) h) \<and>
    sk_landed (fold (\<lambda>(c, row). releaseStage v key c row) stages s) = sk_landed s \<and>
    sk_fence (fold (\<lambda>(c, row). releaseStage v key c row) stages s) = sk_fence s"
  using assms
proof (induction stages arbitrary: s)
  case (Cons p stages)
  obtain c row where p: "p = (c, row)" by (cases p)
  have h: "handle_ok s (Stage_of key c row)" using Cons.prems(2) p by simp
  have "wf_sink (releaseStage v key c row s)"
    and "\<forall>(d, row') \<in> set stages. handle_ok (releaseStage v key c row s) (Stage_of key d row')"
    using wf_release[OF Cons.prems(1) h] handle_release[OF Cons.prems(1) h] Cons.prems(2) by auto
  from Cons.IH[OF this] show ?case
    using handle_release[OF Cons.prems(1) h] by (simp add: p rows_release)
qed simp

lemma released_gone:
  assumes "wf_sink s" and "\<forall>d. staged_at s key d row' \<longrightarrow> (d, row') \<in> set stages"
    and "\<forall>(c, row) \<in> set stages. staged_at s key c row \<and> \<not> isPublished v c"
    and "distinct (map snd stages)"
  shows "\<not> staged_at (fold (\<lambda>(c, row). releaseStage v key c row) stages s) key d row'"
  using assms
proof (induction stages arbitrary: s)
  case Nil
  then show ?case by auto
next
  case (Cons p stages)
  obtain c row where p: "p = (c, row)" by (cases p)
  have st: "staged_at s key c row" "\<not> isPublished v c" using Cons.prems(3) p by auto
  let ?s = "releaseStage v key c row s"
  have rel: "staged_at ?s key e r \<longleftrightarrow> staged_at s key e r \<and> r \<noteq> row" for e r
    by (rule staged_release[OF Cons.prems(1) st])
  have fresh: "row \<notin> snd ` set stages" using Cons.prems(4) p by simp
  have "\<not> staged_at (fold (\<lambda>(c, row). releaseStage v key c row) stages ?s) key d row'"
  proof (rule Cons.IH)
    show "wf_sink ?s" by (rule wf_release[OF Cons.prems(1) handle_staged[OF Cons.prems(1) st(1)]])
    show "\<forall>d. staged_at ?s key d row' \<longrightarrow> (d, row') \<in> set stages"
      using Cons.prems(2) p by (auto simp: rel)
    show "\<forall>(c, row) \<in> set stages. staged_at ?s key c row \<and> \<not> isPublished v c"
      using Cons.prems(3) fresh by (force simp: rel)
    show "distinct (map snd stages)" using Cons.prems(4) by simp
  qed
  then show ?case by (simp add: p)
qed

lemma retire_all:
  assumes "wf_sink s" and "sk_reserved s key = Some R"
    and "\<forall>(c, row) \<in> set (rs_stages R). \<not> isPublished v c"
  shows "sk_reserved (fold (\<lambda>(c, row). releaseStage v key c row) (rs_stages R) s) key = None"
proof -
  let ?s = "fold (\<lambda>(c, row). releaseStage v key c row) (rs_stages R) s"
  have wfR: "wf_reservation R" by (rule wf_sinkD(3)[OF assms(1,2)])
  have st: "\<forall>(c, row) \<in> set (rs_stages R). staged_at s key c row"
    using assms(2) by (auto simp: staged_at_def)
  have wf: "wf_sink ?s"
    using release_fold[OF assms(1), of "rs_stages R" key v] handle_staged[OF assms(1)] st by blast
  have dist: "distinct (map snd (rs_stages R))"
  proof -
    have "inj_on snd (set (rs_stages R))"
    proof (rule inj_onI)
      fix x y assume "x \<in> set (rs_stages R)" "y \<in> set (rs_stages R)" "snd x = snd y"
      moreover have "\<forall>z \<in> set (rs_stages R). se_commit (snd z) = Some (fst z)"
        using wfR by (auto simp: wf_reservation_def)
      ultimately show "x = y" by (metis option.inject prod_eqI)
    qed
    then show ?thesis
      using wfR by (simp add: wf_reservation_def distinct_map)
  qed
  have "\<not> staged_at ?s key d row'" for d row'
    by (rule released_gone[OF assms(1)])
      (use assms st dist in \<open>auto simp: staged_at_def\<close>)
  then show ?thesis
  proof (cases "sk_reserved ?s key")
    case (Some R')
    then have "rs_stages R' \<noteq> []" using wf_sinkD(3)[OF wf] by (simp add: wf_reservation_def)
    then obtain d row' where "(d, row') \<in> set (rs_stages R')" by (cases "rs_stages R'") auto
    then have "staged_at ?s key d row'" using Some by (auto simp: staged_at_def)
    then show ?thesis using \<open>\<And>d row'. \<not> staged_at ?s key d row'\<close> by blast
  qed simp
qed

text \<open>Durability read from the stages, and what a release does to them.\<close>

lemma durable_staged:
  assumes "wf_sink s"
  shows "durableCanonical v s key = Some e \<longleftrightarrow>
    sk_landed s key = Some e \<or>
    (\<exists>c row. staged_at s key c row \<and> isPublished v c \<and> se_event row = e)"
proof -
  have "rs_canonical R = se_event row" if "sk_reserved s key = Some R" "(c, row) \<in> set (rs_stages R)"
    for R c row
    using wf_sinkD(3)[OF assms that(1)] that(2) by (auto simp: wf_reservation_def)
  then show ?thesis unfolding durable_iff[OF assms] staged_at_def by metis
qed

lemma release_staged_iff:
  assumes "wf_sink s" and "handle_ok s (Stage_of key c row)" and "\<not> isPublished v c"
  shows "staged_at (releaseStage v key c row s) k d row' \<longleftrightarrow> staged_at s k d row' \<and> row' \<noteq> row"
proof (cases "staged_at s key c row")
  case True
  then show ?thesis by (rule staged_release[OF assms(1) _ assms(3)])
next
  case False
  then have out: "\<forall>r. row \<notin> set (rows_of s r)" using assms(2) by (simp add: handle_ok_def)
  have "sk_reserved (releaseStage v key c row s) = sk_reserved s"
    using False map_of_SomeD
    by (fastforce simp: releaseStage_def drop_stage_def staged_at_def split: option.splits)
  moreover have "row' \<noteq> row" if "staged_at s k d row'"
    using staged_rows(1)[OF assms(1) that] out by auto
  ultimately show ?thesis by (auto simp: staged_at_def)
qed

lemma durable_release:
  assumes "wf_sink s" and "handle_ok s (Stage_of key c row)"
    and "durableCanonical v s k = Some e"
  shows "durableCanonical v (releaseStage v key c row s) k = Some e"
proof (cases "isPublished v c")
  case True
  then have "releaseStage v key c row s = s"
    using assms(2) by (simp add: releaseStage_def handle_ok_def row_visible_def isVisible_def)
  then show ?thesis using assms(3) by simp
next
  case False
  note w = wf_release[OF assms(1,2), of v]
  consider "sk_landed s k = Some e"
    | d row' where "staged_at s k d row'" "isPublished v d" "se_event row' = e"
    using assms(3) unfolding durable_staged[OF assms(1)] by blast
  then show ?thesis
  proof cases
    case 2
    have "row' \<noteq> row"
      using staged_rows(2)[OF assms(1) 2(1)] 2(2) False assms(2) by (auto simp: handle_ok_def)
    then show ?thesis
      unfolding durable_staged[OF w] release_staged_iff[OF assms(1,2) False] using 2 by blast
  qed (simp add: durable_staged[OF w] rows_release)
qed

lemma durable_release_fold:
  assumes "wf_sink s" and "\<forall>(c, row) \<in> set stages. handle_ok s (Stage_of key c row)"
    and "durableCanonical v s k = Some e"
  shows "durableCanonical v (fold (\<lambda>(c, row). releaseStage v key c row) stages s) k = Some e"
  using assms
proof (induction stages arbitrary: s)
  case (Cons p stages)
  obtain c row where p: "p = (c, row)" by (cases p)
  have h: "handle_ok s (Stage_of key c row)" using Cons.prems(2) p by simp
  have "\<forall>(d, row') \<in> set stages. handle_ok (releaseStage v key c row s) (Stage_of key d row')"
    using handle_release[OF Cons.prems(1) h] Cons.prems(2) by auto
  then show ?case
    using Cons.IH[OF wf_release[OF Cons.prems(1) h]] durable_release[OF Cons.prems(1) h Cons.prems(3)]
    by (simp add: p)
qed simp

lemma fence_rows [simp]:
  "rows_of (s\<lparr>sk_fence := l\<rparr>) r = rows_of s r"
  "committed_at (s\<lparr>sk_fence := l\<rparr>) k row = committed_at s k row"
  "staged_at (s\<lparr>sk_fence := l\<rparr>) k c row = staged_at s k c row"
  by (simp_all add: rows_of_def committed_at_def staged_at_def)

lemma fence_field [simp]:
  "wf_sink (s\<lparr>sk_fence := l\<rparr>) = wf_sink s"
  "handle_ok (s\<lparr>sk_fence := l\<rparr>) h = handle_ok s h"
  "durableCanonical v (s\<lparr>sk_fence := l\<rparr>) k = durableCanonical v s k"
  "liveReservation v (s\<lparr>sk_fence := l\<rparr>) k = liveReservation v s k"
  "eventsOf v (s\<lparr>sk_fence := l\<rparr>) r = eventsOf v s r"
  by (simp_all add: wf_sink_def wf_rows_def handle_ok_def durableCanonical_def
      liveReservation_def eventsOf_def cong: option.case_cong stage_handle.case_cong)

lemma handle_push:
  assumes "handle_ok s h" and "push_row r e c s = (row, s')"
    and "\<And>k d r'. staged_at s k d r' \<Longrightarrow> staged_at s'' k d r'"
    and "\<And>r'. rows_of s'' r' = rows_of s' r'" and "sk_next s'' = sk_next s'"
  shows "handle_ok s'' h"
proof (cases h)
  case (Stage_of key d row')
  have "row' \<noteq> row" "se_id row' < sk_next s''"
    using assms(1,5) Stage_of rows_push[OF assms(2)] by (auto simp: handle_ok_def)
  moreover have "staged_at s key d row' \<Longrightarrow> staged_at s'' key d row'" by (rule assms(3))
  moreover have "row' \<in> set (rows_of s'' r') \<Longrightarrow> row' \<noteq> row \<Longrightarrow> row' \<in> set (rows_of s r')" for r'
    using rows_push[OF assms(2), of r'] assms(4) by (auto split: if_splits)
  ultimately show ?thesis using assms(1) Stage_of by (auto simp: handle_ok_def)
qed (simp add: handle_ok_def)

text \<open>
  One operation of the sink never undoes a durable event, never invalidates a handle, and
  leaves the well-formed sinks.
\<close>

definition sink_kept :: "CommitLedger \<Rightarrow> EventSink \<Rightarrow> EventSink \<Rightarrow> bool" where
  "sink_kept v s s' \<longleftrightarrow>
     wf_sink s' \<and> (\<forall>h. handle_ok s h \<longrightarrow> handle_ok s' h) \<and>
     (\<forall>k e. durableCanonical v s k = Some e \<longrightarrow> durableCanonical v s' k = Some e)"

lemma sink_kept_refl [simp]: "wf_sink s \<Longrightarrow> sink_kept v s s"
  by (simp add: sink_kept_def)

lemma sink_kept_trans: "sink_kept v s s' \<Longrightarrow> sink_kept v s' s'' \<Longrightarrow> sink_kept v s s''"
  by (auto simp: sink_kept_def)

lemma kept_release:
  "wf_sink s \<Longrightarrow> handle_ok s (Stage_of key c row) \<Longrightarrow>
   sink_kept v s (releaseStage v key c row s)"
  using wf_release handle_release durable_release by (simp add: sink_kept_def)

lemma kept_retire:
  assumes "wf_sink s" and "sk_reserved s key = Some R"
  shows "sink_kept v s (fold (\<lambda>(c, row). releaseStage v key c row) (rs_stages R) s)"
  using release_fold[OF assms(1) reserved_handles[OF assms]]
    durable_release_fold[OF assms(1) reserved_handles[OF assms]]
  unfolding sink_kept_def by blast

lemma kept_land:
  fixes e :: SinkEvent
  assumes "wf_sink s" and "sk_reserved s key = None" and "sk_landed s key = None"
  defines "s' \<equiv> snd (push_row (fst key) e None (s\<lparr>sk_landed := (sk_landed s)(key \<mapsto> e)\<rparr>))"
  shows "sink_kept v s s' \<and> durableCanonical v s' key = Some e"
proof -
  let ?s1 = "s\<lparr>sk_landed := (sk_landed s)(key \<mapsto> e)\<rparr>"
  obtain row where push: "push_row (fst key) e None ?s1 = (row, s')"
    by (metis prod.collapse s'_def)
  have wf: "wf_sink s'" by (rule wf_land[OF assms(1,2) push])
  have st: "staged_at s' k c r \<longleftrightarrow> staged_at s k c r" for k c r
    using rows_push[OF push] by (simp add: staged_at_def)
  have ok1: "handle_ok ?s1 h = handle_ok s h" for h
    by (simp add: handle_ok_def staged_at_def rows_of_def cong: stage_handle.case_cong)
  have "handle_ok s' h" if "handle_ok s h" for h
    by (rule handle_push[OF _ push]) (use that ok1 st in \<open>auto simp: staged_at_def\<close>)
  moreover have "durableCanonical v s' k = Some d" if "durableCanonical v s k = Some d" for k d
    using that assms(2,3) rows_push[OF push] unfolding durable_staged[OF assms(1)] durable_staged[OF wf] st
    by (auto simp: staged_at_def)
  moreover have "durableCanonical v s' key = Some e"
    unfolding durable_staged[OF wf] using rows_push[OF push] by simp
  ultimately show ?thesis using wf by (simp add: sink_kept_def)
qed

lemma kept_emit_admitted:
  assumes "wf_sink s"
  shows "sink_kept v s (snd (emit_admitted v key e s)) \<and>
    (fst (emit_admitted v key e s) = Fence_ok \<longrightarrow>
       durableCanonical v (snd (emit_admitted v key e s)) key = Some e)"
proof (cases "durableCanonical v s key")
  case None
  show ?thesis
  proof (cases "liveReservation v s key")
    case live: None
    note free = free_identity[OF assms None live]
    show ?thesis
      using kept_land[OF assms free, where e = e and v = v] by (simp add: emit_admitted_def None live)
  next
    case (Some R)
    have R: "sk_reserved s key = Some R" using Some live_iff[OF assms] by blast
    have unpub: "\<forall>(c, row) \<in> set (rs_stages R). \<not> isPublished v c"
      using None durable_iff[OF assms, of v key] R by auto
    let ?s1 = "fold (\<lambda>(c, row). releaseStage v key c row) (rs_stages R) s"
    note kept = kept_retire[OF assms R, of v]
    have wf1: "wf_sink ?s1" using kept by (simp add: sink_kept_def)
    have res1: "sk_reserved ?s1 key = None" by (rule retire_all[OF assms R unpub])
    have land1: "sk_landed ?s1 key = None"
      using release_fold[OF assms reserved_handles[OF assms R]] wf_sinkD(4)[OF assms R] by simp
    show ?thesis
      using kept_land[OF wf1 res1 land1, where e = e and v = v] sink_kept_trans[OF kept]
        sink_kept_refl[OF assms, of v]
      by (auto simp: emit_admitted_def None Some sink_conflict_def Let_def)
  qed
qed (use assms in \<open>simp add: emit_admitted_def sink_conflict_def\<close>)

lemma kept_emit:
  assumes "wf_sink s"
  shows "sink_kept v s (snd (emit v f seq e s)) \<and>
    (fst (emit v f seq e s) = Fence_ok \<longrightarrow>
       durableCanonical v (snd (emit v f seq e s)) (fn_run_id f, seq) = Some e)"
proof -
  obtain a l where f: "fence_outcome (sk_fence s) f = (a, l)" by (rule prod.exhaust)
  have "wf_sink (s\<lparr>sk_fence := l\<rparr>)" using assms by simp
  note k = kept_emit_admitted[OF this, of v "(fn_run_id f, seq)" e]
  show ?thesis
    using k assms by (cases a) (auto simp: emit_def f sink_kept_def)
qed

text \<open>Staging.\<close>

lemma kept_stage_row:
  assumes "wf_sink s" and "push_row (fst key) e (Some c) s = (row, s1)"
    and "ev_sequence e = snd key" and "sk_landed s key = None"
    and "R' = \<lparr>rs_canonical = e, rs_stages = stages @ [(c, row)]\<rparr>"
    and "case sk_reserved s key of None \<Rightarrow> stages = []
      | Some R \<Rightarrow> rs_stages R = stages \<and> rs_canonical R = e \<and> c \<notin> fst ` set stages"
  defines "s' \<equiv> s1\<lparr>sk_reserved := (sk_reserved s1)(key \<mapsto> R')\<rparr>"
  shows "sink_kept v s s' \<and> handle_ok s' (Stage_of key c row)"
proof -
  note push = rows_push[OF assms(2)]
  have wf: "wf_sink s'" unfolding s'_def by (rule wf_stage_row[OF assms(1-6)])
  have st: "staged_at s' k d r" if "staged_at s k d r" for k d r
    using that assms(5,6) push by (auto simp: staged_at_def s'_def)
  have "handle_ok s' h" if "handle_ok s h" for h
    by (rule handle_push[OF that assms(2)]) (use st in \<open>auto simp: s'_def rows_of_def\<close>)
  moreover have "durableCanonical v s' k = Some d" if "durableCanonical v s k = Some d" for k d
  proof -
    have "sk_landed s' = sk_landed s" using push by (simp add: s'_def)
    then show ?thesis
      using that st unfolding durable_staged[OF assms(1)] durable_staged[OF wf] by metis
  qed
  moreover have "staged_at s' key c row" using assms(5) by (simp add: staged_at_def s'_def)
  ultimately show ?thesis using wf handle_staged[OF wf] by (simp add: sink_kept_def)
qed

lemma kept_stage_admitted:
  assumes "wf_sink s" and "ev_sequence e = snd key"
  shows "sink_kept v s (snd (stage_admitted v key c e s)) \<and>
    (\<forall>h. fst (stage_admitted v key c e s) = Staged h \<longrightarrow>
       handle_ok (snd (stage_admitted v key c e s)) h)"
proof (cases "durableCanonical v s key")
  case None
  obtain row s1 where push: "push_row (fst key) e (Some c) s = (row, s1)" by (rule prod.exhaust)
  show ?thesis
  proof (cases "liveReservation v s key")
    case live: None
    note free = free_identity[OF assms(1) None live]
    show ?thesis
      using kept_stage_row[OF assms(1) push assms(2) free(2), of _ "[]" v] free(1)
      by (simp add: stage_admitted_def None live push)
  next
    case (Some R)
    have R: "sk_reserved s key = Some R" using Some live_iff[OF assms(1)] by blast
    have land: "sk_landed s key = None" by (rule wf_sinkD(4)[OF assms(1) R])
    show ?thesis
    proof (cases "rs_canonical R = e")
      case False
      then show ?thesis using assms(1) by (simp add: stage_admitted_def None Some)
    next
      case True
      show ?thesis
      proof (cases "map_of (rs_stages R) c")
        case none: None
        then have new: "c \<notin> fst ` set (rs_stages R)" by (simp add: map_of_eq_None_iff)
        have upd: "R\<lparr>rs_stages := rs_stages R @ [(c, row)]\<rparr> =
            \<lparr>rs_canonical = e, rs_stages = rs_stages R @ [(c, row)]\<rparr>"
          using True by simp
        show ?thesis
          using kept_stage_row[OF assms(1) push assms(2) land upd] R True new none
          by (simp add: stage_admitted_def None Some push)
      next
        case own: (Some row')
        then have "staged_at s key c row'"
          using R map_of_SomeD unfolding staged_at_def by fastforce
        then show ?thesis
          using handle_staged[OF assms(1)] assms(1) own True
          by (simp add: stage_admitted_def None Some)
      qed
    qed
  qed
qed (use assms in \<open>auto simp: stage_admitted_def handle_ok_def\<close>)

lemma kept_stage:
  assumes "wf_sink s"
  shows "sink_kept v s (snd (stageEmit v f c e s)) \<and>
    (\<forall>h. fst (stageEmit v f c e s) = Staged h \<longrightarrow> handle_ok (snd (stageEmit v f c e s)) h)"
proof -
  obtain a l where f: "fence_refuse (sk_fence s) f = (a, l)" by (rule prod.exhaust)
  have "wf_sink (s\<lparr>sk_fence := l\<rparr>)" using assms by simp
  note k = kept_stage_admitted[OF this, of e "(fn_run_id f, ev_sequence e)" v c]
  show ?thesis
    using k assms by (cases a) (auto simp: stageEmit_def f sink_kept_def)
qed

lemma kept_abandon:
  "wf_sink s \<Longrightarrow> handle_ok s h \<Longrightarrow> sink_kept v s (abandon_event v h s)"
  using kept_release by (cases h) (simp_all add: abandon_event_def)

lemma durable_publish:
  assumes "wf_sink s" and "durableCanonical v s k = Some e"
  shows "durableCanonical (publish v c) s k = Some e"
  using assms(2) unfolding durable_staged[OF assms(1)] by (auto simp: ledger.is_pub_pub)

text \<open>
  A commit's event is backed when it is durable already, or the commit owns an invisible row
  for it. Publishing the commit then makes it durable.
\<close>

definition backed :: "CommitLedger \<Rightarrow> EventSink \<Rightarrow> event_key \<Rightarrow> string \<Rightarrow> SinkEvent \<Rightarrow> bool" where
  "backed v s key c e \<longleftrightarrow>
     durableCanonical v s key = Some e \<or> (\<exists>row. staged_at s key c row \<and> se_event row = e)"

lemma backed_publish:
  assumes "wf_sink s" and "backed v s key c e"
  shows "durableCanonical (publish v c) s key = Some e"
  using assms durable_publish[OF assms(1)] unfolding backed_def
  by (metis durable_staged[OF assms(1)] ledger.is_pub_pub)

lemma backed_release:
  assumes "wf_sink s" and "handle_ok s (Stage_of key' d row)" and "d \<noteq> c" and "backed v s key c e"
  shows "backed v (releaseStage v key' d row s) key c e"
proof (cases "isPublished v d")
  case True
  then have "releaseStage v key' d row s = s"
    using assms(2) by (simp add: releaseStage_def handle_ok_def row_visible_def isVisible_def)
  then show ?thesis using assms(4) by simp
next
  case False
  have "row' \<noteq> row" if "staged_at s key c row'" for row'
    using staged_rows(2)[OF assms(1) that] assms(2,3) by (auto simp: handle_ok_def)
  then show ?thesis
    using assms(4) durable_release[OF assms(1,2)] release_staged_iff[OF assms(1,2) False]
    unfolding backed_def by blast
qed

lemma backed_abandon:
  assumes "wf_sink s" and "handle_ok s h" and "\<forall>key' row. h \<noteq> Stage_of key' c row"
    and "backed v s key c e"
  shows "backed v (abandon_event v h s) key c e"
  using assms backed_release by (cases h) (auto simp: abandon_event_def)

lemma staged_row_push:
  assumes "push_row r e c s = (row, s')"
  shows "staged_at s' k d r' = staged_at s k d r'"
  using rows_push[OF assms] by (simp add: staged_at_def)

text \<open>Retiring the stages of one identity keeps the stages of every other.\<close>

lemma retire_others:
  assumes "wf_sink s" and "\<forall>(c, row) \<in> set stages. handle_ok s (Stage_of key c row)"
    and "\<forall>(c, row) \<in> set stages. staged_at s key c row" and "k \<noteq> key" and "staged_at s k d row'"
  shows "staged_at (fold (\<lambda>(c, row). releaseStage v key c row) stages s) k d row'"
proof -
  have "row' \<notin> snd ` set stages"
    using assms(3-5) staged_unique[OF assms(1,5)] by fastforce
  then show ?thesis using assms(1,2,5)
  proof (induction stages arbitrary: s)
    case (Cons p stages)
    obtain c row where p: "p = (c, row)" by (cases p)
    have h: "handle_ok s (Stage_of key c row)" using Cons.prems(3) p by simp
    have "staged_at (releaseStage v key c row s) k d row'"
    proof (cases "isPublished v c")
      case True
      then have "releaseStage v key c row s = s"
        using h by (simp add: releaseStage_def handle_ok_def row_visible_def isVisible_def)
      then show ?thesis using Cons.prems(4) by simp
    next
      case False
      then show ?thesis
        using release_staged_iff[OF Cons.prems(2) h False] Cons.prems(1,4) p by simp
    qed
    moreover have "\<forall>(d, row') \<in> set stages. handle_ok (releaseStage v key c row s) (Stage_of key d row')"
      using handle_release[OF Cons.prems(2) h] Cons.prems(3) by auto
    ultimately show ?case
      using Cons.IH[OF _ wf_release[OF Cons.prems(2) h]] Cons.prems(1) by (simp add: p)
  qed simp
qed

lemma backed_emit_admitted:
  assumes "wf_sink s" and "backed v s key c e"
  shows "backed v (snd (emit_admitted v key' e' s)) key c e"
proof (cases "durableCanonical v s key = Some e")
  case True
  then show ?thesis using kept_emit_admitted[OF assms(1), of v key' e'] by (simp add: sink_kept_def backed_def)
next
  case False
  then obtain row where row: "staged_at s key c row" "se_event row = e"
    using assms(2) by (auto simp: backed_def)
  have push: "staged_at (snd (push_row r d co (t\<lparr>sk_landed := m\<rparr>))) key c row = staged_at t key c row"
    for r d co t m
    by (simp add: push_row_def staged_at_def Let_def)
  show ?thesis
  proof (cases "liveReservation v s key'")
    case None
    then have "staged_at (snd (emit_admitted v key' e' s)) key c row"
      using row(1) push by (simp add: emit_admitted_def sink_conflict_def split: option.split)
    then show ?thesis using row(2) by (auto simp: backed_def)
  next
    case (Some R)
    have R: "sk_reserved s key' = Some R" using Some live_iff[OF assms(1)] by blast
    have staged: "\<forall>(c, row) \<in> set (rs_stages R). staged_at s key' c row"
      using R by (auto simp: staged_at_def)
    let ?out = "emit_admitted v key' e' s"
    have out: "snd ?out = s \<or> durableCanonical v s key' = None \<and> rs_canonical R = e'"
      by (cases "durableCanonical v s key'") (simp_all add: emit_admitted_def Some sink_conflict_def)
    show ?thesis
    proof (cases "snd ?out = s")
      case False
      then have 2: "durableCanonical v s key' = None" "rs_canonical R = e'" using out by simp_all
      show ?thesis
      proof (cases "key' = key")
        case True
        then have "rs_canonical R = e"
          using row R wf_sinkD(3)[OF assms(1) R] by (auto simp: staged_at_def wf_reservation_def)
        moreover have "fst ?out = Fence_ok" using 2 by (simp add: emit_admitted_def Some Let_def)
        ultimately show ?thesis
          using kept_emit_admitted[OF assms(1), of v key' e'] True 2(2) by (simp add: backed_def)
      next
        case False
        have "staged_at (snd ?out) key c row"
          using retire_others[OF assms(1) reserved_handles[OF assms(1) R] staged _ row(1), of v] 2 push False
          by (simp add: emit_admitted_def Some Let_def)
        then show ?thesis using row(2) by (auto simp: backed_def)
      qed
    qed (use assms in simp)
  qed
qed

lemma backed_emit:
  assumes "wf_sink s" and "backed v s key c e"
  shows "backed v (snd (emit v f seq e' s)) key c e"
proof -
  obtain a l where f: "fence_outcome (sk_fence s) f = (a, l)" by (rule prod.exhaust)
  have l: "wf_sink (s\<lparr>sk_fence := l\<rparr>)" "backed v (s\<lparr>sk_fence := l\<rparr>) key c e"
    using assms by (simp_all add: backed_def)
  show ?thesis
    using backed_emit_admitted[OF l, of "(fn_run_id f, seq)" e'] l(2) by (cases a) (simp_all add: emit_def f)
qed

text \<open>Staging adds a stage at most, and a staging that is answered ok is backed.\<close>

lemma stage_admitted_grows:
  assumes "wf_sink s" and "staged_at s k d row"
  shows "staged_at (snd (stage_admitted v key c e s)) k d row"
proof -
  obtain new s1 where push: "push_row (fst key) e (Some c) s = (new, s1)" by (rule prod.exhaust)
  have res: "sk_reserved s1 = sk_reserved s" using rows_push[OF push] by simp
  show ?thesis
  proof (cases "durableCanonical v s key")
    case None
    show ?thesis
    proof (cases "liveReservation v s key")
      case live: None
      have "k \<noteq> key" using assms(2) free_identity(1)[OF assms(1) None live] by (auto simp: staged_at_def)
      then show ?thesis
        using assms(2) res by (simp add: stage_admitted_def None live push staged_at_def)
    next
      case (Some R)
      then have "sk_reserved s key = Some R" using live_iff[OF assms(1)] by blast
      then show ?thesis
        using assms(2) res
        by (auto simp: stage_admitted_def None Some push staged_at_def split: option.split)
    qed
  qed (use assms in \<open>simp add: stage_admitted_def\<close>)
qed

lemma backed_stage:
  assumes "wf_sink s" and "backed v s k d b"
  shows "backed v (snd (stageEmit v f c e s)) k d b"
proof -
  obtain a l where f: "fence_refuse (sk_fence s) f = (a, l)" by (rule prod.exhaust)
  let ?s = "s\<lparr>sk_fence := l\<rparr>"
  have l: "wf_sink ?s" "backed v ?s k d b" using assms by (simp_all add: backed_def)
  have "backed v (snd (stage_admitted v (fn_run_id f, ev_sequence e) c e ?s)) k d b"
    using l(2) stage_admitted_grows[OF l(1), of k d _ v "(fn_run_id f, ev_sequence e)" c e]
      kept_stage_admitted[OF l(1), of e "(fn_run_id f, ev_sequence e)" v c]
    unfolding backed_def sink_kept_def by fastforce
  then show ?thesis using l(2) by (cases a) (simp_all add: stageEmit_def f)
qed

lemma staged_is_backed:
  assumes "wf_sink s" and "fst (stageEmit v f c e s) = Staged h"
  shows "backed v (snd (stageEmit v f c e s)) (fn_run_id f, ev_sequence e) c e"
proof -
  obtain a l where f: "fence_refuse (sk_fence s) f = (a, l)" by (rule prod.exhaust)
  let ?s = "s\<lparr>sk_fence := l\<rparr>" and ?key = "(fn_run_id f, ev_sequence e)"
  have a: "a = None" using assms(2) by (cases a) (simp_all add: stageEmit_def f)
  have wf: "wf_sink ?s" using assms(1) by simp
  have out: "stageEmit v f c e s = stage_admitted v ?key c e ?s" by (simp add: stageEmit_def f a)
  obtain row s1 where push: "push_row (fn_run_id f) e (Some c) ?s = (row, s1)" by (rule prod.exhaust)
  have row: "se_event row = e" using rows_push[OF push] by simp
  show ?thesis
  proof (cases "durableCanonical v ?s ?key")
    case (Some d)
    then show ?thesis using assms(2) unfolding out by (auto simp: stage_admitted_def backed_def split: if_splits)
  next
    case None
    show ?thesis
    proof (cases "liveReservation v ?s ?key")
      case live: None
      then show ?thesis unfolding out using row
        by (simp add: stage_admitted_def None push backed_def staged_at_def del: fence_field)
    next
      case (Some R)
      then have R: "sk_reserved ?s ?key = Some R" using live_iff[OF wf] by blast
      have canon: "rs_canonical R = e"
        using assms(2) unfolding out by (simp add: stage_admitted_def None Some split: if_splits del: fence_field)
      show ?thesis
      proof (cases "map_of (rs_stages R) c")
        case none: None
        then show ?thesis unfolding out using row
          by (auto simp add: stage_admitted_def None Some canon push backed_def staged_at_def simp del: fence_field)
      next
        case own: (Some row')
        have "(c, row') \<in> set (rs_stages R)" using own by (rule map_of_SomeD)
        then have "staged_at ?s ?key c row'" "se_event row' = e"
          using R wf_sinkD(3)[OF wf R] canon by (auto simp: staged_at_def wf_reservation_def)
        then show ?thesis unfolding out
          by (auto simp add: stage_admitted_def None Some canon own backed_def simp del: fence_field fence_rows)
      qed
    qed
  qed
qed

section \<open>Runs of the sink\<close>

text \<open>
  What happens at a sink: emissions and stagings under any fence, abandonment through a
  handle that was issued, publication of any commit. A state is the ledger of published
  commits, the sink, and the handles issued so far.
\<close>

datatype sink_action =
    Emit RunFence int SinkEvent
  | Stage RunFence string SinkEvent
  | Abandon stage_handle
  | Publish string

type_synonym sink_state = "CommitLedger \<times> EventSink \<times> stage_handle list"

fun sink_do :: "sink_action \<Rightarrow> sink_state \<Rightarrow> sink_state" where
  "sink_do (Emit f seq e) (v, s, hs) = (v, snd (emit v f seq e s), hs)"
| "sink_do (Stage f c e) (v, s, hs) =
     (case stageEmit v f c e s of
        (Staged h, s') \<Rightarrow> (v, s', h # hs)
      | (Stage_refused _ _, s') \<Rightarrow> (v, s', hs))"
| "sink_do (Abandon h) (v, s, hs) = (v, if h \<in> set hs then abandon_event v h s else s, hs)"
| "sink_do (Publish c) (v, s, hs) = (publish v c, s, hs)"

definition sink_run :: "sink_action list \<Rightarrow> sink_state \<Rightarrow> sink_state" where
  "sink_run = fold sink_do"

abbreviation new_sink_state :: sink_state where
  "new_sink_state \<equiv> ([], new_sink, [])"

definition durable_in :: "sink_state \<Rightarrow> event_key \<Rightarrow> SinkEvent option" where
  "durable_in st = durableCanonical (fst st) (fst (snd st))"

definition backed_in :: "sink_state \<Rightarrow> event_key \<Rightarrow> string \<Rightarrow> SinkEvent \<Rightarrow> bool" where
  "backed_in st = backed (fst st) (fst (snd st))"

definition sink_inv :: "sink_state \<Rightarrow> bool" where
  "sink_inv = (\<lambda>(v, s, hs). wf_sink s \<and> (\<forall>h \<in> set hs. handle_ok s h))"

text \<open>The actions that give up a commit's own stage.\<close>

fun gives_up :: "string \<Rightarrow> sink_action \<Rightarrow> bool" where
  "gives_up c (Abandon (Stage_of _ d _)) \<longleftrightarrow> d = c"
| "gives_up c _ \<longleftrightarrow> False"

lemma sink_do_kept:
  assumes "sink_inv st"
  shows "sink_inv (sink_do a st)"
    "durable_in st k = Some e \<Longrightarrow> durable_in (sink_do a st) k = Some e"
    "backed_in st k c e \<Longrightarrow> \<not> gives_up c a \<Longrightarrow> backed_in (sink_do a st) k c e"
proof -
  obtain v s hs where st: "st = (v, s, hs)" by (rule prod_cases3)
  have wf: "wf_sink s" "\<forall>h \<in> set hs. handle_ok s h" using assms by (auto simp: sink_inv_def st)
  have "sink_inv (sink_do a st) \<and>
    (durable_in st k = Some e \<longrightarrow> durable_in (sink_do a st) k = Some e) \<and>
    (backed_in st k c e \<longrightarrow> \<not> gives_up c a \<longrightarrow> backed_in (sink_do a st) k c e)"
  proof (cases a)
    case (Emit f seq d)
    then show ?thesis
      using kept_emit[OF wf(1), of v f seq d] wf backed_emit[OF wf(1), of v k c e f seq d]
      by (auto simp: sink_inv_def sink_kept_def st durable_in_def backed_in_def)
  next
    case (Stage f d d')
    obtain ans s' where out: "stageEmit v f d d' s = (ans, s')" by (rule prod.exhaust)
    then show ?thesis
      using kept_stage[OF wf(1), of v f d d'] wf backed_stage[OF wf(1), of v k c e f d d'] Stage
      by (cases ans) (auto simp: sink_inv_def sink_kept_def st durable_in_def backed_in_def)
  next
    case (Abandon h)
    show ?thesis
    proof (cases "h \<in> set hs")
      case True
      have "\<forall>key' row. h \<noteq> Stage_of key' c row" if "\<not> gives_up c a"
        using that Abandon by auto
      then show ?thesis
        using kept_abandon[OF wf(1), of h v] wf backed_abandon[OF wf(1), of h c v k e] Abandon True
        by (auto simp: sink_inv_def sink_kept_def st durable_in_def backed_in_def)
    next
      case False
      then show ?thesis using wf Abandon by (simp add: sink_inv_def st durable_in_def backed_in_def)
    qed
  next
    case (Publish d)
    have "backed (publish v d) s k c e" if "backed v s k c e"
      using that durable_publish[OF wf(1), of v k e d] by (auto simp: backed_def)
    then show ?thesis
      using durable_publish[OF wf(1), of v k e d] wf Publish
      by (auto simp: sink_inv_def st durable_in_def backed_in_def)
  qed
  then show "sink_inv (sink_do a st)"
    "durable_in st k = Some e \<Longrightarrow> durable_in (sink_do a st) k = Some e"
    "backed_in st k c e \<Longrightarrow> \<not> gives_up c a \<Longrightarrow> backed_in (sink_do a st) k c e"
    by blast+
qed

lemma sink_run_kept:
  assumes "sink_inv st"
  shows "sink_inv (sink_run as st)"
    "durable_in st k = Some e \<Longrightarrow> durable_in (sink_run as st) k = Some e"
    "backed_in st k c e \<Longrightarrow> list_all (\<lambda>a. \<not> gives_up c a) as \<Longrightarrow> backed_in (sink_run as st) k c e"
  using assms by (induction as arbitrary: st) (auto simp: sink_run_def sink_do_kept)

lemma sink_inv_new [simp]: "sink_inv new_sink_state"
  by (simp add: sink_inv_def)

section \<open>Properties\<close>

text \<open>
  C21: An event whose emission was acknowledged is permanent. After any further run of the
  sink, emitting the same event under the same identity is acknowledged again and stores
  nothing, and emitting a different event under it is refused as a conflicting replay and
  stores nothing either.
\<close>

theorem acknowledged_event_is_permanent:
  assumes "sink_run as new_sink_state = (v, s, hs)"
    and "emit v f seq e s = (Fence_ok, s1)"
    and "sink_run bs (v, s1, hs) = (v', s', hs')"
    and "fence_outcome (sk_fence s') g = (Fence_ok, l)" and "fn_run_id g = fn_run_id f"
  shows "emit v' g seq e' s' =
    (if e' = e then Fence_ok
     else sink_conflict (fn_run_id f, seq) '' already carries a different event'',
     s'\<lparr>sk_fence := l\<rparr>)"
proof -
  have "sink_inv (v, s, hs)" using sink_run_kept(1)[OF sink_inv_new, of as] assms(1) by simp
  then have wf: "wf_sink s" "\<forall>h \<in> set hs. handle_ok s h" by (auto simp: sink_inv_def)
  have "durableCanonical v s1 (fn_run_id f, seq) = Some e" "sink_inv (v, s1, hs)"
    using kept_emit[OF wf(1), of v f seq e] assms(2) wf(2) by (auto simp: sink_inv_def sink_kept_def)
  then have "durableCanonical v' s' (fn_run_id f, seq) = Some e"
    using sink_run_kept(2)[of "(v, s1, hs)" "(fn_run_id f, seq)" e bs] assms(3)
    by (simp add: durable_in_def)
  then show ?thesis using assms(4,5) by (auto simp: emit_def emit_admitted_def)
qed

definition sample_event :: SinkEvent where
  "sample_event = \<lparr>ev_sequence = 3, ev_type = ''run.completed'', ev_payload = []\<rparr>"

definition sample_fence :: RunFence where
  "sample_fence = \<lparr>fn_run_id = ''r'', fn_generation = 1\<rparr>"

lemmas sample_sink_simps =
  sink_run_def new_sink_def emit_def emit_admitted_def stageEmit_def stage_admitted_def
  fence_outcome_def fence_refuse_def durableCanonical_def liveReservation_def rows_of_def
  push_row_def Let_def sample_event_def sample_fence_def row_visible_def isVisible_def
  isPublished_def publish_def eventsOf_def List.insert_def

lemma acknowledged_event_is_permanent_witness:
  "\<exists>v' s' hs' l. sink_run [Publish ''c''] ([], snd (emit [] sample_fence 3 sample_event new_sink), []) =
      (v', s', hs') \<and>
    emit v' sample_fence 3 sample_event s' = (Fence_ok, s'\<lparr>sk_fence := l\<rparr>)"
proof -
  obtain v' s' hs' where run:
    "sink_run [Publish ''c''] ([], snd (emit [] sample_fence 3 sample_event new_sink), []) = (v', s', hs')"
    by (rule prod_cases3)
  obtain l where l: "fence_outcome (sk_fence s') sample_fence = (Fence_ok, l)"
    using run by (auto simp: sample_sink_simps)
  have "emit v' sample_fence 3 sample_event s' = (Fence_ok, s'\<lparr>sk_fence := l\<rparr>)"
    using acknowledged_event_is_permanent[of "[]" "[]" new_sink "[]" sample_fence 3 sample_event
        "snd (emit [] sample_fence 3 sample_event new_sink)" "[Publish ''c'']" v' s' hs' sample_fence l
        sample_event] run l
    by (simp add: sample_sink_simps)
  then show ?thesis using run by blast
qed

text \<open>
  Staging a terminal event shows nothing: readers of every run see what they saw
  before. And the staged event cannot be lost: whatever others emit, stage, abandon or publish
  in between, once its commit publishes, and its owner has not given the stage up, the event
  is durable under its identity.
\<close>

theorem staged_event_lands_with_its_commit:
  assumes "sink_run as new_sink_state = (v, s, hs)"
    and "stageEmit v f c e s = (Staged h, s1)" and "\<not> isPublished v c"
    and "sink_run bs (v, s1, h # hs) = (v', s', hs')"
    and "list_all (\<lambda>a. \<not> gives_up c a) bs"
  shows "eventsOf v s1 run = eventsOf v s run \<and>
    durableCanonical (publish v' c) s' (fn_run_id f, ev_sequence e) = Some e"
proof -
  have "sink_inv (v, s, hs)" using sink_run_kept(1)[OF sink_inv_new, of as] assms(1) by simp
  then have wf: "wf_sink s" "\<forall>h \<in> set hs. handle_ok s h" by (auto simp: sink_inv_def)
  have b: "backed_in (v, s1, h # hs) (fn_run_id f, ev_sequence e) c e" "sink_inv (v, s1, h # hs)"
    using kept_stage[OF wf(1), of v f c e] staged_is_backed[OF wf(1), of v f c e h] assms(2) wf(2)
    by (auto simp: sink_inv_def sink_kept_def backed_in_def)
  have "backed v' s' (fn_run_id f, ev_sequence e) c e" "wf_sink s'"
    using sink_run_kept(3)[OF b(2,1) assms(5)] sink_run_kept(1)[OF b(2), of bs] assms(4)
    by (auto simp: backed_in_def sink_inv_def)
  then have "durableCanonical (publish v' c) s' (fn_run_id f, ev_sequence e) = Some e"
    by (rule backed_publish[rotated])
  moreover have "eventsOf v s1 run = eventsOf v s run"
  proof -
    obtain a l where f: "fence_refuse (sk_fence s) f = (a, l)" by (rule prod.exhaust)
    have "row_visible v row = False" if "se_commit row = Some c" for row
      using that assms(3) by (simp add: row_visible_def isVisible_def)
    then show ?thesis
      using assms(2)
      by (cases a)
        (auto simp: stageEmit_def f stage_admitted_def eventsOf_def push_row_def Let_def rows_of_def
          split: option.splits if_splits)
  qed
  ultimately show ?thesis by blast
qed

lemma staged_event_lands_with_its_commit_witness:
  "\<exists>h s1 v' s' hs'. stageEmit [] sample_fence ''c1'' sample_event new_sink = (Staged h, s1) \<and>
     sink_run [Stage sample_fence ''c2'' sample_event, Emit sample_fence 3 sample_event]
       ([], s1, [h]) = (v', s', hs') \<and>
     durableCanonical (publish v' ''c1'') s' (''r'', 3) = Some sample_event"
proof -
  obtain h s1 where st: "stageEmit [] sample_fence ''c1'' sample_event new_sink = (Staged h, s1)"
    by (simp add: sample_sink_simps)
  obtain v' s' hs' where run: "sink_run [Stage sample_fence ''c2'' sample_event,
      Emit sample_fence 3 sample_event] ([], s1, [h]) = (v', s', hs')"
    by (rule prod_cases3)
  have "durableCanonical (publish v' ''c1'') s' (''r'', 3) = Some sample_event"
    using staged_event_lands_with_its_commit[of "[]" "[]" new_sink "[]" sample_fence "''c1''"
        sample_event h s1, OF _ st _ run]
    by (simp add: sink_run_def isPublished_def) (simp add: sample_fence_def sample_event_def)
  then show ?thesis using st run by blast
qed

text \<open>
  Two transactions that stage the same terminal event and both publish make it visible
  twice in the stream of the run, where the comment of the state machine promises that
  publication makes exactly one event visible.
\<close>

theorem two_publications_show_the_event_twice:
  "(let (_, s1) = stageEmit [] sample_fence ''c1'' sample_event new_sink;
        (_, s2) = stageEmit [] sample_fence ''c2'' sample_event s1
    in eventsOf (publish (publish [] ''c1'') ''c2'') s2 ''r'') = [sample_event, sample_event]"
  by (simp add: sample_sink_simps)

end
