(* ===== verification/Outcome.thy ===== *)
theory Outcome
  imports Contracts
begin

text \<open>
  Outcome classification of the trusted core: \<^verbatim>\<open>outcome/terminal.ts\<close> (do the provider's
  terminal observations contradict one another) and \<^verbatim>\<open>evidence/classify.ts\<close> (the outcome a
  failure to establish evidence has).
\<close>

section \<open>Terminal observations\<close>

record TerminalObservationInput =
  to_exit_code :: "js_number option"
  to_reported_outcome :: "string option"
  to_transcript_terminal :: "string option"
  to_signalled :: "string option"

datatype TerminalConflict =
  clean_exit_with_signal | success_claim_with_failure_exit | transcript_contradicts_exit

datatype TerminalClassification = Established | Conflicting TerminalConflict string

definition classifyTerminalObservations :: "TerminalObservationInput \<Rightarrow> TerminalClassification" where
  "classifyTerminalObservations obs =
     (let clean = to_exit_code obs = Some (Num 0);
          exit_text = (case to_exit_code obs of Some code \<Rightarrow> js_string code | None \<Rightarrow> ''undefined'') in
      if clean \<and> to_signalled obs \<noteq> None then
        Conflicting clean_exit_with_signal
          (template [''the provider reported exit '', exit_text, '' but was signalled '',
             the (to_signalled obs), ''; the terminal state cannot be established''])
      else if to_exit_code obs \<noteq> None \<and> \<not> clean \<and> to_reported_outcome obs = Some ''success'' then
        Conflicting success_claim_with_failure_exit
          (template [''the provider reported success but exited '', exit_text,
             ''; the terminal state cannot be established''])
      else if to_transcript_terminal obs \<noteq> None \<and> clean \<and>
        to_transcript_terminal obs \<noteq> Some ''success'' then
        Conflicting transcript_contradicts_exit
          (template [''the provider reported exit '', exit_text,
             '' but its transcript terminated '', the (to_transcript_terminal obs),
             ''; the terminal state cannot be established''])
      else Established)"

text \<open>
  The specification, from the pairs of observations: a clean exit contradicts a signal and a
  transcript that did not end in success; a failing exit contradicts a success claim.
\<close>

definition contradicts :: "TerminalObservationInput \<Rightarrow> TerminalConflict \<Rightarrow> bool" where
  "contradicts obs c \<longleftrightarrow>
     (case c of
        clean_exit_with_signal \<Rightarrow>
          to_exit_code obs = Some (Num 0) \<and> to_signalled obs \<noteq> None
      | success_claim_with_failure_exit \<Rightarrow>
          (\<exists>code. to_exit_code obs = Some code \<and> code \<noteq> Num 0) \<and>
          to_reported_outcome obs = Some ''success''
      | transcript_contradicts_exit \<Rightarrow>
          to_exit_code obs = Some (Num 0) \<and>
          (\<exists>t. to_transcript_terminal obs = Some t \<and> t \<noteq> ''success''))"

text \<open>
  Terminal observations are established exactly when the code finds no two of them in conflict; a
  reported conflict is one it has.
\<close>

theorem terminal_observations_exact:
  "(classifyTerminalObservations obs = Established \<longleftrightarrow> \<not> (\<exists>c. contradicts obs c)) \<and>
   (case classifyTerminalObservations obs of Established \<Rightarrow> True | Conflicting c detail \<Rightarrow> contradicts obs c)"
proof -
  have ex: "(\<exists>c. contradicts obs c) \<longleftrightarrow>
      contradicts obs clean_exit_with_signal \<or> contradicts obs success_claim_with_failure_exit \<or>
      contradicts obs transcript_contradicts_exit"
    by (metis TerminalConflict.exhaust)
  show ?thesis unfolding ex
    by (cases "to_exit_code obs"; cases "to_transcript_terminal obs")
      (auto simp: classifyTerminalObservations_def contradicts_def Let_def)
qed

text \<open>
  The conflict of a transcript is wider than a disagreement: every terminal but the literal
  \<^verbatim>\<open>success\<close> counts, and the coding adapters report the name of a frame there. A clean run of
  theirs is classified as contradictory.
\<close>

theorem clean_result_frame_is_contradictory:
  assumes "to_exit_code obs = Some (Num 0)" and "to_signalled obs = None"
    and "to_transcript_terminal obs = Some frame" and "frame \<in> {''result'', ''session.result''}"
  shows "\<exists>detail. classifyTerminalObservations obs = Conflicting transcript_contradicts_exit detail"
  using assms by (auto simp: classifyTerminalObservations_def Let_def)

section \<open>The outcome of a failure\<close>

definition refusal_code_text :: "RefusalCode \<Rightarrow> string" where
  "refusal_code_text code =
     (case code of
        missing_authority \<Rightarrow> ''missing_authority''
      | invalid_authority \<Rightarrow> ''invalid_authority''
      | contract_mismatch \<Rightarrow> ''contract_mismatch''
      | undecidable \<Rightarrow> ''undecidable''
      | undeclared_gate \<Rightarrow> ''undeclared_gate''
      | duplicate_gate \<Rightarrow> ''duplicate_gate''
      | base_identity_mismatch \<Rightarrow> ''base_identity_mismatch''
      | path_outside_roots \<Rightarrow> ''path_outside_roots''
      | protected_path \<Rightarrow> ''protected_path''
      | path_undecidable \<Rightarrow> ''path_undecidable''
      | over_bound \<Rightarrow> ''over_bound''
      | unrecognized_rule \<Rightarrow> ''unrecognized_rule''
      | claim_parse \<Rightarrow> ''claim_parse''
      | incomplete_evidence \<Rightarrow> ''incomplete_evidence''
      | inconsistent_evidence \<Rightarrow> ''inconsistent_evidence''
      | seal_prerequisite \<Rightarrow> ''seal_prerequisite''
      | consumption_digest_mismatch \<Rightarrow> ''consumption_digest_mismatch''
      | Foreign_code s \<Rightarrow> s)"

text \<open>
  A failure: a refusal, or (on the right) an operational failure with source and detail. A
  refusal without a violated element (one passed through from an untyped caller) makes the
  code read a member of \<^verbatim>\<open>undefined\<close>.
\<close>

fun classifyEvidenceFailure :: "Refusal + string \<times> string \<Rightarrow> RunOutcome js" where
  "classifyEvidenceFailure (Inl r) =
     (case rf_violated r of
        None \<Rightarrow> Threw
      | Some v \<Rightarrow>
          Returned (RefusedOutcome
            (template [refusal_code_text (rf_code r), '': '', v_element v, '' '', em_dash, '' '',
               rf_detail r])))"
| "classifyEvidenceFailure (Inr (source, detail)) =
     Returned (OperationalFailureOutcome (template [source, '': '', detail]))"

definition indeterminateOutcome :: "string \<Rightarrow> RunOutcome" where
  "indeterminateOutcome detail = IndeterminateOutcome detail"

text \<open>
  No failure to establish evidence is classified as a success: a refusal the core
  itself made becomes \<open>REFUSED\<close>, a reported fault \<open>OPERATIONAL_FAILURE\<close>, and what cannot be
  established \<open>INDETERMINATE\<close>, each with a detail that validates.
\<close>

theorem evidence_failure_is_never_success:
  "classifyEvidenceFailure (Inl (refusal code v d)) =
     Returned (RefusedOutcome (template [refusal_code_text code, '': '', v_element v, '' '', em_dash, '' '', d])) \<and>
   (classifyEvidenceFailure failure = Returned out \<longrightarrow>
      \<not> TERMINAL_SUCCESS (terminal_state out) \<and> valid_RunOutcome out) \<and>
   \<not> TERMINAL_SUCCESS (terminal_state (indeterminateOutcome d))"
proof -
  have ne: "nonempty (a @ CHR '':'' # b)" for a b by (cases a) auto
  have "\<not> TERMINAL_SUCCESS (terminal_state out) \<and> valid_RunOutcome out"
    if "classifyEvidenceFailure failure = Returned out"
    using that
    by (cases failure rule: classifyEvidenceFailure.cases)
      (auto simp: valid_RunOutcome_def template_def ne split: option.splits)
  then show ?thesis by (auto simp: refusal_def indeterminateOutcome_def)
qed

lemma evidence_failure_is_never_success_witness:
  "valid_RunOutcome (OperationalFailureOutcome ''journal: unreachable'')"
  using evidence_failure_is_never_success[of undecidable "element ''x''" "''y''"
      "Inr (''journal'', ''unreachable'')" "OperationalFailureOutcome ''journal: unreachable''"]
  by (simp add: template_def)

text \<open>
  A refusal passed through from an untyped caller without its violated element survives
  the coercion that checks the shape of refusals, and classifying it throws instead of giving
  an outcome.
\<close>

theorem coerced_refusal_can_throw:
  "classifyEvidenceFailure
     (Inl (coerceRefusal (Object_with (Some ''refusal'') (Some undecidable) (Some ''why'') None) ''profile'')) =
   Threw"
  by simp

end
