(* ===== verification/Evidence.thy ===== *)
theory Evidence
  imports Outcome
begin

text \<open>
  Evidence construction and the seal decision: \<^verbatim>\<open>evidence/construct.ts\<close> and
  \<^verbatim>\<open>evidence/seal.ts\<close>. Parameters: SHA-256, the schema library's date-time test \<open>datetime\<close> and
  its reports \<open>report\<close>.
\<close>

section \<open>Inputs\<close>

record EvidenceSnapshots =
  en_profile :: "ExecutionProfile CapturedAuthority option"
  en_path_policy :: "PathPolicy CapturedAuthority option"
  en_gate_registry :: "GateRegistry CapturedAuthority option"

record EvidenceRun =
  er_run_id :: string
  er_image_digest :: string
  er_argv_digest :: string
  er_runtime :: string
  er_provider :: string
  er_adapter :: string

record EvidenceInputs =
  in_snapshots :: EvidenceSnapshots
  in_run :: EvidenceRun
  in_principal :: Principal
  in_operations :: EvidenceOperations
  in_gate_results :: GateResults
  in_artifacts :: ArtifactObservation
  in_observed :: "ObservedChange list"
  in_reconciliation :: Reconciliation
  in_outcome :: RunOutcome
  in_timing :: EvidenceTiming

section \<open>Construction\<close>

text \<open>The captured value of a required snapshot, or the refusal.\<close>

definition require_captured :: "string \<Rightarrow> 'd CapturedAuthority option \<Rightarrow> Refusal + 'd Captured" where
  "require_captured name snapshot =
     (case snapshot of
        None \<Rightarrow>
          Inl (refusal missing_authority (element name)
            (template [''evidence construction requires the captured '', name,
               ''; no partial bundle is returned'']))
      | Some (Captured_refused source r) \<Rightarrow> Inl r
      | Some (Captured_ok c) \<Rightarrow> Inr c)"

text \<open>The artifact entries, or the first path that cannot be normalized.\<close>

fun artifact_entries :: "(string \<Rightarrow> string) \<Rightarrow> ObservedArtifact list \<Rightarrow> (string \<times> string) + ArtifactEntry list" where
  "artifact_entries sha256 [] = Inr []"
| "artifact_entries sha256 (a # as) =
     (case normalizePath (oa_path a) of
        Path_bad reason \<Rightarrow> Inl (oa_path a, reason)
      | Path_ok n \<Rightarrow>
          (case artifact_entries sha256 as of
             Inl bad \<Rightarrow> Inl bad
           | Inr es \<Rightarrow>
               Inr (\<lparr>ae_path = n, ae_digest = digestOf sha256 (oa_content a),
                     ae_bytes = length (oa_content a)\<rparr> # es)))"

definition observed_change_entry :: "ObservedChange \<Rightarrow> ClaimedChange" where
  "observed_change_entry c = \<lparr>cl_path = oc_path c, cl_kind = oc_kind c\<rparr>"

definition assemble_bundle ::
  "ExecutionProfile Captured \<Rightarrow> PathPolicy Captured \<Rightarrow> GateRegistry Captured \<Rightarrow> ArtifactEntry list \<Rightarrow>
   EvidenceInputs \<Rightarrow> EvidenceBundle" where
  "assemble_bundle profile path_policy gate_registry artifacts inputs =
     \<lparr>eb_contract_id = ''evidence-bundle'',
      eb_contract_version = ''2.0.0'',
      eb_identities =
        \<lparr>ei_run_id = er_run_id (in_run inputs),
         ei_profile =
           \<lparr>pi_name = prf_name (ep_identity (cd_body (cp_value profile))),
            pi_version = prf_version (ep_identity (cd_body (cp_value profile))),
            pi_digest = cp_digest profile\<rparr>,
         ei_image_digest = er_image_digest (in_run inputs),
         ei_argv_digest = er_argv_digest (in_run inputs),
         ei_path_policy = cp_contract path_policy,
         ei_gate_registry = cp_contract gate_registry,
         ei_runtime = er_runtime (in_run inputs),
         ei_provider = er_provider (in_run inputs),
         ei_adapter = er_adapter (in_run inputs)\<rparr>,
      eb_principal = in_principal inputs,
      eb_granted_capabilities = ep_capability (cd_body (cp_value profile)),
      eb_operations = in_operations inputs,
      eb_gate_results = in_gate_results inputs,
      eb_artifacts = canonicalSort ae_path artifacts,
      eb_change_sets =
        \<lparr>cs_observed = map observed_change_entry (in_observed inputs),
         cs_claimed = rc_claimed (in_reconciliation inputs),
         cs_agreement = rc_agreement (in_reconciliation inputs),
         cs_disagreements = rc_disagreements (in_reconciliation inputs)\<rparr>,
      eb_outcome = in_outcome inputs,
      eb_timing = in_timing inputs\<rparr>"

text \<open>The decision once the three authorities are captured and the artifacts were observed.\<close>

definition construct_captured ::
  "(string \<Rightarrow> string) \<Rightarrow> (string \<Rightarrow> bool) \<Rightarrow> (EvidenceBundle \<Rightarrow> Issue list) \<Rightarrow>
   ExecutionProfile Captured \<Rightarrow> PathPolicy Captured \<Rightarrow> GateRegistry Captured \<Rightarrow>
   ObservedArtifact list \<Rightarrow> EvidenceInputs \<Rightarrow> EvidenceBundle Decision" where
  "construct_captured sha256 datetime report profile path_policy gate_registry artifacts inputs =
     (let assembled =
        (case artifact_entries sha256 artifacts of
           Inl (path, reason) \<Rightarrow>
             refuse path_undecidable (element path)
               (template [''artifact path cannot be normalized: '', reason])
         | Inr entries \<Rightarrow>
             (case parse_EvidenceBundle datetime report
                (assemble_bundle profile path_policy gate_registry entries inputs) of
                Schema_issues issues \<Rightarrow>
                  refuse incomplete_evidence (element ''evidence-bundle'')
                    (template [''constructed evidence fails its own contract: '', issues_text issues,
                       '' '', em_dash, '' no partial bundle is returned''])
              | Schema_ok bundle \<Rightarrow> proceed bundle)) in
      if TERMINAL_SUCCESS (terminal_state (in_outcome inputs)) then
        (case decideMaterialization (as_supplied (Captured_ok path_policy)) (Some (in_observed inputs))
            [cp_source profile, cp_source path_policy, cp_source gate_registry] of
           Refused r \<Rightarrow> Refused r
         | Proceed _ \<Rightarrow> assembled)
      else assembled)"

definition constructEvidence ::
  "(string \<Rightarrow> string) \<Rightarrow> (string \<Rightarrow> bool) \<Rightarrow> (EvidenceBundle \<Rightarrow> Issue list) \<Rightarrow> EvidenceInputs \<Rightarrow>
   EvidenceBundle ObservedDecision" where
  "constructEvidence sha256 datetime report inputs =
     (case require_captured ''execution-profile'' (en_profile (in_snapshots inputs)) of
        Inl r \<Rightarrow> Decided (Refused r)
      | Inr profile \<Rightarrow>
          (case require_captured ''path-policy'' (en_path_policy (in_snapshots inputs)) of
             Inl r \<Rightarrow> Decided (Refused r)
           | Inr path_policy \<Rightarrow>
               (case require_captured ''gate-registry'' (en_gate_registry (in_snapshots inputs)) of
                  Inl r \<Rightarrow> Decided (Refused r)
                | Inr gate_registry \<Rightarrow>
                    (case in_artifacts inputs of
                       Artifacts_failed failure \<Rightarrow>
                         operationalFailure ''artifact surface''
                           (template [''observation reported failed: '', failure, '' '', em_dash,
                              '' evidence cannot claim an artifact set it could not observe''])
                     | Observed_artifacts artifacts \<Rightarrow>
                         Decided (construct_captured sha256 datetime report profile path_policy
                           gate_registry artifacts inputs)))))"

section \<open>The seal decision\<close>

text \<open>
  The bundle handed to the seal is untyped: absent, a value of the bundle's shape, or a value
  the schema rejects outright. Outcomes are compared by their JSON texts, which the core
  prints with the members in one order, so the texts are equal when the outcomes are.
\<close>

datatype claimed_bundle = No_bundle | Bundle EvidenceBundle | Malformed_bundle "Issue list"

fun parse_claimed ::
  "(string \<Rightarrow> bool) \<Rightarrow> (EvidenceBundle \<Rightarrow> Issue list) \<Rightarrow> claimed_bundle \<Rightarrow>
   EvidenceBundle schema_result option" where
  "parse_claimed datetime report No_bundle = None"
| "parse_claimed datetime report (Bundle b) = Some (parse_EvidenceBundle datetime report b)"
| "parse_claimed datetime report (Malformed_bundle issues) = Some (Schema_issues issues)"

definition PREREQUISITES :: "string list" where
  "PREREQUISITES = [''evidence_bundle'', ''terminal_outcome'', ''outcome_consistency'']"

record SealEligible =
  se_prerequisites_checked :: "string list"
  se_bundle :: EvidenceBundle

definition decideSealEligibility ::
  "(string \<Rightarrow> bool) \<Rightarrow> (EvidenceBundle \<Rightarrow> Issue list) \<Rightarrow> claimed_bundle \<Rightarrow> RunOutcome option \<Rightarrow>
   SealEligible Decision" where
  "decideSealEligibility datetime report bundle run_outcome =
     (case parse_claimed datetime report bundle of
        None \<Rightarrow>
          refuse seal_prerequisite (element ''evidence_bundle'')
            (template [''the evidence bundle prerequisite is undecided '', em_dash, '' nothing to seal''])
      | Some (Schema_issues _) \<Rightarrow>
          refuse seal_prerequisite (element ''evidence_bundle'')
            ''the evidence bundle fails contract validation; an invalid bundle is never seal-eligible''
      | Some (Schema_ok b) \<Rightarrow>
          (case run_outcome of
             None \<Rightarrow>
               refuse seal_prerequisite (element ''terminal_outcome'')
                 ''the terminal outcome prerequisite is undecided''
           | Some out \<Rightarrow>
               if eb_outcome b \<noteq> out then
                 refuse inconsistent_evidence
                   (element_observed ''outcome_consistency'' (terminal_text (terminal_state out)))
                   (template [''the bundle records terminal state '',
                      quoted (terminal_text (terminal_state (eb_outcome b))),
                      '' but the run outcome is '', quoted (terminal_text (terminal_state out)),
                      '' '', em_dash, '' irreconcilable''])
               else proceed \<lparr>se_prerequisites_checked = PREREQUISITES, se_bundle = b\<rparr>))"

section \<open>What construction decides\<close>

lemma require_captured_Inr [simp]:
  "require_captured name s = Inr c \<longleftrightarrow> s = Some (Captured_ok c)"
  by (auto simp: require_captured_def split: option.splits CapturedAuthority.splits)

definition artifact_entry :: "(string \<Rightarrow> string) \<Rightarrow> ObservedArtifact \<Rightarrow> ArtifactEntry" where
  "artifact_entry sha256 a =
     \<lparr>ae_path = normal_path (oa_path a), ae_digest = digestOf sha256 (oa_content a),
      ae_bytes = length (oa_content a)\<rparr>"

lemma artifact_entries_Inr:
  "artifact_entries sha256 as = Inr es \<longleftrightarrow>
   (\<forall>a \<in> set as. normalizable (oa_path a)) \<and> es = map (artifact_entry sha256) as"
proof (induction as arbitrary: es)
  case (Cons a as)
  show ?case
  proof (cases "normalizePath (oa_path a)")
    case (Path_ok n)
    then have "normalizable (oa_path a)" "normal_path (oa_path a) = n"
      by (simp_all add: normalizable_def normal_path_def)
    then show ?thesis
      using Cons.IH by (cases "artifact_entries sha256 as") (auto simp: Path_ok artifact_entry_def)
  next
    case (Path_bad r)
    then show ?thesis by (simp add: normalizable_def)
  qed
qed auto

lemma construct_captured_iff:
  "construct_captured sha256 datetime report p q g as inputs = Proceed b \<longleftrightarrow>
   (\<forall>a \<in> set as. normalizable (oa_path a)) \<and>
   b = assemble_bundle p q g (map (artifact_entry sha256) as) inputs \<and>
   valid_EvidenceBundle datetime b \<and>
   (TERMINAL_SUCCESS (terminal_state (in_outcome inputs)) \<longrightarrow>
      proceeds (decideMaterialization (as_supplied (Captured_ok q)) (Some (in_observed inputs))
        [cp_source p, cp_source q, cp_source g]))"
proof -
  let ?mat = "decideMaterialization (as_supplied (Captured_ok q)) (Some (in_observed inputs))
      [cp_source p, cp_source q, cp_source g]"
  have assembled: "(case artifact_entries sha256 as of
        Inl (path, reason) \<Rightarrow> refuse path_undecidable (element path) (f reason)
      | Inr entries \<Rightarrow>
          (case parse_EvidenceBundle datetime report (assemble_bundle p q g entries inputs) of
             Schema_issues issues \<Rightarrow> refuse incomplete_evidence (element ''evidence-bundle'') (h issues)
           | Schema_ok bundle \<Rightarrow> Proceed bundle)) = Proceed b \<longleftrightarrow>
      (\<forall>a \<in> set as. normalizable (oa_path a)) \<and>
      b = assemble_bundle p q g (map (artifact_entry sha256) as) inputs \<and>
      valid_EvidenceBundle datetime b" for f h
  proof (cases "artifact_entries sha256 as")
    case (Inl bad)
    then show ?thesis using artifact_entries_Inr[of sha256 as] by (cases bad) (auto simp: refuse_def)
  next
    case (Inr es)
    then show ?thesis using artifact_entries_Inr[of sha256 as es]
      by (auto simp: refuse_def parse_EvidenceBundle_def)
  qed
  show ?thesis
    unfolding construct_captured_def Let_def proceed_def
    using assembled by (cases ?mat) auto
qed

lemma construct_proceed_iff:
  "constructEvidence sha256 datetime report inputs = Decided (Proceed b) \<longleftrightarrow>
   (\<exists>p q g as. en_profile (in_snapshots inputs) = Some (Captured_ok p) \<and>
      en_path_policy (in_snapshots inputs) = Some (Captured_ok q) \<and>
      en_gate_registry (in_snapshots inputs) = Some (Captured_ok g) \<and>
      in_artifacts inputs = Observed_artifacts as \<and>
      construct_captured sha256 datetime report p q g as inputs = Proceed b)"
proof -
  have inl: "require_captured name s = Inl r \<Longrightarrow> s \<noteq> Some (Captured_ok c)" for name s r and c :: "'d Captured"
    by (auto simp: require_captured_def)
  show ?thesis
    unfolding constructEvidence_def
    by (auto split: sum.splits ArtifactObservation.splits dest: inl)
qed

section \<open>Properties\<close>

text \<open>
  C27: Evidence is constructed exactly when the three authorities were captured, the
  artifact surface was observed with normalizable paths, the assembled bundle validates, and,
  for an outcome that classifies as success, the observed change set is one the captured
  policy materializes. The bundle is then the assembled one, and no partial bundle exists.
\<close>

theorem evidence_exact:
  "constructEvidence sha256 datetime report inputs = Decided (Proceed b) \<longleftrightarrow>
   (\<exists>p q g as.
      en_profile (in_snapshots inputs) = Some (Captured_ok p) \<and>
      en_path_policy (in_snapshots inputs) = Some (Captured_ok q) \<and>
      en_gate_registry (in_snapshots inputs) = Some (Captured_ok g) \<and>
      in_artifacts inputs = Observed_artifacts as \<and> list_all (\<lambda>a. normalizable (oa_path a)) as \<and>
      b = assemble_bundle p q g (map (artifact_entry sha256) as) inputs \<and>
      valid_EvidenceBundle datetime b \<and>
      (if TERMINAL_SUCCESS (terminal_state (in_outcome inputs))
       then proceeds (decideMaterialization (as_supplied (Captured_ok q)) (Some (in_observed inputs))
         [cp_source p, cp_source q, cp_source g])
       else True))"
  unfolding construct_proceed_iff construct_captured_iff list_all_iff if_bool_eq_disj by blast

text \<open>
  C28: The agent's claims reach only the claim fields. Two runs that differ in nothing but
  the reconciliation of the claims have bundles that differ in nothing but the claimed changes
  and the reconciliation: no identity, grant, operation, gate result, artifact, observed change
  or outcome of the evidence depends on a claim.
\<close>

theorem claims_reach_only_claim_fields:
  assumes "constructEvidence sha256 datetime report inputs = Decided (Proceed b)"
    and "constructEvidence sha256 datetime report (inputs\<lparr>in_reconciliation := other\<rparr>) = Decided (Proceed b')"
  shows "b'\<lparr>eb_change_sets := eb_change_sets b\<rparr> = b \<and>
    cs_observed (eb_change_sets b') = cs_observed (eb_change_sets b)"
  using assms unfolding construct_proceed_iff construct_captured_iff
  by (auto simp: assemble_bundle_def)

text \<open>A run to evaluate: one artifact, one observed change, no claims.\<close>

definition sample_sha :: "string \<Rightarrow> string" where
  "sample_sha content = replicate 64 (CHR ''0'')"

definition sample_capture :: "string \<Rightarrow> string \<Rightarrow> 'd \<Rightarrow> 'd Captured" where
  "sample_capture source cid doc =
     captured source zero_digest \<lparr>cd_contract_id = cid, cd_contract_version = ''1.0.0'', cd_body = doc\<rparr>"

definition sample_reconciliation :: Reconciliation where
  "sample_reconciliation =
     \<lparr>rc_agreement = False, rc_claims = Claims_absent, rc_claimed = [],
      rc_disagreements = [\<lparr>dg_path = ''src/x'', dg_detail = ''observed but not claimed''\<rparr>]\<rparr>"

definition sample_inputs :: EvidenceInputs where
  "sample_inputs =
     \<lparr>in_snapshots =
        \<lparr>en_profile = Some (Captured_ok (sample_capture ''profile.json'' ''execution-profile'' sample_profile)),
         en_path_policy = Some (Captured_ok (sample_capture ''policy.json'' ''path-policy'' sample_policy)),
         en_gate_registry = Some (Captured_ok (sample_capture ''gates.json'' ''gate-registry'' sample_registry))\<rparr>,
      in_run =
        \<lparr>er_run_id = ''run-1'', er_image_digest = zero_digest, er_argv_digest = zero_digest,
         er_runtime = ''docker'', er_provider = ''local'', er_adapter = ''deterministic''\<rparr>,
      in_principal = sample_principal,
      in_operations = \<lparr>eos_attempted = [], eos_permitted = [], eos_denied = []\<rparr>,
      in_gate_results = [], in_artifacts = Observed_artifacts [\<lparr>oa_path = ''./out.txt'', oa_content = ''hi''\<rparr>],
      in_observed = [change_at ''src/x''], in_reconciliation = sample_reconciliation,
      in_outcome = CompletedOutcome, in_timing = sample_timing\<rparr>"

definition sample_bundle :: EvidenceBundle where
  "sample_bundle =
     assemble_bundle (sample_capture ''profile.json'' ''execution-profile'' sample_profile)
       (sample_capture ''policy.json'' ''path-policy'' sample_policy)
       (sample_capture ''gates.json'' ''gate-registry'' sample_registry)
       [\<lparr>ae_path = ''out.txt'', ae_digest = zero_digest, ae_bytes = 2\<rparr>] sample_inputs"

lemma sample_bundle_valid: "valid_EvidenceBundle (\<lambda>_. True) sample_bundle"
  by code_simp

lemma sample_constructs:
  "constructEvidence sample_sha (\<lambda>_. True) (\<lambda>_. []) sample_inputs = Decided (Proceed sample_bundle)"
  by code_simp

lemma claims_reach_only_claim_fields_witness:
  "\<exists>b'. constructEvidence sample_sha (\<lambda>_. True) (\<lambda>_. [])
      (sample_inputs\<lparr>in_reconciliation := sample_reconciliation\<lparr>rc_agreement := True, rc_disagreements := []\<rparr>\<rparr>) =
        Decided (Proceed b') \<and>
     b'\<lparr>eb_change_sets := eb_change_sets sample_bundle\<rparr> = sample_bundle"
proof -
  let ?other = "sample_reconciliation\<lparr>rc_agreement := True, rc_disagreements := []\<rparr>"
  have other: "constructEvidence sample_sha (\<lambda>_. True) (\<lambda>_. []) (sample_inputs\<lparr>in_reconciliation := ?other\<rparr>) =
      Decided (Proceed (sample_bundle\<lparr>eb_change_sets :=
        (eb_change_sets sample_bundle)\<lparr>cs_agreement := True, cs_disagreements := []\<rparr>\<rparr>))"
    by code_simp
  show ?thesis
    using claims_reach_only_claim_fields[OF sample_constructs other] other by blast
qed

text \<open>
  A bundle is eligible for the seal exactly when it is present, validates and records
  the run's own terminal outcome; the sealed bundle is the one that was checked.
\<close>

theorem seal_exact:
  "decideSealEligibility datetime report claimed run_outcome = Proceed s \<longleftrightarrow>
   (\<exists>b. claimed = Bundle b \<and> valid_EvidenceBundle datetime b \<and> run_outcome = Some (eb_outcome b) \<and>
      s = \<lparr>se_prerequisites_checked = PREREQUISITES, se_bundle = b\<rparr>)"
  by (cases claimed)
    (auto simp: decideSealEligibility_def refuse_def parse_EvidenceBundle_def split: option.splits)

end
