(* ===== verification/Verify.thy ===== *)
theory Verify
  imports Evidence
begin

text \<open>
  Independent verification and consumption: \<^verbatim>\<open>verification/verify.ts\<close> and
  \<^verbatim>\<open>verification/consume.ts\<close>. The expectation is derived from authority bytes and artifacts
  that are inputs of their own; the claimed bundle is only what is under test. Parameters:
  SHA-256, JSON parsing, and the schemas of the three authority documents.
\<close>

section \<open>Inputs and results\<close>

record IndependentInputs =
  ix_profile :: AuthorityBytes
  ix_path_policy :: AuthorityBytes
  ix_gate_registry :: AuthorityBytes
  ix_artifacts :: ArtifactObservation

record ConsumedArtifact =
  ca_path :: string
  ca_digest :: string

datatype VerificationResult =
    Verified "ConsumedArtifact list"
  | Not_verified "string list"
  | Verification_fault string string

text \<open>What the platform and the libraries supply.\<close>

record Platform =
  pf_sha256 :: "string \<Rightarrow> string"
  pf_parse :: "string \<Rightarrow> parse_result"
  pf_datetime :: "string \<Rightarrow> bool"
  pf_report :: "EvidenceBundle \<Rightarrow> Issue list"
  pf_profile_schema :: "json \<Rightarrow> ExecutionProfile ContractDocument schema_result"
  pf_policy_schema :: "json \<Rightarrow> PathPolicy ContractDocument schema_result"
  pf_registry_schema :: "json \<Rightarrow> GateRegistry ContractDocument schema_result"

section \<open>The steps\<close>

text \<open>The recorded digest of every path, in the order of first mention, or the contradiction.\<close>

fun by_path :: "(string \<times> string) list \<Rightarrow> ArtifactEntry list \<Rightarrow> string + (string \<times> string) list" where
  "by_path seen [] = Inr seen"
| "by_path seen (a # as) =
     (case map_of seen (ae_path a) of
        None \<Rightarrow> by_path (seen @ [(ae_path a, ae_digest a)]) as
      | Some previous \<Rightarrow>
          if previous \<noteq> ae_digest a then
            Inl (template [''bundle carries two irreconcilable digests for '', quoted (ae_path a), '': '',
              previous, '' and '', ae_digest a])
          else by_path seen as)"

text \<open>The fields on which a recorded identity diverges from the derived one.\<close>

definition identity_diverges ::
  "string \<Rightarrow> (string \<times> string) list \<Rightarrow> (string \<times> string) list \<Rightarrow> string list" where
  "identity_diverges name recorded derived =
     concat (map (\<lambda>(field, expected).
       if map_of recorded field \<noteq> Some expected then
         [template [name, '' identity diverges on '', field, '': bundle records '',
            (case map_of recorded field of Some r \<Rightarrow> json_quote r | None \<Rightarrow> ''undefined''),
            '', independent capture derives '', json_quote expected]]
       else []) derived)"

definition profile_fields :: "ProfileIdentity \<Rightarrow> (string \<times> string) list" where
  "profile_fields i = [(''name'', pi_name i), (''version'', pi_version i), (''digest'', pi_digest i)]"

definition contract_fields :: "CapturedIdentity \<Rightarrow> (string \<times> string) list" where
  "contract_fields i =
     [(''contract_id'', ci_contract_id i), (''contract_version'', ci_contract_version i),
      (''digest'', ci_digest i)]"

definition captured_profile_identity :: "ExecutionProfile Captured \<Rightarrow> ProfileIdentity" where
  "captured_profile_identity c =
     \<lparr>pi_name = prf_name (ep_identity (cd_body (cp_value c))),
      pi_version = prf_version (ep_identity (cd_body (cp_value c))), pi_digest = cp_digest c\<rparr>"

text \<open>
  One capture of the verifier's own: the failures it adds, or (on the left) the acquisition
  fault.
\<close>

definition recapture ::
  "string \<Rightarrow> 'd CapturedAuthority + string \<times> string \<Rightarrow> ('d Captured \<Rightarrow> string list) \<Rightarrow>
   (string \<times> string) + string list" where
  "recapture name capture diverges =
     (case capture of
        Inr fault \<Rightarrow> Inl fault
      | Inl (Captured_refused _ r) \<Rightarrow>
          Inr [template [''independent capture of '', name, '' refused: '', rf_detail r, '' '', em_dash,
            '' expectation cannot be derived'']]
      | Inl (Captured_ok c) \<Rightarrow> Inr (diverges c))"

definition recaptureContract ::
  "Platform \<Rightarrow> string \<Rightarrow> AuthorityBytes \<Rightarrow> 'd ExpectedContract \<Rightarrow> CapturedIdentity \<Rightarrow>
   (string \<times> string) + string list" where
  "recaptureContract v name input expected recorded =
     recapture name (captureAuthority (pf_sha256 v) (pf_parse v) input expected)
       (\<lambda>c. identity_diverges name (contract_fields recorded) (contract_fields (cp_contract c)))"

definition recaptureProfile ::
  "Platform \<Rightarrow> AuthorityBytes \<Rightarrow> ProfileIdentity \<Rightarrow> (string \<times> string) + string list" where
  "recaptureProfile v input recorded =
     recapture ''profile''
       (captureAuthority (pf_sha256 v) (pf_parse v) input
         \<lparr>ec_contract_id = ''execution-profile'', ec_schema = pf_profile_schema v\<rparr>)
       (\<lambda>c. identity_diverges ''profile'' (profile_fields recorded)
         (profile_fields (captured_profile_identity c)))"

text \<open>
  The three captures in order; after a fault the later ones are skipped, and the fault is what
  is answered.
\<close>

definition authority_failures ::
  "Platform \<Rightarrow> IndependentInputs \<Rightarrow> EvidenceIdentities \<Rightarrow> (string \<times> string) + string list" where
  "authority_failures v ind ids =
     (case recaptureProfile v (ix_profile ind) (ei_profile ids) of
        Inl fault \<Rightarrow> Inl fault
      | Inr f1 \<Rightarrow>
          (case recaptureContract v ''path-policy'' (ix_path_policy ind)
              \<lparr>ec_contract_id = ''path-policy'', ec_schema = pf_policy_schema v\<rparr> (ei_path_policy ids) of
             Inl fault \<Rightarrow> Inl fault
           | Inr f2 \<Rightarrow>
               (case recaptureContract v ''gate-registry'' (ix_gate_registry ind)
                   \<lparr>ec_contract_id = ''gate-registry'', ec_schema = pf_registry_schema v\<rparr>
                   (ei_gate_registry ids) of
                  Inl fault \<Rightarrow> Inl fault
                | Inr f3 \<Rightarrow> Inr (f1 @ f2 @ f3))))"

text \<open>
  The observed surface against the recorded digests: the failures in order, the observed
  paths, and the consumed artifacts.
\<close>

fun check_surface ::
  "(string \<Rightarrow> string) \<Rightarrow> (string \<times> string) list \<Rightarrow> ObservedArtifact list \<Rightarrow>
   string list \<times> string list \<times> ConsumedArtifact list" where
  "check_surface sha256 recorded [] = ([], [], [])"
| "check_surface sha256 recorded (a # as) =
     (let (failures, observed, consumed) = check_surface sha256 recorded as in
      case normalizePath (oa_path a) of
        Path_bad reason \<Rightarrow>
          (template [''observed artifact path cannot be normalized: '', quoted (oa_path a), '' ('', reason,
             '')''] # failures, observed, consumed)
      | Path_ok n \<Rightarrow>
          (let recomputed = digestOf sha256 (oa_content a) in
           case map_of recorded n of
             None \<Rightarrow>
               (template [''unaccounted artifact on the observed surface: '', quoted n,
                  '' is absent from the bundle '', em_dash, '' never ignored as immaterial''] # failures,
                n # observed, consumed)
           | Some digest \<Rightarrow>
               if digest \<noteq> recomputed then
                 (template [''artifact digest diverges for '', quoted n, '': bundle records '', digest,
                    '', recomputation derives '', recomputed] # failures, n # observed, consumed)
               else (failures, n # observed, \<lparr>ca_path = n, ca_digest = recomputed\<rparr> # consumed)))"

definition missing_artifacts :: "(string \<times> string) list \<Rightarrow> string list \<Rightarrow> string list" where
  "missing_artifacts recorded observed =
     map (\<lambda>(path, _). template [''bundle names artifact '', quoted path,
            '' but it is missing from the observed surface''])
       (filter (\<lambda>(path, _). path \<notin> set observed) recorded)"

definition verify_surface ::
  "(string \<Rightarrow> string) \<Rightarrow> (string \<times> string) list \<Rightarrow> ObservedArtifact list \<Rightarrow> VerificationResult" where
  "verify_surface sha256 recorded artifacts =
     (let (failures, observed, consumed) = check_surface sha256 recorded artifacts;
          all_failures = failures @ missing_artifacts recorded observed in
      if all_failures \<noteq> [] then Not_verified all_failures else Verified consumed)"

definition verify_bundle ::
  "Platform \<Rightarrow> IndependentInputs \<Rightarrow> ObservedArtifact list \<Rightarrow> EvidenceBundle \<Rightarrow> VerificationResult" where
  "verify_bundle v ind artifacts bundle =
     (case by_path [] (eb_artifacts bundle) of
        Inl contradiction \<Rightarrow> Not_verified [contradiction]
      | Inr recorded \<Rightarrow>
          (case authority_failures v ind (eb_identities bundle) of
             Inl (source, detail) \<Rightarrow> Verification_fault source detail
           | Inr failures \<Rightarrow>
               if failures \<noteq> [] then Not_verified failures
               else verify_surface (pf_sha256 v) recorded artifacts))"

definition verifyEvidence :: "Platform \<Rightarrow> claimed_bundle \<Rightarrow> IndependentInputs \<Rightarrow> VerificationResult" where
  "verifyEvidence v claimed ind =
     (case ix_artifacts ind of
        Artifacts_failed failure \<Rightarrow>
          Verification_fault ''artifact surface''
            (template [''observation reported failed: '', failure, '' '', em_dash,
               '' not verified, and no contract decision is claimed''])
      | Observed_artifacts artifacts \<Rightarrow>
          (case parse_claimed (pf_datetime v) (pf_report v) claimed of
             None \<Rightarrow> Not_verified [''evidence bundle is absent'']
           | Some (Schema_issues issues) \<Rightarrow>
               Not_verified [template [''evidence bundle fails contract validation: '', issues_text issues]]
           | Some (Schema_ok bundle) \<Rightarrow> verify_bundle v ind artifacts bundle))"

section \<open>Consumption\<close>

definition consumeVerified ::
  "(string \<Rightarrow> string) \<Rightarrow> ObservedArtifact \<Rightarrow> string \<Rightarrow> ConsumedArtifact Decision" where
  "consumeVerified sha256 artifact expectedDigest =
     (let actual = digestOf sha256 (oa_content artifact) in
      if actual \<noteq> expectedDigest then
        refuse consumption_digest_mismatch (element_observed (oa_path artifact) actual)
          (template [''consumed bytes digest '', actual, '' but '', expectedDigest, '' was expected '', em_dash,
             '' the artifact changed after its last verification, and that verification authorizes nothing''])
      else proceed \<lparr>ca_path = oa_path artifact, ca_digest = actual\<rparr>)"

section \<open>What each step decides\<close>

text \<open>One statement about every path.\<close>

definition one_digest :: "ArtifactEntry list \<Rightarrow> bool" where
  "one_digest as \<longleftrightarrow>
     (\<forall>a \<in> set as. \<forall>b \<in> set as. ae_path a = ae_path b \<longrightarrow> ae_digest a = ae_digest b)"

lemma by_path_Inr:
  assumes "by_path seen as = Inr recorded"
  shows "(\<forall>n d. map_of seen n = Some d \<longrightarrow> map_of recorded n = Some d) \<and>
    fst ` set recorded = fst ` set seen \<union> ae_path ` set as \<and>
    (\<forall>a \<in> set as. map_of recorded (ae_path a) = Some (ae_digest a))"
  using assms
proof (induction as arbitrary: seen)
  case (Cons a as)
  show ?case
  proof (cases "map_of seen (ae_path a)")
    case None
    let ?seen = "seen @ [(ae_path a, ae_digest a)]"
    have "by_path ?seen as = Inr recorded" using Cons.prems None by simp
    note IH = Cons.IH[OF this]
    have old: "map_of ?seen n = Some d" if "map_of seen n = Some d" for n d
      using that by (simp add: map_add_def)
    have new: "map_of ?seen (ae_path a) = Some (ae_digest a)" using None by (simp add: map_add_def)
    have "map_of recorded (ae_path a) = Some (ae_digest a)" using IH new by blast
    moreover have "map_of recorded n = Some d" if "map_of seen n = Some d" for n d
      using IH old[OF that] by blast
    moreover have "fst ` set recorded = fst ` set seen \<union> ae_path ` set (a # as)"
      using IH[THEN conjunct2, THEN conjunct1] by simp
    ultimately show ?thesis using IH[THEN conjunct2, THEN conjunct2] by (simp only: list.set ball_simps) blast
  next
    case (Some d)
    then have d: "d = ae_digest a" "by_path seen as = Inr recorded"
      using Cons.prems by (auto split: if_splits)
    have "ae_path a \<in> fst ` set seen" using Some map_of_SomeD by force
    moreover have "map_of recorded (ae_path a) = Some (ae_digest a)"
      using Cons.IH[OF d(2), THEN conjunct1] Some d(1) by blast
    moreover have "fst ` set recorded = fst ` set seen \<union> ae_path ` set (a # as)"
      using Cons.IH[OF d(2), THEN conjunct2, THEN conjunct1] calculation(1) by auto
    ultimately show ?thesis
      using Cons.IH[OF d(2)] by (simp only: list.set ball_simps) blast
  qed
qed simp

lemma by_path_Inl:
  assumes "by_path seen as = Inl c"
  shows "\<exists>a \<in> set as. (\<exists>d. map_of seen (ae_path a) = Some d \<and> d \<noteq> ae_digest a) \<or>
     (\<exists>b \<in> set as. ae_path a = ae_path b \<and> ae_digest a \<noteq> ae_digest b)"
  using assms
proof (induction as arbitrary: seen)
  case (Cons a as)
  show ?case
  proof (cases "map_of seen (ae_path a)")
    case None
    let ?seen = "seen @ [(ae_path a, ae_digest a)]"
    have "by_path ?seen as = Inl c" using Cons.prems None by simp
    from Cons.IH[OF this] obtain b where b: "b \<in> set as"
      "(\<exists>d. map_of ?seen (ae_path b) = Some d \<and> d \<noteq> ae_digest b) \<or>
       (\<exists>b' \<in> set as. ae_path b = ae_path b' \<and> ae_digest b \<noteq> ae_digest b')"
      by blast
    show ?thesis
    proof (cases "\<exists>b' \<in> set as. ae_path b = ae_path b' \<and> ae_digest b \<noteq> ae_digest b'")
      case True
      then obtain b' where "b' \<in> set as" "ae_path b = ae_path b' \<and> ae_digest b \<noteq> ae_digest b'" by blast
      then show ?thesis using b(1) by (intro bexI[of _ b] disjI2 bexI[of _ b']) simp_all
    next
      case False
      then obtain d where d: "map_of ?seen (ae_path b) = Some d" "d \<noteq> ae_digest b" using b(2) by blast
      show ?thesis
      proof (cases "map_of seen (ae_path b)")
        case none: None
        then have "ae_path a = ae_path b" "ae_digest a = d"
          using d(1) by (simp_all add: map_add_def split: if_splits)
        then have "ae_path a = ae_path b \<and> ae_digest a \<noteq> ae_digest b" using d(2) by simp
        then show ?thesis using b(1) by (intro bexI[of _ a] disjI2 bexI[of _ b]) simp_all
      next
        case (Some d')
        then have "d' = d" using d(1) by (simp add: map_add_def)
        then have "map_of seen (ae_path b) = Some d \<and> d \<noteq> ae_digest b" using Some d(2) by simp
        then show ?thesis using b(1) by (intro bexI[of _ b] disjI1 exI[of _ d]) simp_all
      qed
    qed
  next
    case (Some d)
    show ?thesis
    proof (cases "d = ae_digest a")
      case True
      then have "by_path seen as = Inl c" using Cons.prems Some by simp
      from Cons.IH[OF this] show ?thesis by (meson list.set_intros(2))
    next
      case False
      then show ?thesis using Some by auto
    qed
  qed
qed simp

lemma by_path_ok:
  "(\<exists>recorded. by_path [] as = Inr recorded) \<longleftrightarrow> one_digest as"
proof
  assume "\<exists>recorded. by_path [] as = Inr recorded"
  then obtain recorded where r: "by_path [] as = Inr recorded" by blast
  have "\<forall>a \<in> set as. map_of recorded (ae_path a) = Some (ae_digest a)"
    using by_path_Inr[OF r] by blast
  then show "one_digest as" unfolding one_digest_def by (metis option.inject)
next
  assume one: "one_digest as"
  show "\<exists>recorded. by_path [] as = Inr recorded"
  proof (cases "by_path [] as")
    case (Inl c)
    have "\<exists>a \<in> set as. \<exists>b \<in> set as. ae_path a = ae_path b \<and> ae_digest a \<noteq> ae_digest b"
      using by_path_Inl[OF Inl] by simp
    then show ?thesis using one unfolding one_digest_def by blast
  qed blast
qed

lemma identity_diverges_Nil:
  "identity_diverges name recorded derived = [] \<longleftrightarrow>
   (\<forall>(field, expected) \<in> set derived. map_of recorded field = Some expected)"
  by (auto simp: identity_diverges_def split: if_splits)

lemma profile_diverges [simp]:
  "identity_diverges name (profile_fields i) (profile_fields j) = [] \<longleftrightarrow> i = j"
  by (auto simp: identity_diverges_Nil profile_fields_def)

lemma contract_diverges [simp]:
  "identity_diverges name (contract_fields i) (contract_fields j) = [] \<longleftrightarrow> i = j"
  by (auto simp: identity_diverges_Nil contract_fields_def)

lemma recapture_Nil [simp]:
  "recapture name capture diverges = Inr [] \<longleftrightarrow>
   (\<exists>c. capture = Inl (Captured_ok c) \<and> diverges c = [])"
  by (auto simp: recapture_def split: sum.splits CapturedAuthority.splits)

abbreviation capture_profile where
  "capture_profile v input \<equiv> captureAuthority (pf_sha256 v) (pf_parse v) input
     \<lparr>ec_contract_id = ''execution-profile'', ec_schema = pf_profile_schema v\<rparr>"

abbreviation capture_policy where
  "capture_policy v input \<equiv> captureAuthority (pf_sha256 v) (pf_parse v) input
     \<lparr>ec_contract_id = ''path-policy'', ec_schema = pf_policy_schema v\<rparr>"

abbreviation capture_registry where
  "capture_registry v input \<equiv> captureAuthority (pf_sha256 v) (pf_parse v) input
     \<lparr>ec_contract_id = ''gate-registry'', ec_schema = pf_registry_schema v\<rparr>"

text \<open>The identities a bundle must carry: those the verifier derives from its own bytes.\<close>

definition independently_derived :: "Platform \<Rightarrow> IndependentInputs \<Rightarrow> EvidenceIdentities \<Rightarrow> bool" where
  "independently_derived v ind ids \<longleftrightarrow>
     (\<exists>p q g.
        capture_profile v (ix_profile ind) = Inl (Captured_ok p) \<and>
        ei_profile ids = captured_profile_identity p \<and>
        capture_policy v (ix_path_policy ind) = Inl (Captured_ok q) \<and>
        ei_path_policy ids = cp_contract q \<and>
        capture_registry v (ix_gate_registry ind) = Inl (Captured_ok g) \<and>
        ei_gate_registry ids = cp_contract g)"

lemma authority_failures_Nil:
  "authority_failures v ind ids = Inr [] \<longleftrightarrow> independently_derived v ind ids"
proof -
  have "authority_failures v ind ids = Inr [] \<longleftrightarrow>
      recaptureProfile v (ix_profile ind) (ei_profile ids) = Inr [] \<and>
      recaptureContract v ''path-policy'' (ix_path_policy ind)
        \<lparr>ec_contract_id = ''path-policy'', ec_schema = pf_policy_schema v\<rparr> (ei_path_policy ids) = Inr [] \<and>
      recaptureContract v ''gate-registry'' (ix_gate_registry ind)
        \<lparr>ec_contract_id = ''gate-registry'', ec_schema = pf_registry_schema v\<rparr> (ei_gate_registry ids) = Inr []"
    by (auto simp: authority_failures_def split: sum.splits)
  then show ?thesis
    by (simp only: recaptureProfile_def recaptureContract_def recapture_Nil profile_diverges
        contract_diverges independently_derived_def) blast
qed

text \<open>The surface: every artifact has the recorded digest, and every record its artifact.\<close>

definition consumed_artifact :: "(string \<Rightarrow> string) \<Rightarrow> ObservedArtifact \<Rightarrow> ConsumedArtifact" where
  "consumed_artifact sha256 a =
     \<lparr>ca_path = normal_path (oa_path a), ca_digest = digestOf sha256 (oa_content a)\<rparr>"

lemma check_surface_spec:
  "check_surface sha256 recorded as = (failures, observed, consumed) \<Longrightarrow>
   (failures = [] \<longleftrightarrow>
      (\<forall>a \<in> set as. normalizable (oa_path a) \<and>
         map_of recorded (normal_path (oa_path a)) = Some (digestOf sha256 (oa_content a)))) \<and>
   observed = map (\<lambda>a. normal_path (oa_path a)) (filter (\<lambda>a. normalizable (oa_path a)) as) \<and>
   (failures = [] \<longrightarrow> consumed = map (consumed_artifact sha256) as)"
proof (induction as arbitrary: failures observed consumed)
  case (Cons a as)
  obtain fs obs cs where rest: "check_surface sha256 recorded as = (fs, obs, cs)" by (rule prod_cases3)
  note IH = Cons.IH[OF rest]
  show ?case
  proof (cases "normalizePath (oa_path a)")
    case (Path_bad r)
    then have "\<not> normalizable (oa_path a)" by (simp add: normalizable_def)
    then show ?thesis using Cons.prems IH by (auto simp: rest Path_bad)
  next
    case (Path_ok n)
    then have n: "normalizable (oa_path a)" "normal_path (oa_path a) = n"
      by (simp_all add: normalizable_def normal_path_def)
    show ?thesis
      using Cons.prems IH n
      by (cases "map_of recorded n")
        (auto simp: rest Path_ok consumed_artifact_def Let_def split: if_splits)
  qed
qed simp

lemma missing_artifacts_Nil:
  "missing_artifacts recorded observed = [] \<longleftrightarrow> fst ` set recorded \<subseteq> set observed"
  by (auto simp: missing_artifacts_def filter_empty_conv)

lemma verify_surface_iff:
  "verify_surface sha256 recorded as = Verified cs \<longleftrightarrow>
   (\<forall>a \<in> set as. normalizable (oa_path a) \<and>
      map_of recorded (normal_path (oa_path a)) = Some (digestOf sha256 (oa_content a))) \<and>
   fst ` set recorded \<subseteq> (\<lambda>a. normal_path (oa_path a)) ` set as \<and>
   cs = map (consumed_artifact sha256) as"
proof -
  obtain fs obs con where s: "check_surface sha256 recorded as = (fs, obs, con)" by (rule prod_cases3)
  note spec = check_surface_spec[OF s]
  show ?thesis
  proof (cases "fs = []")
    case True
    then have "set obs = (\<lambda>a. normal_path (oa_path a)) ` set as" using spec by force
    then show ?thesis
      using spec True by (auto simp: verify_surface_def s missing_artifacts_Nil)
  next
    case False
    then show ?thesis using spec by (auto simp: verify_surface_def s)
  qed
qed

text \<open>The same, said of the bundle's own entries.\<close>

definition surface_matches ::
  "(string \<Rightarrow> string) \<Rightarrow> ArtifactEntry list \<Rightarrow> ObservedArtifact list \<Rightarrow> bool" where
  "surface_matches sha256 entries as \<longleftrightarrow>
     list_all (\<lambda>a. normalizable (oa_path a)) as \<and>
     (\<lambda>a. (normal_path (oa_path a), digestOf sha256 (oa_content a))) ` set as =
     (\<lambda>e. (ae_path e, ae_digest e)) ` set entries"

lemma verify_bundle_surface:
  assumes "by_path [] entries = Inr recorded"
  shows "verify_surface sha256 recorded as = Verified cs \<longleftrightarrow>
    surface_matches sha256 entries as \<and> cs = map (consumed_artifact sha256) as"
proof -
  note r = by_path_Inr[OF assms]
  have keys: "fst ` set recorded = ae_path ` set entries" using r by simp
  have val: "map_of recorded n = Some d \<longleftrightarrow> (n, d) \<in> (\<lambda>e. (ae_path e, ae_digest e)) ` set entries" for n d
  proof
    assume m: "map_of recorded n = Some d"
    then have "n \<in> fst ` set recorded" using map_of_SomeD by force
    then obtain e where "e \<in> set entries" "n = ae_path e" using keys by auto
    then show "(n, d) \<in> (\<lambda>e. (ae_path e, ae_digest e)) ` set entries" using r m by auto
  next
    assume "(n, d) \<in> (\<lambda>e. (ae_path e, ae_digest e)) ` set entries"
    then show "map_of recorded n = Some d" using r by auto
  qed
  let ?o = "\<lambda>a. (normal_path (oa_path a), digestOf sha256 (oa_content a))"
  let ?e = "\<lambda>e. (ae_path e, ae_digest e)"
  have "?o ` set as = ?e ` set entries \<longleftrightarrow>
      ?o ` set as \<subseteq> ?e ` set entries \<and> ae_path ` set entries \<subseteq> (\<lambda>a. normal_path (oa_path a)) ` set as"
    if one: "one_digest entries"
  proof
    assume eq: "?o ` set as = ?e ` set entries"
    then have "fst ` (?o ` set as) = fst ` (?e ` set entries)" by simp
    then have "(\<lambda>a. normal_path (oa_path a)) ` set as = ae_path ` set entries"
      by (simp only: image_image fst_conv)
    then show "?o ` set as \<subseteq> ?e ` set entries \<and> ae_path ` set entries \<subseteq> (\<lambda>a. normal_path (oa_path a)) ` set as"
      using eq by simp
  next
    assume h: "?o ` set as \<subseteq> ?e ` set entries \<and> ae_path ` set entries \<subseteq> (\<lambda>a. normal_path (oa_path a)) ` set as"
    have "?e e \<in> ?o ` set as" if e: "e \<in> set entries" for e
    proof -
      obtain a where a: "a \<in> set as" "ae_path e = normal_path (oa_path a)" using h e by blast
      obtain e' where e': "e' \<in> set entries" "?o a = ?e e'" using h a(1) by blast
      then have "ae_path e' = ae_path e" using a(2) by simp
      then have "ae_digest e' = ae_digest e" using one e e'(1) unfolding one_digest_def by blast
      then show ?thesis using a e' by force
    qed
    then show "?o ` set as = ?e ` set entries" using h by blast
  qed
  moreover have "one_digest entries" using assms by_path_ok by blast
  ultimately have eq: "?o ` set as = ?e ` set entries \<longleftrightarrow>
      ?o ` set as \<subseteq> ?e ` set entries \<and> ae_path ` set entries \<subseteq> (\<lambda>a. normal_path (oa_path a)) ` set as"
    by blast
  show ?thesis
    unfolding verify_surface_iff surface_matches_def list_all_iff eq keys val by blast
qed

section \<open>Properties\<close>

text \<open>
  C25: A bundle is verified exactly when it validates, does not contradict itself about any
  artifact, carries the identities the verifier derives from authority bytes of its own, field
  by field, and names exactly the artifacts of the surface the verifier observed, each with the
  digest recomputed from its content. Whatever else the bundle says, the verdict depends on
  nothing the producer computed.
\<close>

theorem verification_exact:
  "verifyEvidence v claimed ind = Verified cs \<longleftrightarrow>
   (\<exists>b as. claimed = Bundle b \<and> ix_artifacts ind = Observed_artifacts as \<and>
      valid_EvidenceBundle (pf_datetime v) b \<and> one_digest (eb_artifacts b) \<and>
      independently_derived v ind (eb_identities b) \<and>
      surface_matches (pf_sha256 v) (eb_artifacts b) as \<and>
      cs = map (consumed_artifact (pf_sha256 v)) as)"
proof -
  have decided: "verify_bundle v ind surf b = Verified cs \<longleftrightarrow>
      one_digest (eb_artifacts b) \<and> independently_derived v ind (eb_identities b) \<and>
      surface_matches (pf_sha256 v) (eb_artifacts b) surf \<and> cs = map (consumed_artifact (pf_sha256 v)) surf"
    for surf b
  proof (cases "by_path [] (eb_artifacts b)")
    case (Inl c)
    then have "\<not> one_digest (eb_artifacts b)" using by_path_ok[of "eb_artifacts b"] by auto
    then show ?thesis by (simp add: verify_bundle_def Inl)
  next
    case (Inr recorded)
    then have one: "one_digest (eb_artifacts b)" using by_path_ok by blast
    show ?thesis
      using verify_bundle_surface[OF Inr] authority_failures_Nil[of v ind "eb_identities b"] one
      by (auto simp: verify_bundle_def Inr split: sum.splits)
  qed
  show ?thesis
  proof (cases "ix_artifacts ind")
    case (Observed_artifacts as)
    then show ?thesis
      by (cases claimed) (auto simp: verifyEvidence_def decided parse_EvidenceBundle_def)
  qed (simp add: verifyEvidence_def)
qed

text \<open>
  What construction and verification say to each other: the identities and the artifacts of a
  constructed bundle.
\<close>

lemma assembled_identities:
  "ei_profile (eb_identities (assemble_bundle p q g es inputs)) = captured_profile_identity p"
  "ei_path_policy (eb_identities (assemble_bundle p q g es inputs)) = cp_contract q"
  "ei_gate_registry (eb_identities (assemble_bundle p q g es inputs)) = cp_contract g"
  "set (eb_artifacts (assemble_bundle p q g es inputs)) = set es"
  by (simp_all add: assemble_bundle_def captured_profile_identity_def)

text \<open>One content for every normalized path of an observed surface.\<close>

definition consistent_surface :: "ObservedArtifact list \<Rightarrow> bool" where
  "consistent_surface as \<longleftrightarrow>
     (\<forall>a \<in> set as. \<forall>b \<in> set as. normal_path (oa_path a) = normal_path (oa_path b) \<longrightarrow>
        oa_content a = oa_content b)"

text \<open>
  C26: Producer and verifier agree. Evidence constructed from captured authority and an
  artifact surface that gives every path one content is verified by an independent verifier
  that acquires the same authority bytes and observes the same contents at the same paths, in
  any order and spelling, and the artifacts it consumes are those it observed.
\<close>

theorem construct_then_verify:
  assumes "constructEvidence (pf_sha256 v) (pf_datetime v) report inputs = Decided (Proceed b)"
    and "in_artifacts inputs = Observed_artifacts as" and "consistent_surface as"
    and "Some (Captured_ok p) = en_profile (in_snapshots inputs)"
    and "Some (Captured_ok q) = en_path_policy (in_snapshots inputs)"
    and "Some (Captured_ok g) = en_gate_registry (in_snapshots inputs)"
    and "capture_profile v (ix_profile ind) = Inl (Captured_ok p)"
    and "capture_policy v (ix_path_policy ind) = Inl (Captured_ok q)"
    and "capture_registry v (ix_gate_registry ind) = Inl (Captured_ok g)"
    and "ix_artifacts ind = Observed_artifacts as'"
    and "list_all (\<lambda>a. normalizable (oa_path a)) as'"
    and "(\<lambda>a. (normal_path (oa_path a), oa_content a)) ` set as' =
      (\<lambda>a. (normal_path (oa_path a), oa_content a)) ` set as"
  shows "verifyEvidence v (Bundle b) ind = Verified (map (consumed_artifact (pf_sha256 v)) as')"
proof -
  let ?sha = "pf_sha256 v"
  have c: "construct_captured ?sha (pf_datetime v) report p q g as inputs = Proceed b"
    using assms(1,2,4-6) unfolding construct_proceed_iff by auto
  then have b: "b = assemble_bundle p q g (map (artifact_entry ?sha) as) inputs"
    and valid: "valid_EvidenceBundle (pf_datetime v) b"
    unfolding construct_captured_iff by blast+
  have arts: "set (eb_artifacts b) = artifact_entry ?sha ` set as"
    unfolding b assembled_identities by simp
  have one: "one_digest (eb_artifacts b)"
    unfolding one_digest_def arts
  proof (intro ballI impI)
    fix x y assume "x \<in> artifact_entry ?sha ` set as" "y \<in> artifact_entry ?sha ` set as"
      and path: "ae_path x = ae_path y"
    then obtain a a' where a: "a \<in> set as" "x = artifact_entry ?sha a" "a' \<in> set as" "y = artifact_entry ?sha a'"
      by blast
    then have "normal_path (oa_path a) = normal_path (oa_path a')"
      using path by (simp add: artifact_entry_def)
    then have "oa_content a = oa_content a'"
      using assms(3) a(1,3) unfolding consistent_surface_def by blast
    then show "ae_digest x = ae_digest y" using a by (simp add: artifact_entry_def)
  qed
  have ids: "independently_derived v ind (eb_identities b)"
    unfolding independently_derived_def b assembled_identities using assms(7-9) by blast
  let ?d = "\<lambda>(n, content). (n, digestOf ?sha content)"
  let ?o = "\<lambda>a. (normal_path (oa_path a), oa_content a)"
  have "(\<lambda>a. (normal_path (oa_path a), digestOf ?sha (oa_content a))) ` set as' = ?d ` (?o ` set as')"
    by (simp add: image_image)
  also have "\<dots> = ?d ` (?o ` set as)" by (simp only: assms(12))
  also have "\<dots> = (\<lambda>e. (ae_path e, ae_digest e)) ` set (eb_artifacts b)"
    unfolding arts by (simp add: image_image artifact_entry_def)
  finally have "surface_matches ?sha (eb_artifacts b) as'"
    using assms(11) by (simp add: surface_matches_def)
  then show ?thesis
    unfolding verification_exact using one ids valid assms(10) by blast
qed

text \<open>
  An artifact is consumed exactly when its own bytes have the expected digest: an
  earlier verification of other bytes authorizes nothing.
\<close>

theorem consume_exact:
  "consumeVerified sha256 a expected = Proceed c \<longleftrightarrow>
   expected = digestOf sha256 (oa_content a) \<and> c = \<lparr>ca_path = oa_path a, ca_digest = expected\<rparr>"
  by (auto simp: consumeVerified_def refuse_def Let_def)

text \<open>
  A verifier to evaluate: the authority bytes of a source are its name, and every schema
  accepts the sample document.
\<close>

definition sample_document :: "string \<Rightarrow> json" where
  "sample_document cid = JObj [(''contract_id'', JStr cid)]"

definition sample_platform :: "(string \<Rightarrow> string) \<Rightarrow> Platform" where
  "sample_platform sha =
     \<lparr>pf_sha256 = sha, pf_parse = (\<lambda>bytes. Parsed (sample_document bytes)), pf_datetime = (\<lambda>_. True),
      pf_report = (\<lambda>_. []),
      pf_profile_schema = (\<lambda>_. Schema_ok
        \<lparr>cd_contract_id = ''execution-profile'', cd_contract_version = ''1.0.0'', cd_body = sample_profile\<rparr>),
      pf_policy_schema = (\<lambda>_. Schema_ok
        \<lparr>cd_contract_id = ''path-policy'', cd_contract_version = ''1.0.0'', cd_body = sample_policy\<rparr>),
      pf_registry_schema = (\<lambda>_. Schema_ok
        \<lparr>cd_contract_id = ''gate-registry'', cd_contract_version = ''1.0.0'', cd_body = sample_registry\<rparr>)\<rparr>"

definition sample_independent :: "ObservedArtifact list \<Rightarrow> IndependentInputs" where
  "sample_independent arts =
     \<lparr>ix_profile = Bytes_ok ''profile.json'' ''execution-profile'',
      ix_path_policy = Bytes_ok ''policy.json'' ''path-policy'',
      ix_gate_registry = Bytes_ok ''gates.json'' ''gate-registry'',
      ix_artifacts = Observed_artifacts arts\<rparr>"

lemma sample_captures:
  "capture_profile (sample_platform sample_sha) (Bytes_ok ''profile.json'' ''execution-profile'') =
     Inl (Captured_ok (sample_capture ''profile.json'' ''execution-profile'' sample_profile))"
  "capture_policy (sample_platform sample_sha) (Bytes_ok ''policy.json'' ''path-policy'') =
     Inl (Captured_ok (sample_capture ''policy.json'' ''path-policy'' sample_policy))"
  "capture_registry (sample_platform sample_sha) (Bytes_ok ''gates.json'' ''gate-registry'') =
     Inl (Captured_ok (sample_capture ''gates.json'' ''gate-registry'' sample_registry))"
  by code_simp+

lemma construct_then_verify_witness:
  "verifyEvidence (sample_platform sample_sha) (Bundle sample_bundle)
     (sample_independent [\<lparr>oa_path = ''out.txt'', oa_content = ''hi''\<rparr>]) =
   Verified [\<lparr>ca_path = ''out.txt'', ca_digest = zero_digest\<rparr>]"
proof -
  let ?v = "sample_platform sample_sha" and ?arts = "[\<lparr>oa_path = ''out.txt'', oa_content = ''hi''\<rparr>]"
  have "constructEvidence (pf_sha256 ?v) (pf_datetime ?v) (\<lambda>_. []) sample_inputs = Decided (Proceed sample_bundle)"
    using sample_constructs by (simp add: sample_platform_def)
  then have "verifyEvidence ?v (Bundle sample_bundle) (sample_independent ?arts) =
      Verified (map (consumed_artifact (pf_sha256 ?v)) ?arts)"
  proof (rule construct_then_verify)
    show "in_artifacts sample_inputs = Observed_artifacts [\<lparr>oa_path = ''./out.txt'', oa_content = ''hi''\<rparr>]"
      by (simp add: sample_inputs_def)
    show "(\<lambda>a. (normal_path (oa_path a), oa_content a)) ` set ?arts =
        (\<lambda>a. (normal_path (oa_path a), oa_content a)) ` set [\<lparr>oa_path = ''./out.txt'', oa_content = ''hi''\<rparr>]"
      by code_simp
    show "list_all (\<lambda>a. normalizable (oa_path a)) ?arts" by code_simp
  qed (simp_all add: consistent_surface_def sample_inputs_def sample_independent_def sample_captures
      del: captureAuthority.simps)
  moreover have "map (consumed_artifact (pf_sha256 ?v)) ?arts = [\<lparr>ca_path = ''out.txt'', ca_digest = zero_digest\<rparr>]"
    by code_simp
  ultimately show ?thesis by simp
qed

text \<open>
  A surface that reports one path twice with different contents is accepted by
  construction, for an outcome of success too, although the bundle then carries two
  irreconcilable digests and the independent verifier rejects it.
\<close>

theorem contradictory_surface_is_constructed:
  "(let sha = (\<lambda>c. if c = ''hi'' then replicate 64 (CHR ''0'') else replicate 64 (CHR ''1''));
        inputs = sample_inputs\<lparr>in_artifacts := Observed_artifacts
          [\<lparr>oa_path = ''./out.txt'', oa_content = ''hi''\<rparr>, \<lparr>oa_path = ''out.txt'', oa_content = ''ho''\<rparr>]\<rparr> in
    case constructEvidence sha (\<lambda>_. True) (\<lambda>_. []) inputs of
      Decided (Proceed b) \<Rightarrow>
        (\<exists>why. verifyEvidence (sample_platform sha) (Bundle b) (sample_independent
          [\<lparr>oa_path = ''./out.txt'', oa_content = ''hi''\<rparr>, \<lparr>oa_path = ''out.txt'', oa_content = ''ho''\<rparr>]) =
          Not_verified [why])
    | _ \<Rightarrow> False)"
proof -
  let ?sha = "\<lambda>c. if c = ''hi'' then replicate 64 (CHR ''0'') else replicate 64 (CHR ''1'')"
  let ?surface = "[\<lparr>oa_path = ''./out.txt'', oa_content = ''hi''\<rparr>, \<lparr>oa_path = ''out.txt'', oa_content = ''ho''\<rparr>]"
  let ?inputs = "sample_inputs\<lparr>in_artifacts := Observed_artifacts ?surface\<rparr>"
  let ?b = "sample_bundle\<lparr>eb_artifacts :=
      [\<lparr>ae_path = ''out.txt'', ae_digest = zero_digest, ae_bytes = 2\<rparr>,
       \<lparr>ae_path = ''out.txt'', ae_digest = ''sha256:'' @ replicate 64 (CHR ''1''), ae_bytes = 2\<rparr>]\<rparr>"
  have c: "constructEvidence ?sha (\<lambda>_. True) (\<lambda>_. []) ?inputs = Decided (Proceed ?b)"
    by code_simp
  have v: "verifyEvidence (sample_platform ?sha) (Bundle ?b) (sample_independent ?surface) =
      Not_verified [template [''bundle carries two irreconcilable digests for '', quoted ''out.txt'', '': '',
        zero_digest, '' and '', ''sha256:'' @ replicate 64 (CHR ''1'')]]"
    by code_simp
  show ?thesis using v by (simp only: Let_def c ObservedDecision.case Decision.case) blast
qed

end
