(* ===== verification/Acquisition.thy ===== *)
theory Acquisition
  imports Verify Journal
begin

text \<open>
  Authority acquisition: the single-use tokens of \<^verbatim>\<open>acquisition/tokens.ts\<close> and the epoch that
  consumes them, \<^verbatim>\<open>acquisition/epochs.ts\<close>.

  The host is a state \<open>'w\<close> of the world with three operations: a read of one source (it answers
  bytes, throws, or is interrupted by a cancellation or timeout), the journal callback (it
  returns or throws) and the test whether the caller has lost the run. The schemas and the
  digest are those of the platform.
\<close>

section \<open>Tokens\<close>

datatype read_answer =
    Read_ok string string
  | Read_failed string string
  | Read_threw string
  | Read_interrupted

datatype AcquisitionErrorKind = Token_already_consumed | Source_not_declared

record AcquisitionSet =
  aq_epoch :: AcquisitionEpoch
  aq_remaining :: "string list"
  aq_consumed :: "string list"

text \<open>The value read, a refused token, or the interruption passed on.\<close>

datatype AcquisitionOutcome =
    Acquired_value AuthorityBytes
  | Token_error AcquisitionErrorKind string
  | Acquisition_interrupted

fun epoch_text :: "AcquisitionEpoch \<Rightarrow> string" where
  "epoch_text Production = ''production''"
| "epoch_text Verification = ''verification''"

definition new_set :: "AcquisitionEpoch \<Rightarrow> string list \<Rightarrow> AcquisitionSet" where
  "new_set epoch sources =
     \<lparr>aq_epoch = epoch, aq_remaining = set_of_list sources, aq_consumed = []\<rparr>"

definition consume_token ::
  "(string \<Rightarrow> 'w \<Rightarrow> read_answer \<times> 'w) \<Rightarrow> string \<Rightarrow> AcquisitionSet \<times> 'w \<Rightarrow>
   AcquisitionOutcome \<times> AcquisitionSet \<times> 'w" where
  "consume_token read source st =
     (let (s, w) = st in
      if source \<in> set (aq_consumed s) then
        (Token_error Token_already_consumed
           (template [''the '', epoch_text (aq_epoch s), '' token for '', source,
              '' was already consumed; no host read is performed'']), s, w)
      else if source \<notin> set (aq_remaining s) then
        (Token_error Source_not_declared
           (template [source, '' is not a declared source of this run'', [CHR 0x27], ''s '', epoch_text (aq_epoch s),
              '' epoch'']), s, w)
      else
        let s1 = s\<lparr>aq_remaining := removeAll source (aq_remaining s),
                   aq_consumed := aq_consumed s @ [source]\<rparr> in
        (case read source w of
           (Read_ok from_source bytes, w1) \<Rightarrow> (Acquired_value (Bytes_ok from_source bytes), s1, w1)
         | (Read_failed from_source failure, w1) \<Rightarrow>
             (Acquired_value (Bytes_failed from_source failure), s1, w1)
         | (Read_threw message, w1) \<Rightarrow>
             (Acquired_value (Bytes_failed source
                (template [''the authority source threw: '', message])), s1, w1)
         | (Read_interrupted, w1) \<Rightarrow> (Acquisition_interrupted, s1, w1)))"

section \<open>Epochs\<close>

record 'w EpochHost =
  eh_read :: "string \<Rightarrow> 'w \<Rightarrow> read_answer \<times> 'w"
  eh_journal :: "JournaledAcquisition \<Rightarrow> 'w \<Rightarrow> bool \<times> 'w"
  eh_stop :: "'w \<Rightarrow> string option"

text \<open>The captured snapshots by source name, and how an epoch ends.\<close>

record EpochSnapshots =
  eps_profile :: "ExecutionProfile Captured option"
  eps_path_policy :: "PathPolicy Captured option"
  eps_gate_registry :: "GateRegistry Captured option"

datatype EpochFailure =
    Epoch_fault string string
  | Epoch_token AcquisitionErrorKind string AcquisitionEpoch string
  | Capture_refused string Refusal

datatype EpochResult =
    Epoch_ok EpochSnapshots "AuthorityBytes list"
  | Epoch_failed EpochFailure
  | Epoch_threw

definition no_snapshots :: EpochSnapshots where
  "no_snapshots = \<lparr>eps_profile = None, eps_path_policy = None, eps_gate_registry = None\<rparr>"

text \<open>The declared sources, each with the contract it must satisfy.\<close>

datatype AuthoritySourceName = Profile_source | Path_policy_source | Gate_registry_source

fun source_text :: "AuthoritySourceName \<Rightarrow> string" where
  "source_text Profile_source = ''profile''"
| "source_text Path_policy_source = ''path_policy''"
| "source_text Gate_registry_source = ''gate_registry''"

definition keep_capture ::
  "string \<Rightarrow> 'd CapturedAuthority + string \<times> string \<Rightarrow> ('d Captured \<Rightarrow> EpochSnapshots) \<Rightarrow>
   EpochFailure + EpochSnapshots" where
  "keep_capture name capture store =
     (case capture of
        Inr (source, detail) \<Rightarrow> Inl (Epoch_fault source detail)
      | Inl (Captured_refused _ r) \<Rightarrow> Inl (Capture_refused name r)
      | Inl (Captured_ok c) \<Rightarrow> Inr (store c))"

fun capture_source ::
  "Platform \<Rightarrow> AuthoritySourceName \<Rightarrow> AuthorityBytes \<Rightarrow> EpochSnapshots \<Rightarrow> EpochFailure + EpochSnapshots" where
  "capture_source v Profile_source bytes snaps =
     keep_capture ''profile'' (capture_profile v bytes) (\<lambda>c. snaps\<lparr>eps_profile := Some c\<rparr>)"
| "capture_source v Path_policy_source bytes snaps =
     keep_capture ''path_policy'' (capture_policy v bytes) (\<lambda>c. snaps\<lparr>eps_path_policy := Some c\<rparr>)"
| "capture_source v Gate_registry_source bytes snaps =
     keep_capture ''gate_registry'' (capture_registry v bytes) (\<lambda>c. snaps\<lparr>eps_gate_registry := Some c\<rparr>)"

fun bytes_failure :: "AuthorityBytes \<Rightarrow> string option" where
  "bytes_failure (Bytes_ok _ _) = None"
| "bytes_failure (Bytes_failed _ failure) = Some failure"
| "bytes_failure Bytes_unestablished = None"

definition acquired_entry :: "AcquisitionEpoch \<Rightarrow> AuthoritySourceName \<Rightarrow> AuthorityBytes \<Rightarrow> JournaledAcquisition" where
  "acquired_entry epoch name bytes =
     \<lparr>ja_epoch = epoch, ja_source = source_text name,
      ja_outcome = (if bytes_failure bytes = None then Acquired else Acquisition_failed),
      ja_detail = bytes_failure bytes\<rparr>"

fun epoch_loop ::
  "Platform \<Rightarrow> 'w EpochHost \<Rightarrow> AuthoritySourceName list \<Rightarrow> EpochSnapshots \<Rightarrow> AuthorityBytes list \<Rightarrow>
   AcquisitionSet \<times> 'w \<Rightarrow> EpochResult \<times> AcquisitionSet \<times> 'w" where
  "epoch_loop v host [] snaps vals (s, w) =
     (case eh_stop host w of
        Some after \<Rightarrow> (Epoch_failed (Epoch_fault ''epoch'' after), s, w)
      | None \<Rightarrow> (Epoch_ok snaps vals, s, w))"
| "epoch_loop v host (name # names) snaps vals (s, w) =
     (case eh_stop host w of
        Some stop \<Rightarrow> (Epoch_failed (Epoch_fault (source_text name) stop), s, w)
      | None \<Rightarrow>
          (case consume_token (eh_read host) (source_text name) (s, w) of
             (Acquisition_interrupted, s1, w1) \<Rightarrow> (Epoch_threw, s1, w1)
           | (Token_error kind detail, s1, w1) \<Rightarrow>
               (case eh_journal host
                   \<lparr>ja_epoch = aq_epoch s, ja_source = source_text name, ja_outcome = Refused_token,
                    ja_detail = Some detail\<rparr> w1 of
                  (False, w2) \<Rightarrow> (Epoch_threw, s1, w2)
                | (True, w2) \<Rightarrow>
                    (Epoch_failed (Epoch_token kind (source_text name) (aq_epoch s) detail), s1, w2))
           | (Acquired_value bytes, s1, w1) \<Rightarrow>
               (case eh_journal host (acquired_entry (aq_epoch s) name bytes) w1 of
                  (False, w2) \<Rightarrow> (Epoch_threw, s1, w2)
                | (True, w2) \<Rightarrow>
                    (case capture_source v name bytes snaps of
                       Inl failure \<Rightarrow> (Epoch_failed failure, s1, w2)
                     | Inr snaps1 \<Rightarrow> epoch_loop v host names snaps1 (vals @ [bytes]) (s1, w2)))))"

definition runEpoch ::
  "Platform \<Rightarrow> 'w EpochHost \<Rightarrow> AuthoritySourceName list \<Rightarrow> AcquisitionSet \<times> 'w \<Rightarrow>
   EpochResult \<times> AcquisitionSet \<times> 'w" where
  "runEpoch v host required st = epoch_loop v host required no_snapshots [] st"

definition describeEpochFailure :: "EpochFailure \<Rightarrow> string" where
  "describeEpochFailure failure =
     (case failure of
        Capture_refused source r \<Rightarrow>
          template [source, '' is not valid authority: '', refusal_code_text (rf_code r), '' '', em_dash, '' '',
            rf_detail r]
      | Epoch_token kind source epoch detail \<Rightarrow>
          template [case kind of Token_already_consumed \<Rightarrow> ''token_already_consumed''
                      | Source_not_declared \<Rightarrow> ''source_not_declared'',
            '' for '', source, '' in the '', epoch_text epoch, '' epoch: '', detail]
      | Epoch_fault source detail \<Rightarrow> template [''acquisition failed for '', source, '': '', detail])"

section \<open>A token is spent once\<close>

text \<open>A host that records its reads: the state is the list of sources read so far.\<close>

definition recording :: "(string \<Rightarrow> read_answer) \<Rightarrow> string \<Rightarrow> string list \<Rightarrow> read_answer \<times> string list" where
  "recording answer source reads = (answer source, reads @ [source])"

definition wf_set :: "string list \<Rightarrow> AcquisitionSet \<times> string list \<Rightarrow> bool" where
  "wf_set sources st \<longleftrightarrow>
     distinct (aq_consumed (fst st)) \<and> snd st = aq_consumed (fst st) \<and>
     set (aq_remaining (fst st)) = set sources - set (aq_consumed (fst st)) \<and>
     set (aq_consumed (fst st)) \<subseteq> set sources"

lemma wf_set_consume:
  assumes "wf_set sources st"
  shows "wf_set sources (snd (consume_token (recording answer) source st))"
proof -
  obtain s w where st: "st = (s, w)" by (rule prod.exhaust)
  have w: "distinct (aq_consumed s)" "w = aq_consumed s"
    "set (aq_remaining s) = set sources - set (aq_consumed s)" "set (aq_consumed s) \<subseteq> set sources"
    using assms by (auto simp: wf_set_def st)
  show ?thesis
  proof (cases "source \<in> set (aq_consumed s) \<or> source \<notin> set (aq_remaining s)")
    case True
    then show ?thesis using assms by (auto simp: consume_token_def st)
  next
    case False
    then have src: "source \<in> set sources" using w(3) by auto
    let ?s1 = "s\<lparr>aq_remaining := removeAll source (aq_remaining s), aq_consumed := aq_consumed s @ [source]\<rparr>"
    have "snd (consume_token (recording answer) source st) = (?s1, w @ [source])"
      using False by (cases "answer source") (simp_all add: consume_token_def st recording_def)
    then show ?thesis using w src False by (auto simp: wf_set_def)
  qed
qed

definition consume_many ::
  "(string \<Rightarrow> read_answer) \<Rightarrow> string list \<Rightarrow> AcquisitionSet \<times> string list \<Rightarrow> AcquisitionSet \<times> string list" where
  "consume_many answer attempts st =
     fold (\<lambda>source st. snd (consume_token (recording answer) source st)) attempts st"

lemma wf_set_many: "wf_set sources st \<Longrightarrow> wf_set sources (consume_many answer attempts st)"
  unfolding consume_many_def by (induction attempts arbitrary: st) (auto simp: wf_set_consume)

text \<open>
  C32: A token is spent at most once. However often and in whatever order a run asks for its
  sources, and whatever the host answers (a throw included), every source is read at most once
  and no undeclared source is read; the sources read are exactly the tokens consumed, and a
  token is outstanding exactly while its source was not read.
\<close>

theorem every_source_is_read_at_most_once:
  "distinct (snd (consume_many answer attempts (new_set epoch sources, []))) \<and>
   set (snd (consume_many answer attempts (new_set epoch sources, []))) \<subseteq> set sources \<and>
   aq_consumed (fst (consume_many answer attempts (new_set epoch sources, []))) =
     snd (consume_many answer attempts (new_set epoch sources, [])) \<and>
   set (aq_remaining (fst (consume_many answer attempts (new_set epoch sources, [])))) =
     set sources - set (snd (consume_many answer attempts (new_set epoch sources, [])))"
proof -
  have "wf_set sources (new_set epoch sources, [])" by (simp add: wf_set_def new_set_def)
  from wf_set_many[OF this, of answer attempts] show ?thesis by (auto simp: wf_set_def)
qed

section \<open>What an epoch establishes\<close>

text \<open>The snapshots kept so far come from the values acquired so far, name by name.\<close>

definition snapshots_from ::
  "Platform \<Rightarrow> (AuthoritySourceName \<times> AuthorityBytes) list \<Rightarrow> EpochSnapshots \<Rightarrow> bool" where
  "snapshots_from v acquired snaps \<longleftrightarrow>
     (\<forall>c. eps_profile snaps = Some c \<longrightarrow>
        (\<exists>b. (Profile_source, b) \<in> set acquired \<and> capture_profile v b = Inl (Captured_ok c))) \<and>
     (\<forall>c. eps_path_policy snaps = Some c \<longrightarrow>
        (\<exists>b. (Path_policy_source, b) \<in> set acquired \<and> capture_policy v b = Inl (Captured_ok c))) \<and>
     (\<forall>c. eps_gate_registry snaps = Some c \<longrightarrow>
        (\<exists>b. (Gate_registry_source, b) \<in> set acquired \<and> capture_registry v b = Inl (Captured_ok c))) \<and>
     (Profile_source \<in> fst ` set acquired \<longrightarrow> eps_profile snaps \<noteq> None) \<and>
     (Path_policy_source \<in> fst ` set acquired \<longrightarrow> eps_path_policy snaps \<noteq> None) \<and>
     (Gate_registry_source \<in> fst ` set acquired \<longrightarrow> eps_gate_registry snaps \<noteq> None)"

lemma keep_capture_Inr [simp]:
  "keep_capture name capture store = Inr snaps \<longleftrightarrow>
   (\<exists>c. capture = Inl (Captured_ok c) \<and> snaps = store c)"
  by (auto simp: keep_capture_def split: sum.splits CapturedAuthority.splits)

lemma capture_source_from:
  assumes "snapshots_from v acquired snaps" and "capture_source v name bytes snaps = Inr snaps1"
  shows "snapshots_from v (acquired @ [(name, bytes)]) snaps1"
  using assms by (cases name) (auto simp: snapshots_from_def simp del: captureAuthority.simps)

text \<open>One round of a loop that goes on.\<close>

lemma epoch_round:
  assumes "epoch_loop v host (name # names) snaps vals (s, w) = (Epoch_ok snaps' vals', st')"
  obtains bytes s1 w1 w2 snaps1 where
    "eh_stop host w = None"
    "consume_token (eh_read host) (source_text name) (s, w) = (Acquired_value bytes, s1, w1)"
    "eh_journal host (acquired_entry (aq_epoch s) name bytes) w1 = (True, w2)"
    "capture_source v name bytes snaps = Inr snaps1"
    "epoch_loop v host names snaps1 (vals @ [bytes]) (s1, w2) = (Epoch_ok snaps' vals', st')"
proof -
  obtain o1 s1 w1 where con: "consume_token (eh_read host) (source_text name) (s, w) = (o1, s1, w1)"
    by (rule prod_cases3)
  have go: "eh_stop host w = None" using assms by (auto split: option.splits)
  obtain bytes where o1: "o1 = Acquired_value bytes"
    using assms go con by (cases o1) (auto split: prod.splits bool.splits)
  obtain ok w2 where j: "eh_journal host (acquired_entry (aq_epoch s) name bytes) w1 = (ok, w2)"
    by (rule prod.exhaust)
  have ok: "ok" using assms go con o1 j by (cases ok) auto
  obtain snaps1 where cap: "capture_source v name bytes snaps = Inr snaps1"
    using assms go con o1 j ok by (cases "capture_source v name bytes snaps") auto
  have "epoch_loop v host names snaps1 (vals @ [bytes]) (s1, w2) = (Epoch_ok snaps' vals', st')"
    using assms go con o1 j ok cap by simp
  with go con o1 j ok cap that show thesis by simp
qed

lemma epoch_loop_ok:
  assumes "epoch_loop v host names snaps vals (s, w) = (Epoch_ok snaps' vals', st')"
    and "snapshots_from v acquired snaps" and "map snd acquired = vals"
  shows "\<exists>acquired'. snapshots_from v acquired' snaps' \<and> map snd acquired' = vals' \<and>
    map fst acquired' = map fst acquired @ names \<and> eh_stop host (snd st') = None"
  using assms
proof (induction names arbitrary: snaps vals s w acquired)
  case Nil
  then show ?case by (auto split: option.splits)
next
  case (Cons name names)
  from Cons.prems(1) obtain bytes s1 w1 w2 snaps1 where r:
    "capture_source v name bytes snaps = Inr snaps1"
    "epoch_loop v host names snaps1 (vals @ [bytes]) (s1, w2) = (Epoch_ok snaps' vals', st')"
    by (rule epoch_round)
  from Cons.IH[OF r(2) capture_source_from[OF Cons.prems(2) r(1)]] Cons.prems(3)
  show ?case by auto
qed

text \<open>
  An epoch that succeeds established every source it requires: the snapshots are captures
  of the bytes it acquired, source by source, in the required order, none of them refused and
  none faulty, and the run still owns itself after the last acquisition was journaled.
\<close>

theorem successful_epoch_captured_every_source:
  assumes "runEpoch v host required (s, w) = (Epoch_ok snaps vals, st')"
  shows "\<exists>acquired. snapshots_from v acquired snaps \<and> map fst acquired = required \<and>
    map snd acquired = vals \<and> eh_stop host (snd st') = None"
proof -
  have "snapshots_from v [] no_snapshots" by (simp add: snapshots_from_def no_snapshots_def)
  from epoch_loop_ok[OF assms[unfolded runEpoch_def] this] show ?thesis by auto
qed

section \<open>The trace of an epoch\<close>

text \<open>
  A host whose state is what happened: reads and journal entries in order. What it answers,
  whether an append throws and whether the run is lost are functions of that history.
\<close>

datatype epoch_event = Read_source string | Journal_entry JournaledAcquisition

definition tracing ::
  "(epoch_event list \<Rightarrow> string \<Rightarrow> read_answer) \<Rightarrow> (epoch_event list \<Rightarrow> bool) \<Rightarrow>
   (epoch_event list \<Rightarrow> string option) \<Rightarrow> epoch_event list EpochHost" where
  "tracing answer appends stop =
     \<lparr>eh_read = (\<lambda>source w. (answer w source, w @ [Read_source source])),
      eh_journal = (\<lambda>entry w. (appends w, w @ [Journal_entry entry])),
      eh_stop = stop\<rparr>"

text \<open>
  The histories the code may produce from \<open>w\<close> on: a source is read only while the run is not
  lost, and every read is journaled, under its own source, before the next one.
\<close>

fun well_traced :: "(epoch_event list \<Rightarrow> string option) \<Rightarrow> epoch_event list \<Rightarrow> epoch_event list \<Rightarrow> bool" where
  "well_traced stop w [] = True"
| "well_traced stop w [Read_source n] = (stop w = None)"
| "well_traced stop w (Read_source n # Journal_entry e # rest) =
     (stop w = None \<and> ja_source e = n \<and> ja_outcome e \<noteq> Refused_token \<and>
      well_traced stop (w @ [Read_source n, Journal_entry e]) rest)"
| "well_traced stop w (Read_source n # Read_source n' # rest) = False"
| "well_traced stop w (Journal_entry e # rest) =
     (stop w = None \<and> ja_outcome e = Refused_token \<and> rest = [])"

lemma consume_tracing:
  assumes "consume_token (eh_read (tracing answer appends stop)) source (s, w) = (out, s1, w1)"
  shows "(case out of Token_error _ _ \<Rightarrow> w1 = w | _ \<Rightarrow> w1 = w @ [Read_source source])"
  using assms
  by (auto simp: consume_token_def tracing_def Let_def split: if_splits read_answer.splits)

lemma epoch_loop_traced:
  assumes "epoch_loop v (tracing answer appends stop) names snaps vals (s, w) = (result, s', w')"
  shows "\<exists>ext. w' = w @ ext \<and> well_traced stop w ext"
  using assms
proof (induction names arbitrary: snaps vals s w)
  case Nil
  then show ?case by (auto simp: tracing_def split: option.splits)
next
  case (Cons name names)
  let ?host = "tracing answer appends stop"
  have host: "eh_stop ?host = stop" "\<And>e u. eh_journal ?host e u = (appends u, u @ [Journal_entry e])"
    by (simp_all add: tracing_def)
  obtain out s1 w1 where con: "consume_token (eh_read ?host) (source_text name) (s, w) = (out, s1, w1)"
    by (rule prod_cases3)
  note tr = consume_tracing[OF con]
  show ?case
  proof (cases "stop w")
    case (Some r)
    then show ?thesis using Cons.prems host by simp
  next
    case go: None
    show ?thesis
    proof (cases out)
      case (Acquired_value bytes)
      let ?e = "acquired_entry (aq_epoch s) name bytes"
      have w1: "w1 = w @ [Read_source (source_text name)]" using tr Acquired_value by simp
      have e: "ja_source ?e = source_text name \<and> ja_outcome ?e \<noteq> Refused_token"
        by (simp add: acquired_entry_def)
      show ?thesis
      proof (cases "appends w1 \<and> (\<exists>snaps1. capture_source v name bytes snaps = Inr snaps1)")
        case True
        then obtain snaps1 where "capture_source v name bytes snaps = Inr snaps1" by blast
        then have "epoch_loop v ?host names snaps1 (vals @ [bytes]) (s1, w1 @ [Journal_entry ?e]) = (result, s', w')"
          using Cons.prems go con Acquired_value host True by simp
        from Cons.IH[OF this] obtain ext where "w' = (w1 @ [Journal_entry ?e]) @ ext"
          "well_traced stop (w1 @ [Journal_entry ?e]) ext" by blast
        then show ?thesis using w1 go e
          by (intro exI[of _ "Read_source (source_text name) # Journal_entry ?e # ext"]) simp
      next
        case False
        then have "w' = w1 @ [Journal_entry ?e]"
          using Cons.prems go con Acquired_value host
          by (cases "capture_source v name bytes snaps") (auto split: bool.splits)
        then show ?thesis using w1 go e
          by (intro exI[of _ "[Read_source (source_text name), Journal_entry ?e]"]) simp
      qed
    next
      case (Token_error kind detail)
      then have "w1 = w" using tr by simp
      then show ?thesis
        using Cons.prems go con Token_error host by (auto split: bool.splits)
    next
      case Acquisition_interrupted
      then have "w' = w @ [Read_source (source_text name)]" using Cons.prems go con host tr by simp
      then show ?thesis using go by (intro exI[of _ "[Read_source (source_text name)]"]) simp
    qed
  qed
qed

text \<open>
  An epoch never reads ahead of its record. In every history of an epoch, whatever the
  host answers and whenever the run is lost, each source is read only while the run is known to
  be owned, and its acquisition is journaled before the next source is read.
\<close>

theorem epoch_history_is_well_traced:
  "well_traced stop []
     (snd (snd (runEpoch v (tracing answer appends stop) required (new_set epoch sources, []))))"
proof -
  obtain result s' w' where
    r: "runEpoch v (tracing answer appends stop) required (new_set epoch sources, []) = (result, s', w')"
    by (rule prod_cases3)
  from epoch_loop_traced[OF r[unfolded runEpoch_def]] show ?thesis by (auto simp: r)
qed

text \<open>An epoch to evaluate.\<close>

definition sample_host :: "epoch_event list EpochHost" where
  "sample_host =
     tracing (\<lambda>_ source. Read_ok source
       (if source = ''profile'' then ''execution-profile'' else ''path-policy'')) (\<lambda>_. True) (\<lambda>_. None)"

lemma successful_epoch_captured_every_source_witness:
  "\<exists>snaps vals st' acquired.
     runEpoch (sample_platform sample_sha) sample_host [Profile_source, Path_policy_source]
       (new_set Production [''profile'', ''path_policy''], []) = (Epoch_ok snaps vals, st') \<and>
     map fst acquired = [Profile_source, Path_policy_source] \<and> map snd acquired = vals \<and>
     snapshots_from (sample_platform sample_sha) acquired snaps"
proof -
  obtain snaps vals st' where r:
    "runEpoch (sample_platform sample_sha) sample_host [Profile_source, Path_policy_source]
       (new_set Production [''profile'', ''path_policy''], []) = (Epoch_ok snaps vals, st')"
  proof -
    have "(case fst (runEpoch (sample_platform sample_sha) sample_host [Profile_source, Path_policy_source]
       (new_set Production [''profile'', ''path_policy''], [])) of Epoch_ok _ _ \<Rightarrow> True | _ \<Rightarrow> False)"
      by code_simp
    then show thesis using that by (metis EpochResult.case(2,3) EpochResult.exhaust prod.collapse)
  qed
  from successful_epoch_captured_every_source[OF r] obtain acquired where a:
    "snapshots_from (sample_platform sample_sha) acquired snaps \<and>
     map fst acquired = [Profile_source, Path_policy_source] \<and> map snd acquired = vals \<and>
     eh_stop sample_host (snd st') = None"
    by (rule exE)
  show ?thesis
    by (rule exI[of _ snaps], rule exI[of _ vals], rule exI[of _ st'], rule exI[of _ acquired])
      (use r a in simp)
qed

end
