(* ===== verification/Scheduling.thy ===== *)
theory Scheduling
  imports Contracts
begin

text \<open>
  Gate scheduling and consent of \<^verbatim>\<open>services/runner-control/src\<close>: the plan over a captured
  registry (\<^verbatim>\<open>scheduling/plan.ts\<close>), the keyed recorder of dispositions
  (\<^verbatim>\<open>scheduling/dispositions.ts\<close>), the loop that runs the gates (\<^verbatim>\<open>orchestration/gates.ts\<close>), and
  the spend decision (\<^verbatim>\<open>consent/index.ts\<close>).

  The execution port is a function that answers a gate and returns the rest of the world, or
  throws.
\<close>

section \<open>The plan\<close>

text \<open>
  \<^verbatim>\<open>registry.gates[id]\<close> reads the object and what it inherits, so a member name of the object
  prototype yields a value that is no gate specification.
\<close>

datatype planned_spec = Declared_spec GateSpec | Inherited_value

record PlannedGate =
  pg_gate_id :: string
  pg_spec :: planned_spec

datatype PlanResult = Plan "PlannedGate list" | Unknown_gates "string list"

definition registry_gate :: "GateRegistry \<Rightarrow> string \<Rightarrow> planned_spec option" where
  "registry_gate registry gate_id =
     (case map_of (gr_gates registry) gate_id of
        Some spec \<Rightarrow> Some (Declared_spec spec)
      | None \<Rightarrow> if gate_id \<in> set inherited_members then Some Inherited_value else None)"

fun plan_loop :: "GateRegistry \<Rightarrow> string list \<Rightarrow> PlannedGate list \<times> string list" where
  "plan_loop registry [] = ([], [])"
| "plan_loop registry (gate_id # requested) =
     (let (plan, unknown) = plan_loop registry requested in
      case registry_gate registry gate_id of
        None \<Rightarrow> (plan, gate_id # unknown)
      | Some spec \<Rightarrow> (\<lparr>pg_gate_id = gate_id, pg_spec = spec\<rparr> # plan, unknown))"

definition buildPlan :: "GateRegistry \<Rightarrow> string list \<Rightarrow> PlanResult" where
  "buildPlan registry requested =
     (let (plan, unknown) = plan_loop registry requested in
      if unknown \<noteq> [] then Unknown_gates unknown else Plan plan)"

section \<open>Dispositions\<close>

datatype GateReport =
    Gate_passed
  | Gate_failed string bool
  | Declared_skip string
  | Toolchain_unavailable string
  | Environmental_fault string
  | Gate_stale_fence string

fun toDisposition :: "GateReport \<Rightarrow> GateOutcome option" where
  "toDisposition Gate_passed =
     Some \<lparr>go_disposition = PASS, go_truncated = False, go_reason = None\<rparr>"
| "toDisposition (Gate_failed reason truncated) =
     Some \<lparr>go_disposition = FAIL, go_truncated = truncated, go_reason = Some reason\<rparr>"
| "toDisposition (Declared_skip reason) =
     Some \<lparr>go_disposition = SKIP_OK, go_truncated = False, go_reason = Some reason\<rparr>"
| "toDisposition (Toolchain_unavailable reason) =
     Some \<lparr>go_disposition = SKIP_ENV, go_truncated = False, go_reason = Some reason\<rparr>"
| "toDisposition (Environmental_fault _) = None"
| "toDisposition (Gate_stale_fence _) = None"

fun disposition_text :: "GateDisposition \<Rightarrow> string" where
  "disposition_text PASS = ''PASS''"
| "disposition_text FAIL = ''FAIL''"
| "disposition_text SKIP_OK = ''SKIP_OK''"
| "disposition_text SKIP_ENV = ''SKIP_ENV''"

datatype DispositionErrorKind = Duplicate_disposition | Gate_not_scheduled

datatype RecordOutcome = Recorded | Record_refused DispositionErrorKind string string

record DispositionRecorder =
  dr_scheduled :: "string list"
  dr_results :: GateResults

definition new_recorder :: "string list \<Rightarrow> DispositionRecorder" where
  "new_recorder scheduled = \<lparr>dr_scheduled = set_of_list scheduled, dr_results = []\<rparr>"

definition outstanding :: "DispositionRecorder \<Rightarrow> string list" where
  "outstanding r = filter (\<lambda>i. map_of (dr_results r) i = None) (dr_scheduled r)"

definition record_disposition ::
  "string \<Rightarrow> GateOutcome \<Rightarrow> DispositionRecorder \<Rightarrow> RecordOutcome \<times> DispositionRecorder" where
  "record_disposition gate_id out r =
     (if gate_id \<notin> set (dr_scheduled r) then
        (Record_refused Gate_not_scheduled gate_id
           (template [gate_id, '' was not scheduled for this run; an unscheduled result is never recorded'']), r)
      else
        (case map_of (dr_results r) gate_id of
           Some existing \<Rightarrow>
             (Record_refused Duplicate_disposition gate_id
                (template [gate_id, '' already has the terminal disposition '',
                   disposition_text (go_disposition existing), ''; the first is preserved'']), r)
         | None \<Rightarrow> (Recorded, r\<lparr>dr_results := dr_results r @ [(gate_id, out)]\<rparr>)))"

section \<open>Running the gates\<close>

datatype gate_answer = Answered GateReport | Gate_call_threw

datatype GateRun =
    Gates_passed DispositionRecorder
  | Gates_unknown string
  | Gates_faulted string DispositionRecorder
  | Gates_stale string
  | Gates_threw

text \<open>
  The loop: the state is the gate results of the run's terminal evidence and the world behind
  the execution port.
\<close>

fun gate_loop ::
  "(string \<Rightarrow> planned_spec \<Rightarrow> 'w \<Rightarrow> gate_answer \<times> 'w) \<Rightarrow> PlannedGate list \<Rightarrow> DispositionRecorder \<Rightarrow>
   GateResults \<times> 'w \<Rightarrow> GateRun \<times> GateResults \<times> 'w" where
  "gate_loop port [] r (evidence, w) = (Gates_passed r, evidence, w)"
| "gate_loop port (entry # plan) r (evidence, w) =
     (case port (pg_gate_id entry) (pg_spec entry) w of
        (Gate_call_threw, w1) \<Rightarrow> (Gates_threw, evidence, w1)
      | (Answered report, w1) \<Rightarrow>
          (case report of
             Gate_stale_fence detail \<Rightarrow> (Gates_stale detail, evidence, w1)
           | _ \<Rightarrow>
          (case toDisposition report of
             None \<Rightarrow>
               (Gates_faulted
                  (template [''gate '', pg_gate_id entry, '' could not be run: '',
                     (case report of Environmental_fault detail \<Rightarrow> detail | _ \<Rightarrow> ''environmental fault'')])
                  r, evidence, w1)
           | Some disposition \<Rightarrow>
          (case record_disposition (pg_gate_id entry) disposition r of
             (Record_refused _ _ detail, r1) \<Rightarrow> (Gates_faulted detail r1, evidence, w1)
           | (Recorded, r1) \<Rightarrow> gate_loop port plan r1 (dr_results r1, w1)))))"

definition runGates ::
  "(string \<Rightarrow> planned_spec \<Rightarrow> 'w \<Rightarrow> gate_answer \<times> 'w) \<Rightarrow> GateRegistry \<Rightarrow> string list \<Rightarrow>
   GateResults \<times> 'w \<Rightarrow> GateRun \<times> GateResults \<times> 'w" where
  "runGates port registry requested st =
     (case buildPlan registry requested of
        Unknown_gates unknown \<Rightarrow>
          (Gates_unknown (template [''unknown gate identities: '', join '', '' unknown]), st)
      | Plan plan \<Rightarrow> gate_loop port plan (new_recorder (map pg_gate_id plan)) st)"

section \<open>Consent\<close>

record ConsentRecord =
  co_run_id :: string
  co_granted :: bool
  co_by :: string
  co_recorded_at :: string

datatype consent_hold = Consent_absent | Consent_withheld | Consent_for_another_run

datatype SpendGate = Spend_ok | Spend_held consent_hold string

definition decideSpendGate :: "string \<Rightarrow> ConsentRecord option \<Rightarrow> SpendGate" where
  "decideSpendGate run_id consent =
     (case consent of
        None \<Rightarrow>
          Spend_held Consent_absent
            ''no consent record for this run; the run holds at ELIGIBLE without spending''
      | Some c \<Rightarrow>
          if co_run_id c \<noteq> run_id then
            Spend_held Consent_for_another_run
              (template [''the consent record was granted for run '', co_run_id c, '', not '', run_id,
                 ''; consent is not transferable between runs''])
          else if \<not> co_granted c then
            Spend_held Consent_withheld
              (template [''consent was recorded by '', co_by c,
                 '' and withheld; the run holds at ELIGIBLE''])
          else Spend_ok)"

section \<open>The recorder keeps the first disposition\<close>

lemma new_recorder_simps [simp]:
  "dr_results (new_recorder scheduled) = []"
  "set (dr_scheduled (new_recorder scheduled)) = set scheduled"
  by (simp_all add: new_recorder_def)

lemma scheduled_kept [frame_simps]:
  "dr_scheduled (snd (record_disposition g out r)) = dr_scheduled r"
  by (simp add: record_disposition_def split: option.splits)

text \<open>The recorder after a sequence of attempts.\<close>

definition record_attempts :: "(string \<times> GateOutcome) list \<Rightarrow> DispositionRecorder \<Rightarrow> DispositionRecorder" where
  "record_attempts attempts r = fold (\<lambda>(g, out) r. snd (record_disposition g out r)) attempts r"

definition wf_recorder :: "DispositionRecorder \<Rightarrow> bool" where
  "wf_recorder r \<longleftrightarrow>
     distinct (map fst (dr_results r)) \<and> fst ` set (dr_results r) \<subseteq> set (dr_scheduled r)"

lemma wf_recorder_record: "wf_recorder r \<Longrightarrow> wf_recorder (snd (record_disposition g out r))"
  by (auto simp: wf_recorder_def record_disposition_def map_of_eq_None_iff split: option.splits)

lemma lookup_record:
  "map_of (dr_results (snd (record_disposition g out r))) i =
   (if g = i \<and> g \<in> set (dr_scheduled r) \<and> map_of (dr_results r) i = None
    then Some out else map_of (dr_results r) i)"
  by (auto simp: record_disposition_def map_add_def split: option.splits)

lemma record_attempts_invariant:
  "wf_recorder r \<Longrightarrow>
   wf_recorder (record_attempts attempts r) \<and>
   dr_scheduled (record_attempts attempts r) = dr_scheduled r \<and>
   map_of (dr_results (record_attempts attempts r)) i =
     (case map_of (dr_results r) i of
        Some out \<Rightarrow> Some out
      | None \<Rightarrow> if i \<in> set (dr_scheduled r) then map_of attempts i else None)"
proof (induction attempts arbitrary: r)
  case Nil
  then show ?case by (simp add: record_attempts_def split: option.splits)
next
  case (Cons a attempts)
  obtain g out where a: "a = (g, out)" by (rule prod.exhaust)
  let ?r = "snd (record_disposition g out r)"
  have step: "record_attempts (a # attempts) r = record_attempts attempts ?r"
    by (simp add: record_attempts_def a)
  have wf: "wf_recorder ?r" by (rule wf_recorder_record[OF Cons.prems])
  show ?case
    unfolding step using Cons.IH[OF wf] lookup_record[of g out r i]
    by (auto simp: frame_simps a split: option.splits if_splits)
qed

text \<open>
  A gate has one disposition, its first. However a sequence of records repeats,
  reorders or invents gates, the recorder holds for every scheduled gate the first disposition
  recorded for it, for an unscheduled gate nothing, and no gate twice.
\<close>

theorem first_disposition_is_preserved:
  "map_of (dr_results (record_attempts attempts (new_recorder scheduled))) g =
     (if g \<in> set scheduled then map_of attempts g else None) \<and>
   distinct (map fst (dr_results (record_attempts attempts (new_recorder scheduled))))"
proof -
  have "wf_recorder (new_recorder scheduled)" by (simp add: wf_recorder_def)
  from record_attempts_invariant[OF this, of attempts g] show ?thesis
    by (simp add: wf_recorder_def)
qed

section \<open>What a gate run records\<close>

lemma plan_loop_plan:
  "snd (plan_loop registry requested) = [] \<Longrightarrow>
   map pg_gate_id (fst (plan_loop registry requested)) = requested \<and>
   list_all (\<lambda>p. registry_gate registry (pg_gate_id p) = Some (pg_spec p)) (fst (plan_loop registry requested))"
  by (induction requested) (auto simp: Let_def split: prod.splits option.splits)

lemma buildPlan_Plan:
  "buildPlan registry requested = Plan plan \<Longrightarrow>
   map pg_gate_id plan = requested \<and>
   list_all (\<lambda>p. registry_gate registry (pg_gate_id p) = Some (pg_spec p)) plan"
  using plan_loop_plan[of registry requested]
  by (auto simp: buildPlan_def Let_def split: prod.splits if_splits)

text \<open>The answers of the port to a plan, one gate after the other.\<close>

primrec gate_answers ::
  "(string \<Rightarrow> planned_spec \<Rightarrow> 'w \<Rightarrow> gate_answer \<times> 'w) \<Rightarrow> PlannedGate list \<Rightarrow> 'w \<Rightarrow> gate_answer list" where
  "gate_answers port [] w = []"
| "gate_answers port (p # plan) w =
     (let (answer, w1) = port (pg_gate_id p) (pg_spec p) w in answer # gate_answers port plan w1)"

fun disposition_of :: "gate_answer \<Rightarrow> GateOutcome option" where
  "disposition_of (Answered report) = toDisposition report"
| "disposition_of Gate_call_threw = None"

text \<open>How the loop stops at a gate that has no disposition.\<close>

fun gate_stopped :: "string \<Rightarrow> gate_answer \<Rightarrow> DispositionRecorder \<Rightarrow> GateRun" where
  "gate_stopped g Gate_call_threw r = Gates_threw"
| "gate_stopped g (Answered (Gate_stale_fence detail)) r = Gates_stale detail"
| "gate_stopped g (Answered (Environmental_fault detail)) r =
     Gates_faulted (template [''gate '', g, '' could not be run: '', detail]) r"
| "gate_stopped g (Answered _) r =
     Gates_faulted (template [''gate '', g, '' could not be run: '', ''environmental fault'']) r"

lemma gate_loop_step:
  "gate_loop port (entry # plan) r (evidence, w) =
   (case port (pg_gate_id entry) (pg_spec entry) w of
      (answer, w1) \<Rightarrow>
        (case disposition_of answer of
           None \<Rightarrow> (gate_stopped (pg_gate_id entry) answer r, evidence, w1)
         | Some disposition \<Rightarrow>
             (case record_disposition (pg_gate_id entry) disposition r of
                (Record_refused _ _ detail, r1) \<Rightarrow> (Gates_faulted detail r1, evidence, w1)
              | (Recorded, r1) \<Rightarrow> gate_loop port plan r1 (dr_results r1, w1))))"
  by (auto split: prod.splits gate_answer.splits GateReport.splits option.splits RecordOutcome.splits)

declare gate_loop.simps(2) [simp del]

lemma gate_stopped_not_passed [simp]: "gate_stopped g answer r \<noteq> Gates_passed r'"
  by (cases "(g, answer, r)" rule: gate_stopped.cases) auto

lemma recorded_iff:
  "record_disposition g out r = (Recorded, r1) \<longleftrightarrow>
   g \<in> set (dr_scheduled r) \<and> map_of (dr_results r) g = None \<and>
   r1 = r\<lparr>dr_results := dr_results r @ [(g, out)]\<rparr>"
  by (auto simp: record_disposition_def split: option.splits)

lemma gate_loop_passed:
  "list_all (\<lambda>p. pg_gate_id p \<in> set (dr_scheduled r)) plan \<Longrightarrow>
   fst (gate_loop port plan r (evidence, w)) = Gates_passed r' \<longleftrightarrow>
   distinct (map pg_gate_id plan) \<and>
   list_all (\<lambda>p. map_of (dr_results r) (pg_gate_id p) = None) plan \<and>
   (\<exists>outs. map disposition_of (gate_answers port plan w) = map Some outs \<and>
      r' = r\<lparr>dr_results := dr_results r @ zip (map pg_gate_id plan) outs\<rparr>)"
proof (induction plan arbitrary: r evidence w)
  case Nil
  then show ?case by auto
next
  case (Cons p plan)
  obtain answer w1 where port: "port (pg_gate_id p) (pg_spec p) w = (answer, w1)" by (rule prod.exhaust)
  show ?case
  proof (cases "disposition_of answer")
    case None
    then show ?thesis
      by (simp add: gate_loop_step port Cons_eq_map_conv)
  next
    case (Some out)
    obtain res r1 where rec: "record_disposition (pg_gate_id p) out r = (res, r1)" by (rule prod.exhaust)
    show ?thesis
    proof (cases "map_of (dr_results r) (pg_gate_id p)")
      case None
      let ?r1 = "r\<lparr>dr_results := dr_results r @ [(pg_gate_id p, out)]\<rparr>"
      have r: "record_disposition (pg_gate_id p) out r = (Recorded, ?r1)"
        using Cons.prems None by (simp add: recorded_iff)
      have "list_all (\<lambda>p. pg_gate_id p \<in> set (dr_scheduled ?r1)) plan" using Cons.prems by simp
      note IH = Cons.IH[OF this, of "dr_results ?r1" w1]
      have fresh: "list_all (\<lambda>q. map_of (dr_results ?r1) (pg_gate_id q) = None) plan \<longleftrightarrow>
          pg_gate_id p \<notin> set (map pg_gate_id plan) \<and>
          list_all (\<lambda>q. map_of (dr_results r) (pg_gate_id q) = None) plan"
        by (auto simp: list_all_iff map_of_eq_None_iff) (metis imageI)
      have head: "map disposition_of (gate_answers port (p # plan) w) = map Some outs \<longleftrightarrow>
          (\<exists>outs'. outs = out # outs' \<and> map disposition_of (gate_answers port plan w1) = map Some outs')"
        for outs by (cases outs) (auto simp: port Some)
      have ex: "(\<exists>outs. map disposition_of (gate_answers port (p # plan) w) = map Some outs \<and>
             r' = r\<lparr>dr_results := dr_results r @ zip (map pg_gate_id (p # plan)) outs\<rparr>) \<longleftrightarrow>
          (\<exists>outs. map disposition_of (gate_answers port plan w1) = map Some outs \<and>
             r' = ?r1\<lparr>dr_results := dr_results ?r1 @ zip (map pg_gate_id plan) outs\<rparr>)"
        unfolding head by auto
      have "fst (gate_loop port (p # plan) r (evidence, w)) =
          fst (gate_loop port plan ?r1 (dr_results ?r1, w1))"
        by (simp add: gate_loop_step port Some r)
      then show ?thesis
        unfolding ex using IH None unfolding fresh by auto
    next
      case (Some first)
      then have "res \<noteq> Recorded" using rec recorded_iff[of "pg_gate_id p" out r r1] by auto
      then show ?thesis
        using Some \<open>disposition_of answer = Some out\<close>
        by (cases res) (simp_all add: gate_loop_step port rec)
    qed
  qed
qed

text \<open>
  A gate run passes exactly when the registry has every requested gate, no gate
  is requested twice, and every gate was run and reported something that has a disposition; the
  recorder then holds, in the requested order, exactly the disposition of each gate's own
  report. A gate that faulted, was refused or threw never passes, and none is skipped.
\<close>

theorem gate_run_passes_iff:
  "fst (runGates port registry requested (evidence, w)) = Gates_passed r \<longleftrightarrow>
   (\<exists>plan outs. buildPlan registry requested = Plan plan \<and> distinct requested \<and>
      map disposition_of (gate_answers port plan w) = map Some outs \<and>
      r = \<lparr>dr_scheduled = set_of_list requested, dr_results = zip requested outs\<rparr>)"
proof (cases "buildPlan registry requested")
  case (Plan plan)
  have ids: "map pg_gate_id plan = requested" using buildPlan_Plan[OF Plan] by simp
  have "list_all (\<lambda>p. pg_gate_id p \<in> set (dr_scheduled (new_recorder requested))) plan"
    using ids by (auto simp: list_all_iff)
  from gate_loop_passed[OF this, of port evidence w r] show ?thesis
    by (simp add: runGates_def Plan ids new_recorder_def list_all_iff)
qed (simp add: runGates_def)

lemma gate_loop_evidence:
  "\<exists>n. list_all (\<lambda>answer. disposition_of answer \<noteq> None) (take n (gate_answers port plan w)) \<and>
     fst (snd (gate_loop port plan r (evidence, w))) =
       (if n = 0 then evidence
        else dr_results r @
          take n (zip (map pg_gate_id plan) (map (the \<circ> disposition_of) (gate_answers port plan w))))"
proof (induction plan arbitrary: r evidence w)
  case Nil
  then show ?case by (intro exI[of _ 0]) simp
next
  case (Cons p plan)
  obtain answer w1 where port: "port (pg_gate_id p) (pg_spec p) w = (answer, w1)" by (rule prod.exhaust)
  have stopped: ?case if "fst (snd (gate_loop port (p # plan) r (evidence, w))) = evidence"
    using that by (intro exI[of _ 0]) simp
  show ?case
  proof (cases "disposition_of answer")
    case None
    then show ?thesis by (intro stopped) (simp add: gate_loop_step port)
  next
    case (Some out)
    obtain res r1 where rec: "record_disposition (pg_gate_id p) out r = (res, r1)" by (rule prod.exhaust)
    show ?thesis
    proof (cases res)
      case Recorded
      then have r1: "dr_results r1 = dr_results r @ [(pg_gate_id p, out)]"
        using rec by (auto simp: recorded_iff)
      let ?outs = "map (the \<circ> disposition_of) (gate_answers port plan w1)"
      obtain n where n:
        "list_all (\<lambda>answer. disposition_of answer \<noteq> None) (take n (gate_answers port plan w1)) \<and>
         fst (snd (gate_loop port plan r1 (dr_results r1, w1))) =
           (if n = 0 then dr_results r1 else dr_results r1 @ take n (zip (map pg_gate_id plan) ?outs))"
        using Cons.IH[of w1 r1 "dr_results r1"] by (rule exE)
      have "fst (snd (gate_loop port plan r1 (dr_results r1, w1))) =
          dr_results r1 @ take n (zip (map pg_gate_id plan) ?outs)"
        using n by (cases "n = 0") simp_all
      then show ?thesis
        by (intro exI[of _ "Suc n"]) (use n in \<open>simp add: gate_loop_step port Some rec Recorded r1\<close>)
    qed (intro stopped, simp add: gate_loop_step port Some rec)
  qed
qed

text \<open>
  The evidence of a gate run holds only what the gates reported. Whatever ends the
  run of the gates, the gate results of its terminal evidence are the dispositions of the reports
  of the first gates of the plan, in order and under their own gates: no result is invented for
  a gate that faulted, was refused or was never run.
\<close>

theorem evidence_holds_only_reports:
  "case buildPlan registry requested of
     Unknown_gates _ \<Rightarrow> fst (snd (runGates port registry requested ([], w))) = []
   | Plan plan \<Rightarrow>
       \<exists>n. list_all (\<lambda>answer. disposition_of answer \<noteq> None) (take n (gate_answers port plan w)) \<and>
         fst (snd (runGates port registry requested ([], w))) =
           take n (zip requested (map (the \<circ> disposition_of) (gate_answers port plan w)))"
proof (cases "buildPlan registry requested")
  case (Plan plan)
  have ids: "map pg_gate_id plan = requested" using buildPlan_Plan[OF Plan] by simp
  obtain n where
    "list_all (\<lambda>answer. disposition_of answer \<noteq> None) (take n (gate_answers port plan w)) \<and>
     fst (snd (gate_loop port plan (new_recorder requested) ([], w))) =
       (if n = 0 then []
        else dr_results (new_recorder requested) @
          take n (zip (map pg_gate_id plan) (map (the \<circ> disposition_of) (gate_answers port plan w))))"
    using gate_loop_evidence[of port plan w "new_recorder requested" "[]"] by (rule exE)
  then show ?thesis by (cases "n = 0") (auto simp: runGates_def Plan ids intro!: exI[of _ n])
qed (simp add: runGates_def)

section \<open>Consent gates the spend\<close>

text \<open>
  The run may spend exactly when consent was granted for this very run; a withheld
  consent or one granted for another run holds it.
\<close>

theorem spend_needs_consent_for_this_run:
  "decideSpendGate run_id consent = Spend_ok \<longleftrightarrow>
   (\<exists>c. consent = Some c \<and> co_run_id c = run_id \<and> co_granted c)"
  by (auto simp: decideSpendGate_def split: option.splits)

end
