(* ===== verification/Records.thy ===== *)
theory Records
  imports Evidence Lifecycle
begin

text \<open>
  The governed records of a run and the order of its writes:
  \<^verbatim>\<open>services/runner-control/src/finalization/records.ts\<close> (outcome, early-termination record,
  evidence bundle, execution principal) and \<^verbatim>\<open>finalization/index.ts\<close> (the write ledger that
  admits the seal last).

  Parameter: \<open>date_ms\<close>, \<^verbatim>\<open>Date.parse\<close> in milliseconds, \<open>None\<close> where it is not a number.
\<close>

section \<open>Outcomes\<close>

definition outcomeFor :: "LifecycleState \<Rightarrow> string \<Rightarrow> RunOutcome" where
  "outcomeFor state detail =
     (case state of
        Terminal COMPLETED \<Rightarrow> CompletedOutcome
      | Terminal REFUSED \<Rightarrow> RefusedOutcome detail
      | Terminal OPERATIONAL_FAILURE \<Rightarrow> OperationalFailureOutcome detail
      | Terminal CANCELLED \<Rightarrow> CancelledOutcome detail
      | Terminal TIMED_OUT \<Rightarrow> TimedOutOutcome detail
      | Terminal INDETERMINATE \<Rightarrow> IndeterminateOutcome detail
      | _ \<Rightarrow>
          IndeterminateOutcome
            (template [''the run'', [CHR 0x27], ''s terminal state could not be established from '',
               state_text state, '': '', detail]))"

definition timingOf :: "(string \<Rightarrow> int option) \<Rightarrow> string \<Rightarrow> string \<Rightarrow> EvidenceTiming" where
  "timingOf date_ms started_at finished_at =
     \<lparr>et_started_at = started_at, et_finished_at = finished_at,
      et_duration_milliseconds =
        (case (date_ms finished_at, date_ms started_at) of
           (Some f, Some s) \<Rightarrow> if f - s > 0 then f - s else 0
         | _ \<Rightarrow> 0)\<rparr>"

section \<open>The early-termination record\<close>

record EarlyTerminationInputs =
  eti_run_id :: string
  eti_requester :: Principal
  eti_requested_profile :: "ProfileRef option"
  eti_state :: LifecycleState
  eti_detail :: string
  eti_started_at :: string
  eti_finished_at :: string

datatype 'r RecordResult = Record_ok 'r | Record_failed string

definition early_candidate ::
  "(string \<Rightarrow> int option) \<Rightarrow> EarlyTerminationInputs \<Rightarrow> EarlyTerminationRecord" where
  "early_candidate date_ms inputs =
     \<lparr>etr_contract_id = ''early-termination-record'', etr_contract_version = ''1.0.0'',
      etr_run_id = eti_run_id inputs, etr_requester = eti_requester inputs,
      etr_requested_profile = eti_requested_profile inputs,
      etr_outcome = outcomeFor (eti_state inputs) (eti_detail inputs),
      etr_timing = timingOf date_ms (eti_started_at inputs) (eti_finished_at inputs)\<rparr>"

definition buildEarlyTerminationRecord ::
  "(string \<Rightarrow> bool) \<Rightarrow> (EarlyTerminationRecord \<Rightarrow> Issue list) \<Rightarrow> (string \<Rightarrow> int option) \<Rightarrow>
   EarlyTerminationInputs \<Rightarrow> EarlyTerminationRecord RecordResult" where
  "buildEarlyTerminationRecord datetime report date_ms inputs =
     (if terminal_state (outcomeFor (eti_state inputs) (eti_detail inputs)) = COMPLETED then
        Record_failed ''a successful terminal has no early-termination record; the vocabulary omits it''
      else
        let candidate = early_candidate date_ms inputs in
        if valid_EarlyTerminationRecord datetime candidate then Record_ok candidate
        else Record_failed (issues_text (report candidate)))"

section \<open>The evidence of a run\<close>

record EvidenceAssemblyInputs =
  eai_snapshots :: EvidenceSnapshots
  eai_run_id :: string
  eai_principal :: Principal
  eai_adapter :: string
  eai_terminal :: LifecycleState
  eai_detail :: string
  eai_gate_results :: GateResults
  eai_operations :: EvidenceOperations
  eai_observed :: "ObservedChange list"
  eai_artifacts :: ArtifactObservation
  eai_reconciliation :: Reconciliation
  eai_started_at :: string
  eai_finished_at :: string

datatype assembly_failure = Assembly_refusal | Assembly_operational

datatype AssemblyResult =
  Assembled EvidenceBundle RunOutcome | Assembly_failed assembly_failure string

definition EMPTY_ARGV_DIGEST :: string where
  "EMPTY_ARGV_DIGEST = ''sha256:e3b0c44298fc1c149afbf4c8996fb92427ae41e4649b934ca495991b7852b855''"

definition evidence_inputs ::
  "(string \<Rightarrow> int option) \<Rightarrow> ExecutionProfile \<Rightarrow> EvidenceAssemblyInputs \<Rightarrow> EvidenceInputs" where
  "evidence_inputs date_ms profile inputs =
     \<lparr>in_snapshots = eai_snapshots inputs,
      in_run =
        \<lparr>er_run_id = eai_run_id inputs, er_image_digest = ep_image_digest profile,
         er_argv_digest = EMPTY_ARGV_DIGEST, er_runtime = ep_image_digest profile,
         er_provider = ep_model_route profile, er_adapter = eai_adapter inputs\<rparr>,
      in_principal = eai_principal inputs,
      in_operations = eai_operations inputs,
      in_gate_results = eai_gate_results inputs,
      in_artifacts = eai_artifacts inputs,
      in_observed = eai_observed inputs,
      in_reconciliation = eai_reconciliation inputs,
      in_outcome = outcomeFor (eai_terminal inputs) (eai_detail inputs),
      in_timing = timingOf date_ms (eai_started_at inputs) (eai_finished_at inputs)\<rparr>"

text \<open>
  A refusal without its violated element (one an untyped caller supplied) makes the code read a
  member of \<^verbatim>\<open>undefined\<close>.
\<close>

definition assembleEvidence ::
  "(string \<Rightarrow> string) \<Rightarrow> (string \<Rightarrow> bool) \<Rightarrow> (EvidenceBundle \<Rightarrow> Issue list) \<Rightarrow> (string \<Rightarrow> int option) \<Rightarrow>
   EvidenceAssemblyInputs \<Rightarrow> AssemblyResult js" where
  "assembleEvidence sha256 datetime report date_ms inputs =
     (case en_profile (eai_snapshots inputs) of
        Some (Captured_ok profile) \<Rightarrow>
          (case constructEvidence sha256 datetime report
                  (evidence_inputs date_ms (cd_body (cp_value profile)) inputs) of
             OperationalFailure source detail \<Rightarrow>
               Returned (Assembly_failed Assembly_operational (template [source, '': '', detail]))
           | Decided (Refused r) \<Rightarrow>
               (case rf_violated r of
                  None \<Rightarrow> Threw
                | Some v \<Rightarrow>
                    Returned (Assembly_failed Assembly_refusal
                      (template [refusal_code_text (rf_code r), '' on '', v_element v, '': '', rf_detail r])))
           | Decided (Proceed b) \<Rightarrow>
               Returned (Assembled b (outcomeFor (eai_terminal inputs) (eai_detail inputs))))
      | _ \<Rightarrow>
          Returned (Assembly_failed Assembly_operational
            ''evidence assembly requires the captured execution profile''))"

section \<open>The execution principal\<close>

definition autonomousActor :: "Principal \<Rightarrow> string option" where
  "autonomousActor requester = (if prefix ''human:'' (pl_sub requester) then Some (pl_sub requester) else None)"

definition executionPrincipal :: "string \<Rightarrow> bool \<Rightarrow> Principal \<Rightarrow> string + Principal" where
  "executionPrincipal profileSub actorRequired requester =
     (let actor = (case pl_acting requester of Actor sub \<Rightarrow> Some sub | Autonomous \<Rightarrow> autonomousActor requester) in
      if actorRequired \<and> actor = None then
        Inl (template [''the profile requires an actor and the request names none: '', pl_sub requester,
          '' is autonomous''])
      else
        Inr \<lparr>pl_sub = profileSub,
             pl_acting = (case actor of None \<Rightarrow> Autonomous | Some sub \<Rightarrow> Actor sub)\<rparr>)"

section \<open>The write ledger\<close>

datatype WriteKind = Event_write | Artifact_write | Transition_write | Seal_write

record WriteEntry =
  we_run_id :: string
  we_kind :: WriteKind
  we_label :: string

datatype seal_refusal = Outstanding_writes | Not_eligible | Already_sealed

datatype SealPreparation = Seal_prepared EvidenceBundle | Seal_refused seal_refusal string

record FinalizationLedger =
  fl_runId :: string
  fl_sequence :: "WriteEntry list"
  fl_outstanding :: nat
  fl_sealed :: bool

definition new_ledger :: "string \<Rightarrow> FinalizationLedger" where
  "new_ledger run_id =
     \<lparr>fl_runId = run_id, fl_sequence = [], fl_outstanding = 0, fl_sealed = False\<rparr>"

definition open_write :: "WriteKind \<Rightarrow> string \<Rightarrow> FinalizationLedger \<Rightarrow> FinalizationLedger" where
  "open_write kind label l =
     l\<lparr>fl_outstanding := fl_outstanding l + 1,
       fl_sequence := fl_sequence l @ [\<lparr>we_run_id = fl_runId l, we_kind = kind, we_label = label\<rparr>]\<rparr>"

definition close_write :: "FinalizationLedger \<Rightarrow> FinalizationLedger" where
  "close_write l = (if fl_outstanding l > 0 then l\<lparr>fl_outstanding := fl_outstanding l - 1\<rparr> else l)"

definition prepareSeal ::
  "(string \<Rightarrow> bool) \<Rightarrow> (EvidenceBundle \<Rightarrow> Issue list) \<Rightarrow> claimed_bundle \<Rightarrow> RunOutcome option \<Rightarrow>
   FinalizationLedger \<Rightarrow> SealPreparation" where
  "prepareSeal datetime report bundle out l =
     (if fl_sealed l then
        Seal_refused Already_sealed
          (template [''run '', fl_runId l, '' is already sealed; a second seal is never written''])
      else if fl_outstanding l > 0 then
        Seal_refused Outstanding_writes
          (template [string_of_int (int (fl_outstanding l)), '' write(s) of run '', fl_runId l,
             '' are still outstanding; the seal is not the final write''])
      else
        (case decideSealEligibility datetime report bundle out of
           Refused r \<Rightarrow>
             Seal_refused Not_eligible (template [refusal_code_text (rf_code r), '': '', rf_detail r])
         | Proceed s \<Rightarrow> Seal_prepared (se_bundle s)))"

definition markSealed :: "FinalizationLedger \<Rightarrow> FinalizationLedger" where
  "markSealed l =
     l\<lparr>fl_sealed := True,
       fl_sequence :=
         fl_sequence l @ [\<lparr>we_run_id = fl_runId l, we_kind = Seal_write, we_label = ''evidence_bundle''\<rparr>]\<rparr>"

section \<open>Properties\<close>

text \<open>
  Only a completed run has a successful outcome: whatever state a run is finalized
  from, terminal or not, and whatever its detail, its outcome classifies as success exactly when
  the state is \<open>COMPLETED\<close>, and a terminal state is recorded as itself.
\<close>

theorem only_completed_is_success:
  "TERMINAL_SUCCESS (terminal_state (outcomeFor state detail)) = (state = Terminal COMPLETED) \<and>
   terminal_state (outcomeFor (Terminal t) detail) = t"
  by (cases state; cases t)
    (auto simp: outcomeFor_def split: TerminalState.splits)

lemma completed_outcome:
  "terminal_state (outcomeFor state detail) = COMPLETED \<longleftrightarrow> state = Terminal COMPLETED"
  by (auto simp: outcomeFor_def split: LifecycleState.splits TerminalState.splits)

text \<open>
  An early-termination record exists exactly for a run that did not complete and
  whose record validates; it then names the requester and the profile reference of the request,
  verbatim, and carries the outcome of the state the run ended in, never a success.
\<close>

theorem early_record_exact:
  "buildEarlyTerminationRecord datetime report date_ms inputs = Record_ok r \<longleftrightarrow>
   eti_state inputs \<noteq> Terminal COMPLETED \<and> valid_EarlyTerminationRecord datetime r \<and>
   r = early_candidate date_ms inputs"
  by (auto simp: buildEarlyTerminationRecord_def Let_def completed_outcome)

text \<open>
  The execution principal is the profile's own agent identity, never the
  requester's; it acts for the requester's actor, or for a requester who is human; and it is
  withheld exactly when the profile requires an actor and there is none.
\<close>

theorem execution_principal_exact:
  "executionPrincipal profileSub actorRequired requester = Inr p \<longleftrightarrow>
   pl_sub p = profileSub \<and>
   (case pl_acting p of
      Actor a \<Rightarrow>
        pl_acting requester = Actor a \<or>
        pl_acting requester = Autonomous \<and> prefix ''human:'' a \<and> pl_sub requester = a
    | Autonomous \<Rightarrow>
        pl_acting requester = Autonomous \<and> \<not> prefix ''human:'' (pl_sub requester) \<and> \<not> actorRequired)"
  by (cases p; cases "pl_acting requester"; cases "pl_acting p")
    (auto simp: executionPrincipal_def autonomousActor_def)

lemma assembled_iff:
  "assembleEvidence sha256 datetime report date_ms inputs = Returned (Assembled b out) \<longleftrightarrow>
   (\<exists>p. en_profile (eai_snapshots inputs) = Some (Captured_ok p) \<and>
      constructEvidence sha256 datetime report (evidence_inputs date_ms (cd_body (cp_value p)) inputs) =
        Decided (Proceed b) \<and>
      out = outcomeFor (eai_terminal inputs) (eai_detail inputs))"
  by (auto simp: assembleEvidence_def split: option.splits CapturedAuthority.splits
      ObservedDecision.splits Decision.splits)

section \<open>The seal waits for every write\<close>

datatype ledger_op = Open WriteKind string | Close

definition ledger_run :: "ledger_op list \<Rightarrow> FinalizationLedger \<Rightarrow> FinalizationLedger" where
  "ledger_run ops l =
     fold (\<lambda>op l. case op of Open kind label \<Rightarrow> open_write kind label l | Close \<Rightarrow> close_write l) ops l"

fun opens :: "ledger_op list \<Rightarrow> WriteEntry list" where
  "opens [] = []"
| "opens (Open kind label # ops) = \<lparr>we_run_id = [], we_kind = kind, we_label = label\<rparr> # opens ops"
| "opens (Close # ops) = opens ops"

definition closes :: "ledger_op list \<Rightarrow> nat" where
  "closes ops = length (filter (\<lambda>op. op = Close) ops)"

lemma ledger_run_simps [simp]:
  "ledger_run [] l = l"
  "ledger_run (Open kind label # ops) l = ledger_run ops (open_write kind label l)"
  "ledger_run (Close # ops) l = ledger_run ops (close_write l)"
  "ledger_run (xs @ ys) l = ledger_run ys (ledger_run xs l)"
  by (simp_all add: ledger_run_def)

lemma ledger_fields [frame_simps]:
  "fl_runId (open_write kind label l) = fl_runId l" "fl_runId (close_write l) = fl_runId l"
  "fl_sealed (open_write kind label l) = fl_sealed l" "fl_sealed (close_write l) = fl_sealed l"
  "fl_sequence (close_write l) = fl_sequence l"
  "fl_outstanding (open_write kind label l) = fl_outstanding l + 1"
  "fl_outstanding (close_write l) = fl_outstanding l - 1"
  by (simp_all add: open_write_def close_write_def)

lemma outstanding_bound:
  "length (opens ops) + fl_outstanding l \<le> closes ops + fl_outstanding (ledger_run ops l)"
proof (induction ops arbitrary: l)
  case (Cons op ops)
  show ?case
  proof (cases op)
    case (Open kind label)
    then show ?thesis using Cons[of "open_write kind label l"] by (simp add: frame_simps closes_def)
  next
    case Close
    then show ?thesis using Cons[of "close_write l"] by (simp add: frame_simps closes_def)
  qed
qed (simp add: closes_def)

lemma ledger_sequence:
  "fl_sequence (ledger_run ops l) =
     fl_sequence l @ map (\<lambda>e. e\<lparr>we_run_id := fl_runId l\<rparr>) (opens ops) \<and>
   fl_runId (ledger_run ops l) = fl_runId l \<and> fl_sealed (ledger_run ops l) = fl_sealed l"
proof (induction ops arbitrary: l)
  case (Cons op ops)
  show ?case
  proof (cases op)
    case (Open kind label)
    then show ?thesis
      using Cons[of "open_write kind label l"] by (simp add: frame_simps) (simp add: open_write_def)
  next
    case Close
    then show ?thesis using Cons[of "close_write l"] by (simp add: frame_simps)
  qed
qed simp

text \<open>
  The seal waits for every write of its run. If a seal is prepared after any
  sequence of opened and closed writes, then from any point of that sequence on at least as many
  writes were closed as were opened; the ledger holds every opened write in order under its own
  run, and the prepared bundle validates and records the run's own outcome.
\<close>

theorem seal_waits_for_every_write:
  assumes "prepareSeal datetime report claimed out (ledger_run (before @ after) (new_ledger run_id)) =
    Seal_prepared b"
  shows "length (opens after) \<le> closes after \<and>
    fl_sequence (ledger_run (before @ after) (new_ledger run_id)) =
      map (\<lambda>e. e\<lparr>we_run_id := run_id\<rparr>) (opens (before @ after)) \<and>
    claimed = Bundle b \<and> valid_EvidenceBundle datetime b \<and> out = Some (eb_outcome b)"
proof -
  let ?l = "ledger_run (before @ after) (new_ledger run_id)"
  have none: "fl_outstanding ?l = 0"
    using assms by (auto simp: prepareSeal_def split: if_splits)
  obtain s where s: "decideSealEligibility datetime report claimed out = Proceed s" "b = se_bundle s"
    using assms by (auto simp: prepareSeal_def split: if_splits Decision.splits)
  have "length (opens after) \<le> closes after"
    using outstanding_bound[of after "ledger_run before (new_ledger run_id)"] none by simp
  moreover have "fl_sequence ?l = map (\<lambda>e. e\<lparr>we_run_id := run_id\<rparr>) (opens (before @ after))"
    using ledger_sequence[of "before @ after" "new_ledger run_id"]
    by (simp add: new_ledger_def del: ledger_run_simps)
  moreover have "claimed = Bundle b \<and> valid_EvidenceBundle datetime b \<and> out = Some (eb_outcome b)"
    using s by (cases claimed)
      (auto simp: decideSealEligibility_def refuse_def parse_EvidenceBundle_def split: option.splits if_splits)
  ultimately show ?thesis by blast
qed

text \<open>
  C38: What a run assembles is what it may seal. A bundle assembled from the run's own
  authority and observations is always accepted by the seal of a run that has no write
  outstanding and is not sealed, with the outcome reported beside it, and it is the bundle that
  is sealed.
\<close>

theorem assembled_evidence_is_sealed:
  assumes "assembleEvidence sha256 datetime report date_ms inputs = Returned (Assembled b out)"
    and "fl_outstanding l = 0" and "\<not> fl_sealed l"
  shows "prepareSeal datetime report (Bundle b) (Some out) l = Seal_prepared b"
proof -
  from assms(1)[unfolded assembled_iff] obtain p where p:
    "en_profile (eai_snapshots inputs) = Some (Captured_ok p) \<and>
     constructEvidence sha256 datetime report (evidence_inputs date_ms (cd_body (cp_value p)) inputs) =
       Decided (Proceed b) \<and>
     out = outcomeFor (eai_terminal inputs) (eai_detail inputs)"
    by (rule exE)
  from p[THEN conjunct2, THEN conjunct1, unfolded construct_proceed_iff construct_captured_iff]
  have "valid_EvidenceBundle datetime b \<and> eb_outcome b = out"
    using p by (auto simp: assemble_bundle_def evidence_inputs_def)
  then show ?thesis
    using assms(2,3)
    by (simp add: prepareSeal_def decideSealEligibility_def parse_EvidenceBundle_def proceed_def)
qed

text \<open>A run to evaluate: the sample profile on a digest-bound image.\<close>

definition sample_assembly :: EvidenceAssemblyInputs where
  "sample_assembly =
     \<lparr>eai_snapshots =
        (in_snapshots sample_inputs)\<lparr>en_profile :=
          Some (Captured_ok (sample_capture ''profile.json'' ''execution-profile''
            (sample_profile\<lparr>ep_image_digest := zero_digest\<rparr>)))\<rparr>,
      eai_run_id = ''run-1'', eai_principal = sample_principal, eai_adapter = ''deterministic'',
      eai_terminal = Terminal COMPLETED, eai_detail = [], eai_gate_results = [],
      eai_operations = in_operations sample_inputs, eai_observed = in_observed sample_inputs,
      eai_artifacts = in_artifacts sample_inputs, eai_reconciliation = sample_reconciliation,
      eai_started_at = ''t0'', eai_finished_at = ''t1''\<rparr>"

lemma assembled_evidence_is_sealed_witness:
  "\<exists>b. assembleEvidence sample_sha (\<lambda>_. True) (\<lambda>_. []) (\<lambda>_. None) sample_assembly =
      Returned (Assembled b CompletedOutcome) \<and>
    prepareSeal (\<lambda>_. True) (\<lambda>_. []) (Bundle b) (Some CompletedOutcome) (new_ledger ''run-1'') =
      Seal_prepared b"
proof -
  have "(case assembleEvidence sample_sha (\<lambda>_. True) (\<lambda>_. []) (\<lambda>_. None) sample_assembly of
      Returned (Assembled b out) \<Rightarrow> out = CompletedOutcome | _ \<Rightarrow> False)"
    by code_simp
  then obtain b where b: "assembleEvidence sample_sha (\<lambda>_. True) (\<lambda>_. []) (\<lambda>_. None) sample_assembly =
      Returned (Assembled b CompletedOutcome)"
    by (auto split: js.splits AssemblyResult.splits)
  have "fl_outstanding (new_ledger ''run-1'') = 0" "\<not> fl_sealed (new_ledger ''run-1'')"
    by (simp_all add: new_ledger_def)
  from assembled_evidence_is_sealed[OF b this] b show ?thesis by blast
qed

lemma seal_waits_for_every_write_witness:
  "\<exists>b. prepareSeal (\<lambda>_. True) (\<lambda>_. []) (Bundle sample_bundle) (Some CompletedOutcome)
      (ledger_run ([] @ [Open Event_write ''run.started'', Close]) (new_ledger ''run-1'')) = Seal_prepared b \<and>
    length (opens [Open Event_write ''run.started'', Close]) \<le> closes [Open Event_write ''run.started'', Close]"
proof -
  have prepared: "prepareSeal (\<lambda>_. True) (\<lambda>_. []) (Bundle sample_bundle) (Some CompletedOutcome)
      (ledger_run ([] @ [Open Event_write ''run.started'', Close]) (new_ledger ''run-1'')) =
      Seal_prepared sample_bundle"
    by code_simp
  from seal_waits_for_every_write[OF prepared] prepared show ?thesis by blast
qed

end
