(* ===== verification/Adapters.thy ===== *)
theory Adapters
  imports Scheduling Fence Outcome
begin

text \<open>
  The in-memory resources of \<^verbatim>\<open>services/runner-control/src\<close> that a run acts through: execution
  sessions (\<^verbatim>\<open>execution/in-memory.ts\<close>), the workspace lifecycle with its apply-back
  (\<^verbatim>\<open>workspace/in-memory.ts\<close>), and the deterministic execution, adapter and clock
  (\<^verbatim>\<open>adapters/deterministic.ts\<close>). Every operation but the clock is fenced.

  The replay texts are JSON texts; two are equal exactly when the values are, where a number that
  is not finite is written \<^verbatim>\<open>null\<close>. Parameter: \<open>show_instant\<close>, the text of an instant in milliseconds.
\<close>

section \<open>Execution sessions\<close>

record SessionHandle =
  sh_session_ref :: string
  sh_wall_clock_seconds :: js_number

record SessionPrepareRequest =
  sp_fence :: RunFence
  sp_session_ref :: string
  sp_profile :: ProfileIdentity
  sp_limits :: Limits

datatype SessionPreparation = Session_prepared SessionHandle | Session_not_prepared string

datatype SessionStart = Session_started | Session_not_started string

datatype SessionClosure = Torn_down | Not_torn_down string

record SessionStore =
  ss_interrupted :: "string list"
  ss_closed :: "string list"
  ss_fence :: FenceLedger

definition new_sessions :: SessionStore where
  "new_sessions = \<lparr>ss_interrupted = [], ss_closed = [], ss_fence = Map.empty\<rparr>"

definition session_prepare :: "SessionPrepareRequest \<Rightarrow> SessionStore \<Rightarrow> SessionPreparation \<times> SessionStore" where
  "session_prepare request s =
     (case fence_refuse (ss_fence s) (sp_fence request) of
        (Some refused, l) \<Rightarrow> (Session_not_prepared refused, s\<lparr>ss_fence := l\<rparr>)
      | (None, l) \<Rightarrow>
          (Session_prepared
             \<lparr>sh_session_ref = sp_session_ref request,
              sh_wall_clock_seconds = li_wall_clock_seconds (sp_limits request)\<rparr>,
           s\<lparr>ss_fence := l\<rparr>))"

definition session_start :: "RunFence \<Rightarrow> string \<Rightarrow> SessionStore \<Rightarrow> SessionStart \<times> SessionStore" where
  "session_start fence session_ref s =
     (case fence_refuse (ss_fence s) fence of
        (Some refused, l) \<Rightarrow> (Session_not_started refused, s\<lparr>ss_fence := l\<rparr>)
      | (None, l) \<Rightarrow> (Session_started, s\<lparr>ss_fence := l\<rparr>))"

definition session_interrupt :: "RunFence \<Rightarrow> string \<Rightarrow> SessionStore \<Rightarrow> FenceOutcome \<times> SessionStore" where
  "session_interrupt fence session_ref s =
     (case fence_outcome (ss_fence s) fence of
        (Fence_refused reason detail, l) \<Rightarrow> (Fence_refused reason detail, s\<lparr>ss_fence := l\<rparr>)
      | (Fence_ok, l) \<Rightarrow>
          (Fence_ok, s\<lparr>ss_fence := l, ss_interrupted := List.insert session_ref (ss_interrupted s)\<rparr>))"

definition session_close :: "RunFence \<Rightarrow> string \<Rightarrow> SessionStore \<Rightarrow> SessionClosure \<times> SessionStore" where
  "session_close fence session_ref s =
     (case fence_refuse (ss_fence s) fence of
        (Some refused, l) \<Rightarrow> (Not_torn_down refused, s\<lparr>ss_fence := l\<rparr>)
      | (None, l) \<Rightarrow>
          (Torn_down, s\<lparr>ss_fence := l, ss_closed := List.insert session_ref (ss_closed s)\<rparr>))"

section \<open>The workspace\<close>

record WorkspaceHandle =
  wh_workspace_ref :: string
  wh_root :: string

datatype WorkspaceProvision = Provisioned WorkspaceHandle | Not_provisioned string

record PolicyIdentity =
  py_contract_id :: string
  py_digest :: string

record ApplyBackRequest =
  ab_fence :: RunFence
  ab_workspace_ref :: string
  ab_changes :: "ObservedChange list"
  ab_authorized_by :: PolicyIdentity

datatype ApplyBackOutcome = Applied nat | Not_applied FenceReason string

text \<open>What the canonical text of a materialization determines.\<close>

fun json_number :: "js_number \<Rightarrow> int option" where
  "json_number (Num i) = Some i"
| "json_number _ = None"

type_synonym materialization =
  "(string \<times> ChangeKind \<times> int option \<times> string option) list \<times> PolicyIdentity"

definition canonical_materialization :: "ApplyBackRequest \<Rightarrow> materialization" where
  "canonical_materialization request =
     (map (\<lambda>c. (oc_path c, oc_kind c, json_number (oc_bytes c), oc_link_target c)) (ab_changes request),
      ab_authorized_by request)"

record WorkspaceStore =
  ws_applied :: "string \<rightharpoonup> nat"
  ws_materialized :: "string \<rightharpoonup> materialization"
  ws_fence :: FenceLedger

definition new_workspaces :: WorkspaceStore where
  "new_workspaces = \<lparr>ws_applied = Map.empty, ws_materialized = Map.empty, ws_fence = Map.empty\<rparr>"

definition workspace_provision ::
  "RunFence \<Rightarrow> string \<Rightarrow> string \<Rightarrow> WorkspaceStore \<Rightarrow> WorkspaceProvision \<times> WorkspaceStore" where
  "workspace_provision fence workspace_ref source_ref s =
     (case fence_refuse (ws_fence s) fence of
        (Some refused, l) \<Rightarrow> (Not_provisioned refused, s\<lparr>ws_fence := l\<rparr>)
      | (None, l) \<Rightarrow>
          (Provisioned \<lparr>wh_workspace_ref = workspace_ref, wh_root = source_ref\<rparr>, s\<lparr>ws_fence := l\<rparr>))"

definition materialization_identity :: "RunFence \<Rightarrow> string \<Rightarrow> string" where
  "materialization_identity fence workspace_ref =
     template [fn_run_id fence, ''#g'', string_of_int (fn_generation fence), ''#'', workspace_ref]"

definition apply_admitted :: "ApplyBackRequest \<Rightarrow> WorkspaceStore \<Rightarrow> ApplyBackOutcome \<times> WorkspaceStore" where
  "apply_admitted request s =
     (let i = materialization_identity (ab_fence request) (ab_workspace_ref request);
          canonical = canonical_materialization request in
      case ws_materialized s i of
        Some materialized \<Rightarrow>
          (if materialized = canonical then Applied (length (ab_changes request))
           else Not_applied Conflicting_replay
             (template [''workspace '', ab_workspace_ref request,
                '' already materialized a different change set for generation '',
                string_of_int (fn_generation (ab_fence request))]), s)
      | None \<Rightarrow>
          (Applied (length (ab_changes request)),
           s\<lparr>ws_materialized := (ws_materialized s)(i \<mapsto> canonical),
             ws_applied := (ws_applied s)(fn_run_id (ab_fence request) \<mapsto> length (ab_changes request))\<rparr>))"

definition applyBack :: "ApplyBackRequest \<Rightarrow> WorkspaceStore \<Rightarrow> ApplyBackOutcome \<times> WorkspaceStore" where
  "applyBack request s =
     (case fence_refuse (ws_fence s) (ab_fence request) of
        (Some refused, l) \<Rightarrow> (Not_applied Stale_fence refused, s\<lparr>ws_fence := l\<rparr>)
      | (None, l) \<Rightarrow> apply_admitted request (s\<lparr>ws_fence := l\<rparr>))"

definition workspace_discard :: "RunFence \<Rightarrow> WorkspaceStore \<Rightarrow> FenceOutcome \<times> WorkspaceStore" where
  "workspace_discard fence s =
     (case fence_outcome (ws_fence s) fence of (out, l) \<Rightarrow> (out, s\<lparr>ws_fence := l\<rparr>))"

definition appliedFor :: "WorkspaceStore \<Rightarrow> string \<Rightarrow> nat" where
  "appliedFor s run_id = (case ws_applied s run_id of None \<Rightarrow> 0 | Some n \<Rightarrow> n)"

section \<open>The deterministic execution\<close>

record GateExecutionRequest =
  ge_fence :: RunFence
  ge_gate_id :: string
  ge_spec :: planned_spec
  ge_session_ref :: string

record DeterministicExecution =
  dx_reports :: "(string \<times> GateReport) list"
  dx_requests :: "GateExecutionRequest list"
  dx_fence :: FenceLedger

definition new_execution :: "(string \<times> GateReport) list \<Rightarrow> DeterministicExecution" where
  "new_execution reports = \<lparr>dx_reports = reports, dx_requests = [], dx_fence = Map.empty\<rparr>"

definition runGate :: "GateExecutionRequest \<Rightarrow> DeterministicExecution \<Rightarrow> GateReport \<times> DeterministicExecution" where
  "runGate request s =
     (case fence_refuse (dx_fence s) (ge_fence request) of
        (Some refused, l) \<Rightarrow> (Gate_stale_fence refused, s\<lparr>dx_fence := l\<rparr>)
      | (None, l) \<Rightarrow>
          (case map_of (dx_reports s) (ge_gate_id request) of Some report \<Rightarrow> report | None \<Rightarrow> Gate_passed,
           s\<lparr>dx_fence := l, dx_requests := dx_requests s @ [request]\<rparr>))"

section \<open>The deterministic adapter\<close>

datatype call_disposition = Permitted | Denied

record AdapterCall =
  ac_tool :: string
  ac_disposition :: call_disposition

datatype claim_kind = Text_claim | Structured_claim

record UntrustedClaim =
  uc_kind :: claim_kind
  uc_content :: string

record NormalizedProviderEvent =
  pe_name :: string
  pe_at :: string
  pe_data :: "(string \<times> string) list"

record UsageMeasure =
  um_unit :: string
  um_amount :: js_number

record TranscriptRef =
  tr_ref :: string
  tr_digest :: string

record AdapterObservation =
  ao_calls :: "AdapterCall list"
  ao_claims :: "UntrustedClaim list"
  ao_events :: "NormalizedProviderEvent list"
  ao_terminal :: TerminalObservationInput
  ao_usage :: "UsageMeasure list"
  ao_transcript :: "TranscriptRef option"

datatype AdapterReport =
  Adapter_observed AdapterObservation | Adapter_fault string | Adapter_stale_fence string

record RunInput =
  ri_task :: string
  ri_parameters :: "(string \<times> string) list"

record AdapterInvocationRequest =
  ai_fence :: RunFence
  ai_adapter :: string
  ai_profile :: ProfileIdentity
  ai_input :: RunInput
  ai_grant :: CapabilityGrant
  ai_routing_class :: RoutingClass
  ai_model_route :: string
  ai_fallback :: string
  ai_limits :: Limits
  ai_credentials :: "string list"
  ai_session_ref :: string
  ai_root_ref :: string

record DeterministicAdapter =
  da_report :: AdapterReport
  da_requests :: "AdapterInvocationRequest list"
  da_fence :: FenceLedger

definition default_report :: AdapterReport where
  "default_report =
     Adapter_observed
       \<lparr>ao_calls = [], ao_claims = [], ao_events = [],
        ao_terminal =
          \<lparr>to_exit_code = Some (Num 0), to_reported_outcome = None, to_transcript_terminal = None,
           to_signalled = None\<rparr>,
        ao_usage = [], ao_transcript = None\<rparr>"

definition new_adapter :: "AdapterReport \<Rightarrow> DeterministicAdapter" where
  "new_adapter report = \<lparr>da_report = report, da_requests = [], da_fence = Map.empty\<rparr>"

definition adapter_invoke ::
  "AdapterInvocationRequest \<Rightarrow> DeterministicAdapter \<Rightarrow> AdapterReport \<times> DeterministicAdapter" where
  "adapter_invoke request s =
     (case fence_refuse (da_fence s) (ai_fence request) of
        (Some refused, l) \<Rightarrow> (Adapter_stale_fence refused, s\<lparr>da_fence := l\<rparr>)
      | (None, l) \<Rightarrow> (da_report s, s\<lparr>da_fence := l, da_requests := da_requests s @ [request]\<rparr>))"

section \<open>The stepping clock\<close>

record SteppingClock =
  sc_ticks :: "string \<rightharpoonup> nat"
  sc_originMs :: int

definition clock_now :: "(int \<Rightarrow> string) \<Rightarrow> string \<Rightarrow> SteppingClock \<Rightarrow> string \<times> SteppingClock" where
  "clock_now show_instant run_id c =
     (let tick = (case sc_ticks c run_id of None \<Rightarrow> 0 | Some n \<Rightarrow> n) in
      (show_instant (sc_originMs c + int tick * 1000), c\<lparr>sc_ticks := (sc_ticks c)(run_id \<mapsto> tick + 1)\<rparr>))"

section \<open>Every resource is fenced\<close>

record Host =
  ho_sessions :: SessionStore
  ho_workspaces :: WorkspaceStore
  ho_execution :: DeterministicExecution
  ho_adapter :: DeterministicAdapter

datatype host_op =
    Op_prepare SessionPrepareRequest
  | Op_start RunFence string
  | Op_interrupt RunFence string
  | Op_close RunFence string
  | Op_provision RunFence string string
  | Op_apply ApplyBackRequest
  | Op_discard RunFence
  | Op_gate GateExecutionRequest
  | Op_invoke AdapterInvocationRequest

fun host_do :: "host_op \<Rightarrow> Host \<Rightarrow> Host" where
  "host_do (Op_prepare r) h = h\<lparr>ho_sessions := snd (session_prepare r (ho_sessions h))\<rparr>"
| "host_do (Op_start f ref) h = h\<lparr>ho_sessions := snd (session_start f ref (ho_sessions h))\<rparr>"
| "host_do (Op_interrupt f ref) h = h\<lparr>ho_sessions := snd (session_interrupt f ref (ho_sessions h))\<rparr>"
| "host_do (Op_close f ref) h = h\<lparr>ho_sessions := snd (session_close f ref (ho_sessions h))\<rparr>"
| "host_do (Op_provision f ref src) h =
     h\<lparr>ho_workspaces := snd (workspace_provision f ref src (ho_workspaces h))\<rparr>"
| "host_do (Op_apply r) h = h\<lparr>ho_workspaces := snd (applyBack r (ho_workspaces h))\<rparr>"
| "host_do (Op_discard f) h = h\<lparr>ho_workspaces := snd (workspace_discard f (ho_workspaces h))\<rparr>"
| "host_do (Op_gate r) h = h\<lparr>ho_execution := snd (runGate r (ho_execution h))\<rparr>"
| "host_do (Op_invoke r) h = h\<lparr>ho_adapter := snd (adapter_invoke r (ho_adapter h))\<rparr>"

text \<open>Whether an operation answers that its fence is stale.\<close>

fun answers_stale :: "host_op \<Rightarrow> Host \<Rightarrow> bool" where
  "answers_stale (Op_prepare r) h =
     (case fst (session_prepare r (ho_sessions h)) of Session_prepared _ \<Rightarrow> False | _ \<Rightarrow> True)"
| "answers_stale (Op_start f ref) h =
     (case fst (session_start f ref (ho_sessions h)) of Session_started \<Rightarrow> False | _ \<Rightarrow> True)"
| "answers_stale (Op_interrupt f ref) h = isStaleFence (fst (session_interrupt f ref (ho_sessions h)))"
| "answers_stale (Op_close f ref) h =
     (case fst (session_close f ref (ho_sessions h)) of Torn_down \<Rightarrow> False | _ \<Rightarrow> True)"
| "answers_stale (Op_provision f ref src) h =
     (case fst (workspace_provision f ref src (ho_workspaces h)) of Provisioned _ \<Rightarrow> False | _ \<Rightarrow> True)"
| "answers_stale (Op_apply r) h =
     (case fst (applyBack r (ho_workspaces h)) of Not_applied Stale_fence _ \<Rightarrow> True | _ \<Rightarrow> False)"
| "answers_stale (Op_discard f) h = isStaleFence (fst (workspace_discard f (ho_workspaces h)))"
| "answers_stale (Op_gate r) h = (\<exists>d. fst (runGate r (ho_execution h)) = Gate_stale_fence d)"
| "answers_stale (Op_invoke r) h = (\<exists>d. fst (adapter_invoke r (ho_adapter h)) = Adapter_stale_fence d)"

datatype host_resource = Sessions | Workspaces | Execution | Adapter

fun resource_of :: "host_op \<Rightarrow> host_resource" where
  "resource_of (Op_prepare _) = Sessions"
| "resource_of (Op_start _ _) = Sessions"
| "resource_of (Op_interrupt _ _) = Sessions"
| "resource_of (Op_close _ _) = Sessions"
| "resource_of (Op_provision _ _ _) = Workspaces"
| "resource_of (Op_apply _) = Workspaces"
| "resource_of (Op_discard _) = Workspaces"
| "resource_of (Op_gate _) = Execution"
| "resource_of (Op_invoke _) = Adapter"

fun op_fence :: "host_op \<Rightarrow> RunFence" where
  "op_fence (Op_prepare r) = sp_fence r"
| "op_fence (Op_start f _) = f"
| "op_fence (Op_interrupt f _) = f"
| "op_fence (Op_close f _) = f"
| "op_fence (Op_provision f _ _) = f"
| "op_fence (Op_apply r) = ab_fence r"
| "op_fence (Op_discard f) = f"
| "op_fence (Op_gate r) = ge_fence r"
| "op_fence (Op_invoke r) = ai_fence r"

fun fence_at :: "host_resource \<Rightarrow> Host \<Rightarrow> FenceLedger" where
  "fence_at Sessions h = ss_fence (ho_sessions h)"
| "fence_at Workspaces h = ws_fence (ho_workspaces h)"
| "fence_at Execution h = dx_fence (ho_execution h)"
| "fence_at Adapter h = da_fence (ho_adapter h)"

lemmas resource_defs =
  session_prepare_def session_start_def session_interrupt_def session_close_def
  workspace_provision_def applyBack_def apply_admitted_def workspace_discard_def
  runGate_def adapter_invoke_def fence_outcome_refuse Let_def

lemma fence_at_do:
  "fence_at res (host_do op h) =
   (if resource_of op = res then snd (fence_refuse (fence_at res h) (op_fence op)) else fence_at res h)"
  by (cases op; cases res)
    (auto simp: resource_defs split: prod.splits option.splits)

lemma refused_changes_nothing:
  assumes "fst (fence_refuse (fence_at (resource_of op) h) (op_fence op)) \<noteq> None"
  shows "host_do op h = h \<and> answers_stale op h"
proof -
  obtain refused l where f: "fence_refuse (fence_at (resource_of op) h) (op_fence op) = (Some refused, l)"
    using assms by (cases "fence_refuse (fence_at (resource_of op) h) (op_fence op)") auto
  have "l = fence_at (resource_of op) h"
    using fence_refuse_cases(3)[OF assms] f by simp
  then show ?thesis
    using f by (cases op) (simp_all add: resource_defs staleFence_def)
qed

lemma fence_at_run:
  "fence_at res (fold host_do ops h) =
   fence.serve (fence_at res h) (map op_fence (filter (\<lambda>op. resource_of op = res) ops))"
  by (induction ops arbitrary: h) (auto simp: fence_at_do fence_admit_def)

text \<open>
  C39: A dispossessed holder reaches no resource. Once the sessions, the workspaces, the
  execution or the adapter admitted an operation of one generation of a run, then after any
  further operations of any runs an operation at that resource with a lower generation of the
  run is answered as stale and changes nothing: it starts, interrupts or closes no session,
  applies and discards nothing, runs no gate and invokes no provider.
\<close>

theorem dispossessed_holder_reaches_no_resource:
  assumes "\<not> answers_stale op h"
    and "resource_of op' = resource_of op" and "fn_run_id (op_fence op') = fn_run_id (op_fence op)"
    and "fn_generation (op_fence op') < fn_generation (op_fence op)"
    and "h' = fold host_do ops (host_do op h)"
  shows "host_do op' h' = h' \<and> answers_stale op' h'"
proof -
  let ?l = "fence_at (resource_of op) h"
  have "fst (fence_refuse ?l (op_fence op)) = None"
    using refused_changes_nothing[of op h] assms(1) by blast
  then have "fst (fence_admit ?l (op_fence op))" by (simp add: fence_admit_def)
  from fence.locked_out[OF this assms(3,4)]
  have "fst (fence_refuse (fence_at (resource_of op') h') (op_fence op')) \<noteq> None"
    unfolding assms(2,5) fence_at_run fence_at_do by (simp add: fence_admit_def)
  then show ?thesis by (rule refused_changes_nothing)
qed

definition sample_host :: Host where
  "sample_host =
     \<lparr>ho_sessions = new_sessions, ho_workspaces = new_workspaces, ho_execution = new_execution [],
      ho_adapter = new_adapter default_report\<rparr>"

lemma dispossessed_holder_reaches_no_resource_witness:
  "let h = fold host_do [Op_discard \<lparr>fn_run_id = ''s'', fn_generation = 9\<rparr>]
       (host_do (Op_start \<lparr>fn_run_id = ''r'', fn_generation = 2\<rparr> ''s2'') sample_host)
   in host_do (Op_close \<lparr>fn_run_id = ''r'', fn_generation = 1\<rparr> ''s2'') h = h"
  unfolding Let_def
  by (rule dispossessed_holder_reaches_no_resource[THEN conjunct1, OF _ _ _ _ refl,
        of "Op_start \<lparr>fn_run_id = ''r'', fn_generation = 2\<rparr> ''s2''" sample_host
          "Op_close \<lparr>fn_run_id = ''r'', fn_generation = 1\<rparr> ''s2''"
          "[Op_discard \<lparr>fn_run_id = ''s'', fn_generation = 9\<rparr>]"])
    (simp_all add: sample_host_def new_sessions_def session_start_def fence_refuse_def)

section \<open>A materialization lands once\<close>

lemma applied_materialized:
  assumes "fst (applyBack r s) = Applied n"
  shows "ws_materialized (snd (applyBack r s)) (materialization_identity (ab_fence r) (ab_workspace_ref r)) =
      Some (canonical_materialization r) \<and> n = length (ab_changes r)"
  using assms by (auto simp: applyBack_def apply_admitted_def Let_def split: prod.splits option.splits if_splits)

lemma materialized_kept:
  "ws_materialized (ho_workspaces h) i = Some x \<Longrightarrow> ws_materialized (ho_workspaces (host_do op h)) i = Some x"
  by (cases op)
    (auto simp: resource_defs split: prod.splits option.splits)

lemma materialized_kept_run:
  "ws_materialized (ho_workspaces h) i = Some x \<Longrightarrow>
   ws_materialized (ho_workspaces (fold host_do ops h)) i = Some x"
  by (induction ops arbitrary: h) (simp_all add: materialized_kept)

text \<open>
  A materialization lands once. After an apply-back was acknowledged, and whatever
  the host is asked in between, a further apply-back of the same run, generation and workspace
  lands nothing: it is acknowledged only for the same changes under the same authorizing policy,
  with the same count, and the changes applied for every run stay what they were.
\<close>

theorem materialization_lands_once:
  assumes "fst (applyBack r (ho_workspaces h)) = Applied n"
    and "h' = fold host_do ops (host_do (Op_apply r) h)"
    and "materialization_identity (ab_fence r') (ab_workspace_ref r') =
      materialization_identity (ab_fence r) (ab_workspace_ref r)"
  shows "ws_materialized (snd (applyBack r' (ho_workspaces h'))) = ws_materialized (ho_workspaces h') \<and>
    ws_applied (snd (applyBack r' (ho_workspaces h'))) = ws_applied (ho_workspaces h') \<and>
    (case fst (applyBack r' (ho_workspaces h')) of
       Applied k \<Rightarrow> canonical_materialization r' = canonical_materialization r \<and> k = n
     | Not_applied _ _ \<Rightarrow> True)"
proof -
  have landed: "ws_materialized (ho_workspaces h') (materialization_identity (ab_fence r') (ab_workspace_ref r')) =
      Some (canonical_materialization r)"
    unfolding assms(2,3)
    by (rule materialized_kept_run) (use applied_materialized[OF assms(1)] in simp)
  have "length (ab_changes r') = length (ab_changes r)"
    if "canonical_materialization r' = canonical_materialization r"
    using that by (auto simp: canonical_materialization_def dest: map_eq_imp_length_eq)
  then show ?thesis
    using landed applied_materialized[OF assms(1)]
    by (auto simp: applyBack_def apply_admitted_def Let_def split: prod.splits option.splits)
qed

definition sample_apply :: ApplyBackRequest where
  "sample_apply =
     \<lparr>ab_fence = \<lparr>fn_run_id = ''r'', fn_generation = 1\<rparr>, ab_workspace_ref = ''w'',
      ab_changes = [\<lparr>oc_path = ''src/x'', oc_kind = Modified, oc_bytes = Num 3, oc_link_target = None\<rparr>],
      ab_authorized_by = \<lparr>py_contract_id = ''path-policy'', py_digest = ''d''\<rparr>\<rparr>"

lemma materialization_lands_once_witness:
  "ws_applied (snd (applyBack sample_apply
       (ho_workspaces (fold host_do [] (host_do (Op_apply sample_apply) sample_host))))) ''r'' = Some 1"
proof -
  have "fst (applyBack sample_apply (ho_workspaces sample_host)) = Applied 1" by code_simp
  from materialization_lands_once[OF this refl refl, of "[]"]
  have "ws_applied (snd (applyBack sample_apply
      (ho_workspaces (fold host_do [] (host_do (Op_apply sample_apply) sample_host))))) =
    ws_applied (ho_workspaces (fold host_do [] (host_do (Op_apply sample_apply) sample_host)))"
    by blast
  moreover have "ws_applied (ho_workspaces (fold host_do [] (host_do (Op_apply sample_apply) sample_host))) ''r'' =
      Some 1" by code_simp
  ultimately show ?thesis by simp
qed

end
