(* ===== verification/EvidenceSink.thy ===== *)
theory EvidenceSink
  imports Fence
begin

text \<open>
  The evidence sink, \<^verbatim>\<open>RecordingEvidenceSink\<close> of
  \<^verbatim>\<open>services/runner-control/src/adapters/deterministic.ts\<close>: governed records written under an
  identity of their own, and the sealed bundle staged under a commit.

  The canonical text a record identity is bound to is equal exactly when kind and payload are,
  so the model binds the payload itself.
\<close>

section \<open>The sink\<close>

datatype RecordPayload =
  Bundle_record EvidenceBundle | Early_record EarlyTerminationRecord

record RecordedWrite =
  rw_run_id :: string
  rw_payload :: RecordPayload
  rw_commit :: "string option"

record EvidenceSink =
  es_writes :: "RecordedWrite list"
  es_fence :: FenceLedger
  es_landed :: "string \<rightharpoonup> RecordPayload"

definition new_evidence_sink :: EvidenceSink where
  "new_evidence_sink = \<lparr>es_writes = [], es_fence = Map.empty, es_landed = Map.empty\<rparr>"

definition write_record ::
  "RunFence \<Rightarrow> string \<Rightarrow> RecordPayload \<Rightarrow> EvidenceSink \<Rightarrow> FenceOutcome \<times> EvidenceSink" where
  "write_record fence record_id payload s =
     (case fence_outcome (es_fence s) fence of
        (Fence_refused reason detail, l) \<Rightarrow> (Fence_refused reason detail, s\<lparr>es_fence := l\<rparr>)
      | (Fence_ok, l) \<Rightarrow>
          (case es_landed s record_id of
             Some payload' \<Rightarrow>
               (if payload' = payload then Fence_ok
                else Fence_refused Conflicting_replay
                  (template [''evidence record '', record_id, '' already landed a different record'']),
                s\<lparr>es_fence := l\<rparr>)
           | None \<Rightarrow>
               (Fence_ok,
                s\<lparr>es_fence := l, es_landed := (es_landed s)(record_id \<mapsto> payload),
                  es_writes := es_writes s @
                    [\<lparr>rw_run_id = fn_run_id fence, rw_payload = payload, rw_commit = None\<rparr>]\<rparr>)))"

text \<open>Staging: the refusal detail, if any. Its handle drops every write of the commit.\<close>

definition stageWrite ::
  "RunFence \<Rightarrow> string \<Rightarrow> EvidenceBundle \<Rightarrow> EvidenceSink \<Rightarrow> string option \<times> EvidenceSink" where
  "stageWrite fence commit_id bundle s =
     (case fence_refuse (es_fence s) fence of
        (Some refused, l) \<Rightarrow> (Some refused, s\<lparr>es_fence := l\<rparr>)
      | (None, l) \<Rightarrow>
          (None,
           s\<lparr>es_fence := l,
             es_writes := es_writes s @
               [\<lparr>rw_run_id = fn_run_id fence, rw_payload = Bundle_record bundle,
                 rw_commit = Some commit_id\<rparr>]\<rparr>))"

definition abandon_writes :: "string \<Rightarrow> EvidenceSink \<Rightarrow> EvidenceSink" where
  "abandon_writes commit_id s =
     s\<lparr>es_writes := filter (\<lambda>w. rw_commit w \<noteq> Some commit_id) (es_writes s)\<rparr>"

definition visibleWrites :: "CommitLedger \<Rightarrow> EvidenceSink \<Rightarrow> RecordedWrite list" where
  "visibleWrites v s = filter (\<lambda>w. isVisible v (rw_commit w)) (es_writes s)"

definition writesOf :: "CommitLedger \<Rightarrow> EvidenceSink \<Rightarrow> string \<Rightarrow> RecordedWrite list" where
  "writesOf v s run_id = filter (\<lambda>w. rw_run_id w = run_id) (visibleWrites v s)"

section \<open>Records are permanent\<close>

datatype evidence_op =
    Write_op RunFence string RecordPayload
  | Stage_op RunFence string EvidenceBundle
  | Abandon_op string

fun evidence_do :: "evidence_op \<Rightarrow> EvidenceSink \<Rightarrow> EvidenceSink" where
  "evidence_do (Write_op f i p) s = snd (write_record f i p s)"
| "evidence_do (Stage_op f c b) s = snd (stageWrite f c b s)"
| "evidence_do (Abandon_op c) s = abandon_writes c s"

text \<open>The ordinary records, in the order they landed, and the identities they are bound to.\<close>

definition ordinary_writes :: "EvidenceSink \<Rightarrow> RecordedWrite list" where
  "ordinary_writes s = filter (\<lambda>w. rw_commit w = None) (es_writes s)"

lemma ordinary_abandon [simp]: "ordinary_writes (abandon_writes c s) = ordinary_writes s"
  by (auto simp: ordinary_writes_def abandon_writes_def intro: filter_cong)

lemma evidence_grows:
  "prefix (ordinary_writes s) (ordinary_writes (evidence_do op s)) \<and>
   es_landed s \<subseteq>\<^sub>m es_landed (evidence_do op s)"
proof (cases op)
  case (Write_op f i p)
  then show ?thesis
    by (auto simp: write_record_def ordinary_writes_def map_le_def split: prod.splits FenceOutcome.splits option.splits)
next
  case (Stage_op f c b)
  then show ?thesis
    by (auto simp: stageWrite_def ordinary_writes_def split: prod.splits option.splits)
next
  case (Abandon_op c)
  moreover have "es_landed (abandon_writes c s) = es_landed s" by (simp add: abandon_writes_def)
  ultimately show ?thesis by simp
qed

lemma evidence_grows_run:
  "prefix (ordinary_writes s) (ordinary_writes (fold evidence_do ops s)) \<and>
   es_landed s \<subseteq>\<^sub>m es_landed (fold evidence_do ops s)"
proof (induction ops arbitrary: s)
  case (Cons op ops)
  from Cons[of "evidence_do op s"] evidence_grows[of s op] show ?case
    by (auto intro: prefix_order.trans map_le_trans)
qed simp

text \<open>
  One record identity, one governed record. Once a record was acknowledged it is
  readable for its run, and whatever is written, staged or abandoned afterwards by anybody, it
  stays readable; its identity acknowledges only the same record, again without storing it,
  and refuses every other as a conflicting replay.
\<close>

theorem governed_record_is_permanent:
  assumes "write_record f i p s = (Fence_ok, s1)" and "es_landed s i = None"
    and "s2 = fold evidence_do ops s1" and "fst (fence_outcome (es_fence s2) g) = Fence_ok"
  shows "\<lparr>rw_run_id = fn_run_id f, rw_payload = p, rw_commit = None\<rparr> \<in> set (writesOf v s2 (fn_run_id f)) \<and>
    (fst (write_record g i q s2) = Fence_ok) = (q = p) \<and>
    es_writes (snd (write_record g i q s2)) = es_writes s2"
proof -
  let ?w = "\<lparr>rw_run_id = fn_run_id f, rw_payload = p, rw_commit = None\<rparr>"
  have s1: "es_landed s1 i = Some p" "?w \<in> set (ordinary_writes s1)"
    using assms(1,2)
    by (auto simp: write_record_def ordinary_writes_def split: prod.splits FenceOutcome.splits)
  have grows: "prefix (ordinary_writes s1) (ordinary_writes s2)" "es_landed s1 \<subseteq>\<^sub>m es_landed s2"
    using evidence_grows_run[of s1 ops] assms(3) by simp_all
  have "es_landed s2 i = Some p" using s1(1) grows(2) by (metis domI map_le_def)
  moreover have "?w \<in> set (ordinary_writes s2)" using s1(2) grows(1) by (auto simp: prefix_def)
  ultimately show ?thesis
    using assms(4)
    by (auto simp: write_record_def writesOf_def visibleWrites_def ordinary_writes_def isVisible_def
        split: prod.splits FenceOutcome.splits)
qed

lemma governed_record_is_permanent_witness:
  "let r = Early_record refused_record; f = \<lparr>fn_run_id = ''run-1'', fn_generation = 1\<rparr>;
       s2 = fold evidence_do [Abandon_op ''c''] (snd (write_record f ''run-1#record'' r new_evidence_sink))
   in \<lparr>rw_run_id = ''run-1'', rw_payload = r, rw_commit = None\<rparr> \<in> set (writesOf [] s2 ''run-1'')"
proof -
  let ?r = "Early_record refused_record" and ?f = "\<lparr>fn_run_id = ''run-1'', fn_generation = 1\<rparr>"
  let ?s1 = "snd (write_record ?f ''run-1#record'' ?r new_evidence_sink)"
  have "write_record ?f ''run-1#record'' ?r new_evidence_sink = (Fence_ok, ?s1)"
    "es_landed new_evidence_sink ''run-1#record'' = None"
    "fst (fence_outcome (es_fence (fold evidence_do [Abandon_op ''c''] ?s1)) ?f) = Fence_ok"
    by (simp_all add: write_record_def new_evidence_sink_def fence_outcome_def fence_refuse_def abandon_writes_def)
  from governed_record_is_permanent[OF this(1,2) refl this(3), of "[]" ?r] show ?thesis
    by (simp add: Let_def)
qed

end
