(* ===== verification/Finalization.thy ===== *)
theory Finalization
  imports EventSink EvidenceSink Lease
begin

text \<open>
  Finalization as one publication: \<^verbatim>\<open>TransactionalFinalization\<close> of
  \<^verbatim>\<open>services/runner-control/src/adapters/finalization.ts\<close> over the journal, the event sink, the
  evidence sink, the shared commit visibility and the run lease.

  The code is asynchronous. A commit runs synchronously from its call to its first \<^verbatim>\<open>await\<close> and from
  each \<^verbatim>\<open>await\<close> to the next; between two such segments anything else may happen. The model has
  one operation per segment: \<open>commit\<close> (entry and first preparation) and \<open>resume\<close> (the segment after
  an \<^verbatim>\<open>await\<close>, the last one being the \<^verbatim>\<open>finally\<close> block). A commit in flight is kept under its
  identity, with what it waits for. What the environment shows a segment (the abort signal,
  the clock, whether the participant's answer arrives) is an argument of the segment.

  The canonical text of an intent is equal exactly when the intent is.
\<close>

section \<open>Commits\<close>

datatype expiry_bound = Governed_bound | Attempt_bound

record FinalizationCommit =
  fc_fence :: RunFence
  fc_commit_id :: string
  fc_terminal :: LifecycleState
  fc_transitions :: "TransitionEntry list"
  fc_event :: SinkEvent
  fc_bundle :: EvidenceBundle
  fc_expires_at :: "int option"
  fc_expires_bound :: "expiry_bound option"

datatype CommitReason =
  Commit_stale_fence | Commit_expired | Commit_attempt_expired | Already_committed | Commit_conflicting_replay

datatype CommitOutcome = Committed | Not_committed "CommitReason option" string

type_synonym intent = "LifecycleState \<times> TransitionEntry list \<times> SinkEvent \<times> EvidenceBundle"

definition canonical_intent :: "FinalizationCommit \<Rightarrow> intent" where
  "canonical_intent c = (fc_terminal c, fc_transitions c, fc_event c, fc_bundle c)"

definition holder_of :: "RunFence \<Rightarrow> string" where
  "holder_of fence = template [fn_run_id fence, ''#g'', string_of_int (fn_generation fence)]"

section \<open>Participants\<close>

record Participants =
  pa_journal :: RunJournal
  pa_events :: EventSink
  pa_evidence :: EvidenceSink
  pa_visibility :: CommitLedger
  pa_lease :: RunLease

text \<open>A prepared write: its commit, and what abandoning it drops.\<close>

datatype StagedWrite =
    Staged_tail (sw_commit: string) string
  | Staged_event (sw_commit: string) stage_handle
  | Staged_bundle (sw_commit: string)

definition abandon_write :: "StagedWrite \<Rightarrow> Participants \<Rightarrow> Participants" where
  "abandon_write w p =
     (case w of
        Staged_tail c run \<Rightarrow> p\<lparr>pa_journal := abandon_transitions (pa_journal p) run c\<rparr>
      | Staged_event c h \<Rightarrow> p\<lparr>pa_events := abandon_event (pa_visibility p) h (pa_events p)\<rparr>
      | Staged_bundle c \<Rightarrow> p\<lparr>pa_evidence := abandon_writes c (pa_evidence p)\<rparr>)"

text \<open>\<^verbatim>\<open>abandon()\<close>: everything staged, in reverse order.\<close>

definition abandon_all :: "StagedWrite list \<Rightarrow> Participants \<Rightarrow> Participants" where
  "abandon_all staged p = fold abandon_write (rev staged) p"

datatype part = Tail_part | Event_part | Bundle_part

fun part_text :: "part \<Rightarrow> string" where
  "part_text Tail_part = ''journal tail''"
| "part_text Event_part = ''terminal event''"
| "part_text Bundle_part = ''sealed bundle''"

text \<open>
  What the environment shows a segment: the abort signal, the time, and whether a participant
  called in it answers, throws before it did anything, or loses its answer.
\<close>

datatype port_fault = Answers | Throws_first string | Answer_lost string

record moment =
  mo_aborted :: bool
  mo_now :: int
  mo_fault :: port_fault

datatype preparation =
    Prepared StagedWrite
  | Preparation_refused FenceReason string
  | Preparation_threw string

text \<open>The call of one participant, and its effect.\<close>

definition stage_part :: "part \<Rightarrow> FinalizationCommit \<Rightarrow> Participants \<Rightarrow> preparation \<times> Participants" where
  "stage_part part c p =
     (let fence = fc_fence c; commit_id = fc_commit_id c in
      case part of
        Tail_part \<Rightarrow>
          (case stageTransitions (pa_journal p) fence commit_id (fc_transitions c) of
             (None, j) \<Rightarrow> (Prepared (Staged_tail commit_id (fn_run_id fence)), p\<lparr>pa_journal := j\<rparr>)
           | (Some detail, j) \<Rightarrow> (Preparation_refused Stale_fence detail, p\<lparr>pa_journal := j\<rparr>))
      | Event_part \<Rightarrow>
          (case stageEmit (pa_visibility p) fence commit_id (fc_event c) (pa_events p) of
             (Staged h, s) \<Rightarrow> (Prepared (Staged_event commit_id h), p\<lparr>pa_events := s\<rparr>)
           | (Stage_refused reason detail, s) \<Rightarrow> (Preparation_refused reason detail, p\<lparr>pa_events := s\<rparr>))
      | Bundle_part \<Rightarrow>
          (case stageWrite fence commit_id (fc_bundle c) (pa_evidence p) of
             (None, s) \<Rightarrow> (Prepared (Staged_bundle commit_id), p\<lparr>pa_evidence := s\<rparr>)
           | (Some detail, s) \<Rightarrow> (Preparation_refused Stale_fence detail, p\<lparr>pa_evidence := s\<rparr>)))"

definition prepare_part ::
  "moment \<Rightarrow> part \<Rightarrow> FinalizationCommit \<Rightarrow> Participants \<Rightarrow> preparation \<times> Participants" where
  "prepare_part mo part c p =
     (case mo_fault mo of
        Answers \<Rightarrow> stage_part part c p
      | Throws_first message \<Rightarrow> (Preparation_threw message, p)
      | Answer_lost message \<Rightarrow> (Preparation_threw message, snd (stage_part part c p)))"

section \<open>The coordinator\<close>

datatype waiting =
    Waiting_preparation part preparation
  | Waiting_renewal "string + bool"
  | Concluded CommitOutcome

record Attempt =
  at_commit :: FinalizationCommit
  at_staged :: "StagedWrite list"
  at_waiting :: waiting

record Coordinator =
  tf_finalized :: "string \<rightharpoonup> string"
  tf_intents :: "string \<rightharpoonup> intent"
  tf_inFlightByCommit :: "string \<rightharpoonup> Attempt"
  tf_inFlightByGeneration :: "string \<rightharpoonup> string"

definition new_coordinator :: Coordinator where
  "new_coordinator =
     \<lparr>tf_finalized = Map.empty, tf_intents = Map.empty, tf_inFlightByCommit = Map.empty,
      tf_inFlightByGeneration = Map.empty\<rparr>"

definition commit_expired :: "moment \<Rightarrow> FinalizationCommit \<Rightarrow> bool" where
  "commit_expired mo c \<longleftrightarrow> (case fc_expires_at c of None \<Rightarrow> False | Some at \<Rightarrow> mo_now mo \<ge> at)"

definition expiredOutcome :: "FinalizationCommit \<Rightarrow> string \<Rightarrow> CommitOutcome" where
  "expiredOutcome c what =
     (let attempt = (fc_expires_bound c = Some Attempt_bound) in
      Not_committed (Some (if attempt then Commit_attempt_expired else Commit_expired))
        (template [''finalization did not commit: the '',
           if attempt then template [''attempt'', [CHR 0x27], ''s recording bound'']
           else template [''run'', [CHR 0x27], ''s budget''],
           '' elapsed before '', what]))"

definition did_not_commit :: "string list \<Rightarrow> string" where
  "did_not_commit pieces = template (''finalization did not commit: '' # pieces)"

text \<open>
  The segments. Each yields what the attempt waits for next and the writes it has staged; a
  conclusion has abandoned them, except the one that published.
\<close>

definition prepare_segment ::
  "moment \<Rightarrow> part \<Rightarrow> FinalizationCommit \<Rightarrow> StagedWrite list \<Rightarrow> Participants \<Rightarrow> Attempt \<times> Participants" where
  "prepare_segment mo part c staged p =
     (let conclude = (\<lambda>out. (\<lparr>at_commit = c, at_staged = [], at_waiting = Concluded out\<rparr>, abandon_all staged p)) in
      if mo_aborted mo then
        conclude (Not_committed None
          (did_not_commit [''the run was interrupted before the '', part_text part, '' was prepared'']))
      else if commit_expired mo c then
        conclude (expiredOutcome c (template [''the '', part_text part, '' was prepared'']))
      else
        (case prepare_part mo part c p of (prep, p1) \<Rightarrow>
           (\<lparr>at_commit = c, at_staged = staged, at_waiting = Waiting_preparation part prep\<rparr>, p1)))"

text \<open>\<^verbatim>\<open>lease.renew\<close>: generations are positive numbers.\<close>

definition owned_by :: "RunLease \<Rightarrow> RunFence \<Rightarrow> bool" where
  "owned_by l fence \<longleftrightarrow>
     0 \<le> fn_generation fence \<and> lease_renew l (fn_run_id fence) (nat (fn_generation fence))"

definition renew_segment ::
  "moment \<Rightarrow> FinalizationCommit \<Rightarrow> StagedWrite list \<Rightarrow> Participants \<Rightarrow> Attempt \<times> Participants" where
  "renew_segment mo c staged p =
     (if mo_aborted mo then
        (\<lparr>at_commit = c, at_staged = [],
          at_waiting = Concluded (Not_committed None
            (did_not_commit [''the run was interrupted before ownership confirmation'']))\<rparr>, abandon_all staged p)
      else
        (\<lparr>at_commit = c, at_staged = staged,
          at_waiting = Waiting_renewal
            (case mo_fault mo of
               Answers \<Rightarrow>
                 Inr (owned_by (pa_lease p) (fc_fence c))
             | Throws_first message \<Rightarrow> Inl message
             | Answer_lost message \<Rightarrow> Inl message)\<rparr>, p))"

text \<open>The segment after a preparation answered.\<close>

definition after_preparation ::
  "moment \<Rightarrow> part \<Rightarrow> preparation \<Rightarrow> FinalizationCommit \<Rightarrow> StagedWrite list \<Rightarrow> Participants \<Rightarrow>
   Attempt \<times> Participants" where
  "after_preparation mo part prep c staged p =
     (case prep of
        Preparation_threw message \<Rightarrow>
          (\<lparr>at_commit = c, at_staged = [],
            at_waiting = Concluded (Not_committed None
              (did_not_commit [''the '', part_text part, '' could not be prepared: '', message]))\<rparr>,
           abandon_all staged p)
      | Preparation_refused reason detail \<Rightarrow>
          (\<lparr>at_commit = c, at_staged = [],
            at_waiting = Concluded (Not_committed
              (Some (case reason of Stale_fence \<Rightarrow> Commit_stale_fence
                     | Conflicting_replay \<Rightarrow> Commit_conflicting_replay))
              (did_not_commit [''the '', part_text part, '' was refused: '', detail]))\<rparr>,
           abandon_all staged p)
      | Prepared w \<Rightarrow>
          (let staged1 = staged @ [w] in
           if sw_commit w \<noteq> fc_commit_id c then
             (\<lparr>at_commit = c, at_staged = [],
               at_waiting = Concluded (Not_committed None
                 (did_not_commit [''the '', part_text part, '' staged under '', sw_commit w, '', not '',
                    fc_commit_id c]))\<rparr>,
              abandon_all staged1 p)
           else
             (case part of
                Tail_part \<Rightarrow> prepare_segment mo Event_part c staged1 p
              | Event_part \<Rightarrow> prepare_segment mo Bundle_part c staged1 p
              | Bundle_part \<Rightarrow> renew_segment mo c staged1 p)))"

text \<open>
  The segment after the lease answered: the gates, and the publication with the persistent
  authority in one synchronous section. A successful attempt keeps its staged writes.
\<close>

definition already_published :: "FinalizationCommit \<Rightarrow> string \<Rightarrow> CommitOutcome" where
  "already_published c other =
     Not_committed (Some Already_committed)
       (did_not_commit [''generation '', string_of_int (fn_generation (fc_fence c)), '' of run '',
          fn_run_id (fc_fence c), '' already published commit '', other])"

definition refusal_before_marker ::
  "moment \<Rightarrow> string + bool \<Rightarrow> FinalizationCommit \<Rightarrow> Coordinator \<Rightarrow> CommitOutcome option" where
  "refusal_before_marker mo renewal c f =
     (case renewal of
        Inl message \<Rightarrow>
          Some (Not_committed None (did_not_commit [''ownership could not be confirmed: '', message]))
      | Inr False \<Rightarrow>
          Some (Not_committed (Some Commit_stale_fence)
            (did_not_commit [''run '', fn_run_id (fc_fence c), '' moved on before the commit marker'']))
      | Inr True \<Rightarrow>
          if mo_aborted mo then
            Some (Not_committed None (did_not_commit [''the run was interrupted before the commit marker'']))
          else
            (case tf_finalized f (holder_of (fc_fence c)) of
               Some other \<Rightarrow> Some (already_published c other)
             | None \<Rightarrow>
                 (case tf_inFlightByGeneration f (holder_of (fc_fence c)) of
                    Some owner \<Rightarrow>
                      if owner \<noteq> fc_commit_id c then
                        Some (Not_committed (Some Already_committed)
                          (did_not_commit [''generation '', string_of_int (fn_generation (fc_fence c)),
                             '' of run '', fn_run_id (fc_fence c), '' is being finalized by commit '', owner]))
                      else None
                  | None \<Rightarrow> None)))"

definition publish_segment ::
  "moment \<Rightarrow> string + bool \<Rightarrow> FinalizationCommit \<Rightarrow> StagedWrite list \<Rightarrow> Coordinator \<times> Participants \<Rightarrow>
   Attempt \<times> Coordinator \<times> Participants" where
  "publish_segment mo renewal c staged st =
     (let (f, p) = st; i = fc_commit_id c; holder = holder_of (fc_fence c);
          concluded = (\<lambda>out. \<lparr>at_commit = c, at_staged = [], at_waiting = Concluded out\<rparr>) in
      case refusal_before_marker mo renewal c f of
        Some out \<Rightarrow> (concluded out, f, abandon_all staged p)
      | None \<Rightarrow>
          let f1 = f\<lparr>tf_inFlightByGeneration := (tf_inFlightByGeneration f)(holder \<mapsto> i)\<rparr> in
          if commit_expired mo c then
            (concluded (expiredOutcome c ''the commit marker''), f1, abandon_all staged p)
          else
            (\<lparr>at_commit = c, at_staged = staged, at_waiting = Concluded Committed\<rparr>,
             f1\<lparr>tf_finalized := (tf_finalized f1)(holder \<mapsto> i),
                tf_intents := (tf_intents f1)(i \<mapsto> canonical_intent c)\<rparr>,
             p\<lparr>pa_visibility := publish (pa_visibility p) i\<rparr>))"

text \<open>
  The call of a commit: an answer at once, or an attempt in flight, one's own or (for the exact
  replay) the one already running.
\<close>

datatype commit_answer = Answered_now CommitOutcome | Awaiting_commit string

definition commit ::
  "moment \<Rightarrow> FinalizationCommit \<Rightarrow> Coordinator \<times> Participants \<Rightarrow>
   commit_answer \<times> Coordinator \<times> Participants" where
  "commit mo c st =
     (let (f, p) = st; i = fc_commit_id c; holder = holder_of (fc_fence c) in
      if isPublished (pa_visibility p) i then
        (Answered_now
           (if tf_intents f i = Some (canonical_intent c) then Committed
            else Not_committed (Some Already_committed)
              (did_not_commit [''identity '', i,
                 '' is already published with a different logical intent; the durable record is the truth''])), f, p)
      else
        (case tf_finalized f holder of
           Some other \<Rightarrow> (Answered_now (already_published c other), f, p)
         | None \<Rightarrow>
             (case tf_inFlightByCommit f i of
                Some running \<Rightarrow>
                  (if canonical_intent (at_commit running) = canonical_intent c then Awaiting_commit i
                   else Answered_now (Not_committed (Some Commit_conflicting_replay)
                     (did_not_commit [''identity '', i, '' is already in flight with a different logical intent''])),
                   f, p)
              | None \<Rightarrow>
                  let f1 = f\<lparr>tf_inFlightByGeneration :=
                        (case tf_inFlightByGeneration f holder of
                           None \<Rightarrow> (tf_inFlightByGeneration f)(holder \<mapsto> i)
                         | Some _ \<Rightarrow> tf_inFlightByGeneration f)\<rparr>;
                      (attempt, p1) = prepare_segment mo Tail_part c [] p in
                  (Awaiting_commit i,
                   f1\<lparr>tf_inFlightByCommit := (tf_inFlightByCommit f1)(i \<mapsto> attempt)\<rparr>, p1))))"

text \<open>
  The next segment of the commit in flight under an identity; the last one retires what the
  attempt still owns and delivers its outcome.
\<close>

definition resume ::
  "moment \<Rightarrow> string \<Rightarrow> Coordinator \<times> Participants \<Rightarrow> CommitOutcome option \<times> Coordinator \<times> Participants" where
  "resume mo i st =
     (let (f, p) = st in
      case tf_inFlightByCommit f i of
        None \<Rightarrow> (None, f, p)
      | Some a \<Rightarrow>
          (let c = at_commit a; holder = holder_of (fc_fence c);
               go_on = (\<lambda>f a'. f\<lparr>tf_inFlightByCommit := (tf_inFlightByCommit f)(i \<mapsto> a')\<rparr>) in
           case at_waiting a of
             Waiting_preparation part prep \<Rightarrow>
               (case after_preparation mo part prep c (at_staged a) p of
                  (a', p1) \<Rightarrow> (None, go_on f a', p1))
           | Waiting_renewal renewal \<Rightarrow>
               (case publish_segment mo renewal c (at_staged a) (f, p) of
                  (a', f1, p1) \<Rightarrow> (None, go_on f1 a', p1))
           | Concluded out \<Rightarrow>
               (Some out,
                f\<lparr>tf_inFlightByGeneration :=
                    (if tf_inFlightByGeneration f holder = Some i
                     then (tf_inFlightByGeneration f)(holder := None) else tf_inFlightByGeneration f),
                  tf_inFlightByCommit := (tf_inFlightByCommit f)(i := None)\<rparr>, p)))"

section \<open>The world around a commit\<close>

text \<open>
  Everything that may happen: a commit is called, one in flight is resumed, and anybody with
  any fence appends to the journal, emits an event, writes a record, or uses the lease.
\<close>

datatype world_event =
    Commit_called moment FinalizationCommit
  | Resumed moment string
  | Journaled RunFence string OutboxFact
  | Emitted RunFence int SinkEvent
  | Recorded_evidence RunFence string RecordPayload
  | Leased lease_op

fun world_do :: "world_event \<Rightarrow> Coordinator \<times> Participants \<Rightarrow> Coordinator \<times> Participants" where
  "world_do (Commit_called mo c) st = snd (commit mo c st)"
| "world_do (Resumed mo i) st = snd (resume mo i st)"
| "world_do (Journaled fence k x) (f, p) = (f, p\<lparr>pa_journal := snd (append_fact (pa_journal p) fence k x)\<rparr>)"
| "world_do (Emitted fence n e) (f, p) =
     (f, p\<lparr>pa_events := snd (emit (pa_visibility p) fence n e (pa_events p))\<rparr>)"
| "world_do (Recorded_evidence fence i x) (f, p) =
     (f, p\<lparr>pa_evidence := snd (write_record fence i x (pa_evidence p))\<rparr>)"
| "world_do (Leased op) (f, p) = (f, p\<lparr>pa_lease := lease_do (pa_lease p) op\<rparr>)"

definition new_participants :: Participants where
  "new_participants =
     \<lparr>pa_journal = new_journal, pa_events = new_sink, pa_evidence = new_evidence_sink,
      pa_visibility = [], pa_lease = new_lease\<rparr>"

definition new_world :: "Coordinator \<times> Participants" where
  "new_world = (new_coordinator, new_participants)"

definition world_run :: "world_event list \<Rightarrow> Coordinator \<times> Participants \<Rightarrow> Coordinator \<times> Participants" where
  "world_run es st = fold world_do es st"

end
