(* ===== verification/Publication.thy ===== *)
theory Publication
  imports Finalization Evidence
begin

text \<open>
  What finalization guarantees, for every interleaving of its segments with everything else:
  the invariant of the coordinator and its participants, and the properties over it.
\<close>

section \<open>The staged tail\<close>

definition staged_rows :: "string \<Rightarrow> RunJournal \<Rightarrow> string \<Rightarrow> TransitionEntry list" where
  "staged_rows i j run = map snd (filter (\<lambda>row. fst row = Some i) (jp_transitions (page_of j run)))"

lemma staged_rows_append [simp]: "staged_rows i (snd (append_fact j f k x)) run = staged_rows i j run"
  by (cases x)
    (auto simp: staged_rows_def append_fact_def Let_def page_of_def empty_page_def
      split: prod.splits FenceOutcome.splits option.splits replay_class.splits)

lemma staged_rows_stage:
  "staged_rows i (snd (stageTransitions j f c ts)) run =
   staged_rows i j run @
     (if c = i \<and> run = fn_run_id f \<and> fst (stageTransitions j f c ts) = None then ts else [])"
proof -
  have "map snd (filter (\<lambda>row. fst row = Some i) (map (\<lambda>e. (Some c, e)) ts)) = (if c = i then ts else [])"
    by (induction ts) auto
  then show ?thesis
    by (auto simp: staged_rows_def stageTransitions_def Let_def page_of_def empty_page_def
        split: prod.splits option.splits)
qed

lemma staged_rows_abandon:
  "staged_rows i (abandon_transitions j r c) run =
   (if c = i \<and> run = r then [] else staged_rows i j run)"
  by (auto simp: staged_rows_def abandon_transitions_def page_of_def empty_page_def filter_empty_conv
      intro!: arg_cong[of _ _ "map snd"] filter_cong split: option.splits)

section \<open>What a commit has prepared\<close>

fun handle_commit :: "stage_handle \<Rightarrow> string option" where
  "handle_commit No_stage = None"
| "handle_commit (Stage_of _ c _) = Some c"

definition event_at :: "FinalizationCommit \<Rightarrow> event_key" where
  "event_at c = (fn_run_id (fc_fence c), ev_sequence (fc_event c))"

definition tail_in :: "FinalizationCommit \<Rightarrow> Participants \<Rightarrow> bool" where
  "tail_in c p \<longleftrightarrow>
     suffix (fc_transitions c) (staged_rows (fc_commit_id c) (pa_journal p) (fn_run_id (fc_fence c)))"

definition event_in :: "FinalizationCommit \<Rightarrow> Participants \<Rightarrow> bool" where
  "event_in c p \<longleftrightarrow>
     backed (pa_visibility p) (pa_events p) (event_at c) (fc_commit_id c) (fc_event c)"

definition bundle_row :: "FinalizationCommit \<Rightarrow> RecordedWrite" where
  "bundle_row c =
     \<lparr>rw_run_id = fn_run_id (fc_fence c), rw_payload = Bundle_record (fc_bundle c),
      rw_commit = Some (fc_commit_id c)\<rparr>"

definition bundle_in :: "FinalizationCommit \<Rightarrow> Participants \<Rightarrow> bool" where
  "bundle_in c p \<longleftrightarrow> bundle_row c \<in> set (es_writes (pa_evidence p))"

definition part_in :: "part \<Rightarrow> FinalizationCommit \<Rightarrow> Participants \<Rightarrow> bool" where
  "part_in part c p =
     (case part of Tail_part \<Rightarrow> tail_in c p | Event_part \<Rightarrow> event_in c p | Bundle_part \<Rightarrow> bundle_in c p)"

fun part_of :: "StagedWrite \<Rightarrow> part" where
  "part_of (Staged_tail _ _) = Tail_part"
| "part_of (Staged_event _ _) = Event_part"
| "part_of (Staged_bundle _) = Bundle_part"

text \<open>A staged write of a commit: what it names, and that its record is in place.\<close>

definition staged_ok :: "FinalizationCommit \<Rightarrow> Participants \<Rightarrow> StagedWrite \<Rightarrow> bool" where
  "staged_ok c p w \<longleftrightarrow>
     sw_commit w = fc_commit_id c \<and> part_in (part_of w) c p \<and>
     (case w of
        Staged_tail _ run \<Rightarrow> run = fn_run_id (fc_fence c)
      | Staged_event _ h \<Rightarrow> handle_ok (pa_events p) h \<and> handle_commit h \<in> {None, Some (fc_commit_id c)}
      | Staged_bundle _ \<Rightarrow> True)"

text \<open>
  What an operation keeps: the sink well formed, the staged writes and the prepared parts of
  every commit but (where it gives up its own) one.
\<close>

definition keeps :: "string option \<Rightarrow> Participants \<Rightarrow> Participants \<Rightarrow> bool" where
  "keeps d p p' \<longleftrightarrow>
     wf_sink (pa_events p') \<and>
     (\<forall>h. handle_ok (pa_events p) h \<longrightarrow> handle_ok (pa_events p') h) \<and>
     (\<forall>c part. Some (fc_commit_id c) \<noteq> d \<longrightarrow> part_in part c p \<longrightarrow> part_in part c p') \<and>
     (\<forall>k e. durableCanonical (pa_visibility p) (pa_events p) k = Some e \<longrightarrow>
        durableCanonical (pa_visibility p') (pa_events p') k = Some e)"

lemma keepsD:
  assumes "keeps d p p'"
  shows "wf_sink (pa_events p')" "handle_ok (pa_events p) h \<Longrightarrow> handle_ok (pa_events p') h"
    "Some (fc_commit_id c) \<noteq> d \<Longrightarrow> part_in part c p \<Longrightarrow> part_in part c p'"
    "durableCanonical (pa_visibility p) (pa_events p) k = Some e \<Longrightarrow>
      durableCanonical (pa_visibility p') (pa_events p') k = Some e"
  using assms unfolding keeps_def by blast+

lemma keeps_refl: "wf_sink (pa_events p) \<Longrightarrow> keeps d p p"
  by (simp add: keeps_def)

lemma keeps_trans: "keeps d p p' \<Longrightarrow> keeps d p' p'' \<Longrightarrow> keeps d p p''"
  unfolding keeps_def by (metis (no_types))

lemma keeps_weaken: "keeps None p p' \<Longrightarrow> keeps d p p'"
  unfolding keeps_def by auto

lemma staged_ok_keeps:
  "keeps d p p' \<Longrightarrow> Some (fc_commit_id c) \<noteq> d \<Longrightarrow> staged_ok c p w \<Longrightarrow> staged_ok c p' w"
  using keepsD unfolding staged_ok_def by (cases w) auto

lemmas part_defs = part_in_def tail_in_def event_in_def bundle_in_def

text \<open>An operation on one participant.\<close>

lemma keeps_journal:
  assumes "wf_sink (pa_events p)"
    and "\<And>i run. Some i \<noteq> d \<Longrightarrow> staged_rows i j run = staged_rows i (pa_journal p) run"
  shows "keeps d p (p\<lparr>pa_journal := j\<rparr>)"
  using assms by (auto simp: keeps_def part_defs split: part.splits)

lemma keeps_evidence:
  assumes "wf_sink (pa_events p)"
    and "\<And>w. rw_commit w \<noteq> None \<Longrightarrow> rw_commit w \<noteq> d \<Longrightarrow> w \<in> set (es_writes (pa_evidence p)) \<Longrightarrow>
      w \<in> set (es_writes s)"
  shows "keeps d p (p\<lparr>pa_evidence := s\<rparr>)"
  using assms(1) assms(2)[of "bundle_row _"]
  by (auto simp: keeps_def part_defs bundle_row_def split: part.splits)

lemma keeps_events:
  assumes "sink_kept (pa_visibility p) (pa_events p) s"
    and "\<And>k c e. Some c \<noteq> d \<Longrightarrow> backed (pa_visibility p) (pa_events p) k c e \<Longrightarrow>
      backed (pa_visibility p) s k c e"
  shows "keeps d p (p\<lparr>pa_events := s\<rparr>)"
  using assms by (auto simp: keeps_def part_defs sink_kept_def split: part.splits)

lemma keeps_lease: "wf_sink (pa_events p) \<Longrightarrow> keeps d p (p\<lparr>pa_lease := l\<rparr>)"
  by (auto simp: keeps_def part_defs split: part.splits)

lemma backed_published:
  assumes "wf_sink s" and "backed v s k c e"
  shows "backed (publish v d) s k c e"
  using assms durable_publish[OF assms(1), of v k e d] by (auto simp: backed_def)

lemma keeps_publish: "wf_sink (pa_events p) \<Longrightarrow> keeps d p (p\<lparr>pa_visibility := publish (pa_visibility p) i\<rparr>)"
  using durable_publish backed_published by (auto simp: keeps_def part_defs split: part.splits)

section \<open>What readers see\<close>

definition seen :: "Participants \<Rightarrow> string \<Rightarrow> JournaledState option \<times> SinkEvent list \<times> RecordedWrite list" where
  "seen p run =
     (readCurrentState (pa_visibility p) (pa_journal p) run,
      eventsOf (pa_visibility p) (pa_events p) run, writesOf (pa_visibility p) (pa_evidence p) run)"

lemma visible_other:
  assumes "\<not> isPublished v c"
  shows "(d \<noteq> Some c \<and> isVisible v d) = isVisible v d"
    "(d \<noteq> Some c \<and> isVisible v d \<and> Q) = (isVisible v d \<and> Q)"
  using assms by (auto simp: isVisible_def)

lemma read_page_cong:
  assumes "visible_transitions v (page_of j' run) = visible_transitions v (page_of j run)"
    and "(page_of j' run)\<lparr>jp_transitions := []\<rparr> = (page_of j run)\<lparr>jp_transitions := []\<rparr>"
  shows "readCurrentState v j' run = readCurrentState v j run"
proof -
  have "jp_rejections (page_of j' run) = jp_rejections (page_of j run)"
      "jp_acquisitions (page_of j' run) = jp_acquisitions (page_of j run)"
      "jp_held (page_of j' run) = jp_held (page_of j run)"
    using assms(2) by (cases "page_of j' run"; cases "page_of j run"; simp)+
  then show ?thesis by (simp add: readCurrentState_page assms(1) Let_def)
qed

lemma read_abandon:
  assumes "\<not> isPublished v c"
  shows "readCurrentState v (abandon_transitions j r c) run = readCurrentState v j run"
  by (rule read_page_cong)
    (auto simp: visible_transitions_def abandon_transitions_def page_of_def
      visible_other[OF assms] split: option.splits)

lemma read_stage:
  assumes "\<not> isPublished v c"
  shows "readCurrentState v (snd (stageTransitions j f c ts)) run = readCurrentState v j run"
  by (rule read_page_cong)
    (use assms in \<open>auto simp: visible_transitions_def stageTransitions_def Let_def page_of_def empty_page_def
      filter_empty_conv isVisible_def split: prod.splits option.splits\<close>)

lemma events_abandon:
  assumes "handle_ok s h"
  shows "eventsOf v (abandon_event v h s) run = eventsOf v s run"
proof (cases h)
  case (Stage_of key c row)
  then have "filter (row_visible v) (remove1 row xs) = filter (row_visible v) xs"
    if "\<not> row_visible v row" for xs
    using that by (induction xs) auto
  then show ?thesis
    using assms Stage_of
    by (auto simp: abandon_event_def releaseStage_def eventsOf_def rows_of_def handle_ok_def split: option.splits)
qed (simp add: abandon_event_def)

lemma events_stage:
  assumes "\<not> isPublished v c"
  shows "eventsOf v (snd (stageEmit v f c e s)) run = eventsOf v s run"
proof -
  have "eventsOf v (snd (stage_admitted v key c e s)) run = eventsOf v s run" for key s
    using assms
    by (auto simp: stage_admitted_def push_row_def Let_def eventsOf_def rows_of_def row_visible_def isVisible_def
        split: option.splits)
  moreover have "eventsOf v (s\<lparr>sk_fence := l\<rparr>) run = eventsOf v s run" for l
    by (simp add: eventsOf_def rows_of_def)
  ultimately show ?thesis
    by (simp add: stageEmit_def split: prod.splits option.splits)
qed

lemma writes_abandon:
  assumes "\<not> isPublished v c"
  shows "writesOf v (abandon_writes c s) run = writesOf v s run"
  by (simp add: writesOf_def visibleWrites_def abandon_writes_def visible_other[OF assms])

lemma writes_stage:
  assumes "\<not> isPublished v c"
  shows "writesOf v (snd (stageWrite f c b s)) run = writesOf v s run"
  using assms
  by (auto simp: writesOf_def visibleWrites_def stageWrite_def isVisible_def split: prod.splits option.splits)

lemma seen_abandon_write:
  assumes "staged_ok c p w" and "\<not> isPublished (pa_visibility p) (fc_commit_id c)"
  shows "seen (abandon_write w p) = seen p"
  using assms read_abandon[OF assms(2)] events_abandon writes_abandon[OF assms(2)]
  by (cases w) (auto simp: abandon_write_def seen_def staged_ok_def fun_eq_iff)

lemma seen_stage_part:
  assumes "\<not> isPublished (pa_visibility p) (fc_commit_id c)"
  shows "seen (snd (stage_part part c p)) = seen p"
  using read_stage[OF assms, of "pa_journal p" "fc_fence c" "fc_transitions c"]
    events_stage[OF assms, of "fc_fence c" "fc_event c" "pa_events p"]
    writes_stage[OF assms, of "fc_fence c" "fc_bundle c" "pa_evidence p"]
  by (cases part)
    (auto simp: stage_part_def Let_def seen_def fun_eq_iff split: prod.splits option.splits Staging.splits)

lemma seen_prepare_part:
  assumes "\<not> isPublished (pa_visibility p) (fc_commit_id c)" and "prepare_part mo part c p = (prep, p')"
  shows "seen p' = seen p"
  using assms(2) seen_stage_part[OF assms(1), of part]
  by (auto simp: prepare_part_def split: port_fault.splits)

section \<open>What each operation keeps\<close>

lemma keeps_ordinary:
  assumes "wf_sink (pa_events p)" and "\<And>mo c. e \<noteq> Commit_called mo c" and "\<And>mo i. e \<noteq> Resumed mo i"
  shows "keeps None p (snd (world_do e (f, p))) \<and> fst (world_do e (f, p)) = f \<and>
    pa_visibility (snd (world_do e (f, p))) = pa_visibility p"
proof (cases e)
  case (Journaled fence k x)
  then show ?thesis using keeps_journal[OF assms(1)] by simp
next
  case (Emitted fence n ev)
  have "sink_kept (pa_visibility p) (pa_events p) (snd (emit (pa_visibility p) fence n ev (pa_events p)))"
    using kept_emit[OF assms(1)] by blast
  from keeps_events[OF this] backed_emit[OF assms(1)] Emitted show ?thesis by simp
next
  case (Recorded_evidence fence i x)
  have "w \<in> set (es_writes (snd (write_record fence i x s)))" if "w \<in> set (es_writes s)" for w s
    using that by (auto simp: write_record_def split: prod.splits FenceOutcome.splits option.splits)
  with keeps_evidence[OF assms(1)] Recorded_evidence show ?thesis by simp
next
  case (Leased op)
  then show ?thesis using keeps_lease[OF assms(1)] by simp
qed (use assms in auto)

lemma keeps_abandon:
  assumes "wf_sink (pa_events p)" and "staged_ok c p w"
  shows "keeps (Some (fc_commit_id c)) p (abandon_write w p) \<and>
    pa_visibility (abandon_write w p) = pa_visibility p"
proof (cases w)
  case (Staged_tail i run)
  then show ?thesis
    using assms keeps_journal[OF assms(1), of "Some (fc_commit_id c)"]
    by (simp add: abandon_write_def staged_ok_def staged_rows_abandon)
next
  case (Staged_event i h)
  have h: "handle_ok (pa_events p) h" "handle_commit h \<in> {None, Some (fc_commit_id c)}"
    using assms(2) Staged_event by (auto simp: staged_ok_def)
  have "backed (pa_visibility p) (abandon_event (pa_visibility p) h (pa_events p)) k d e"
    if "d \<noteq> fc_commit_id c" "backed (pa_visibility p) (pa_events p) k d e" for k d e
    by (rule backed_abandon[OF assms(1) h(1) _ that(2)]) (use h(2) that(1) in auto)
  with keeps_events[OF kept_abandon[OF assms(1) h(1)], of "Some (fc_commit_id c)"] Staged_event
  show ?thesis by (simp add: abandon_write_def)
next
  case (Staged_bundle i)
  then show ?thesis
    using assms keeps_evidence[OF assms(1), of "Some (fc_commit_id c)"]
    by (simp add: abandon_write_def staged_ok_def abandon_writes_def)
qed

lemma keeps_abandon_all:
  assumes "wf_sink (pa_events p)" and "\<forall>w \<in> set staged. staged_ok c p w" and "distinct (map part_of staged)"
  shows "keeps (Some (fc_commit_id c)) p (abandon_all staged p) \<and>
    pa_visibility (abandon_all staged p) = pa_visibility p \<and>
    (isPublished (pa_visibility p) (fc_commit_id c) \<or> seen (abandon_all staged p) = seen p)"
proof -
  have "keeps (Some (fc_commit_id c)) p (fold abandon_write ws p) \<and>
      pa_visibility (fold abandon_write ws p) = pa_visibility p \<and>
      (isPublished (pa_visibility p) (fc_commit_id c) \<or> seen (fold abandon_write ws p) = seen p)"
    if "wf_sink (pa_events p)" "\<forall>w \<in> set ws. staged_ok c p w" "distinct (map part_of ws)" for ws p
    using that
  proof (induction ws arbitrary: p)
    case (Cons w ws)
    let ?p = "abandon_write w p"
    have k: "keeps (Some (fc_commit_id c)) p ?p" "pa_visibility ?p = pa_visibility p"
      using keeps_abandon[of p c w] Cons.prems by simp_all
    have "part_in part c ?p" if "part_in part c p" "part \<noteq> part_of w" for part
      using that by (cases w; cases part) (auto simp: abandon_write_def part_defs)
    note other = this
    have "\<forall>w' \<in> set ws. staged_ok c ?p w'"
    proof
      fix w' assume "w' \<in> set ws"
      then have "staged_ok c p w'" and ne: "part_of w' \<noteq> part_of w"
        using Cons.prems(2,3) by (auto simp: image_iff)
      then show "staged_ok c ?p w'"
        using keepsD(2)[OF k(1)] other[OF _ ne] by (cases w') (simp_all add: staged_ok_def)
    qed
    from Cons.IH[OF keepsD(1)[OF k(1)] this] Cons.prems(2,3) k seen_abandon_write[of c p w] show ?case
      by (auto intro: keeps_trans)
  qed (simp add: keeps_refl)
  from this[of p "rev staged"] assms show ?thesis by (simp add: abandon_all_def rev_map[symmetric])
qed

lemma keeps_stage:
  assumes "wf_sink (pa_events p)" and "stage_part part c p = (prep, p')"
  shows "keeps (if part = Tail_part then Some (fc_commit_id c) else None) p p' \<and>
    pa_visibility p' = pa_visibility p \<and>
    (\<forall>w. prep = Prepared w \<longrightarrow> staged_ok c p' w \<and> part_of w = part)"
proof (cases part)
  case Tail_part
  obtain a j where st: "stageTransitions (pa_journal p) (fc_fence c) (fc_commit_id c) (fc_transitions c) = (a, j)"
    by (rule prod.exhaust)
  note rows = staged_rows_stage[of _ "pa_journal p" "fc_fence c" "fc_commit_id c" "fc_transitions c", unfolded st]
  have "keeps (Some (fc_commit_id c)) p (p\<lparr>pa_journal := j\<rparr>)"
    by (rule keeps_journal[OF assms(1)]) (use rows in auto)
  then show ?thesis
    using assms(2) rows Tail_part
    by (cases a) (auto simp: stage_part_def Let_def st staged_ok_def part_defs suffix_def)
next
  case Event_part
  obtain a s where st: "stageEmit (pa_visibility p) (fc_fence c) (fc_commit_id c) (fc_event c) (pa_events p) = (a, s)"
    by (rule prod.exhaust)
  note k = kept_stage[OF assms(1), of "pa_visibility p" "fc_fence c" "fc_commit_id c" "fc_event c", unfolded st]
  have "keeps None p (p\<lparr>pa_events := s\<rparr>)"
    using keeps_events[of p s None] k
      backed_stage[OF assms(1), of "pa_visibility p" _ _ _ "fc_fence c" "fc_commit_id c" "fc_event c"] st
    by simp
  moreover have "handle_commit h \<in> {None, Some (fc_commit_id c)}" if "a = Staged h" for h
    using st that
    by (auto simp: stageEmit_def stage_admitted_def Let_def split: prod.splits option.splits if_splits)
  ultimately show ?thesis
    using assms(2) k Event_part
      staged_is_backed[OF assms(1), of "pa_visibility p" "fc_fence c" "fc_commit_id c" "fc_event c"] st
    by (cases a) (auto simp: stage_part_def Let_def staged_ok_def part_defs event_at_def)
next
  case Bundle_part
  obtain a s where st: "stageWrite (fc_fence c) (fc_commit_id c) (fc_bundle c) (pa_evidence p) = (a, s)"
    by (rule prod.exhaust)
  have w: "w \<in> set (es_writes (pa_evidence p)) \<Longrightarrow> w \<in> set (es_writes s)"
    "a = None \<Longrightarrow> bundle_row c \<in> set (es_writes s)" for w
    using st by (auto simp: stageWrite_def bundle_row_def split: prod.splits option.splits)
  have "keeps None p (p\<lparr>pa_evidence := s\<rparr>)"
    by (rule keeps_evidence[OF assms(1)]) (use w in auto)
  then show ?thesis
    using assms(2) w Bundle_part
    by (cases a) (auto simp: stage_part_def Let_def st staged_ok_def part_defs)
qed

lemma keeps_prepare:
  assumes "wf_sink (pa_events p)" and "prepare_part mo part c p = (prep, p')"
  shows "keeps (if part = Tail_part then Some (fc_commit_id c) else None) p p' \<and>
    pa_visibility p' = pa_visibility p \<and>
    (\<forall>w. prep = Prepared w \<longrightarrow> staged_ok c p' w \<and> part_of w = part)"
  using assms keeps_stage[OF assms(1), of part c] keeps_refl[OF assms(1)]
  by (auto simp: prepare_part_def split: port_fault.splits) (metis prod.collapse)+

section \<open>The invariant\<close>

fun parts_before :: "part \<Rightarrow> part list" where
  "parts_before Tail_part = []"
| "parts_before Event_part = [Tail_part]"
| "parts_before Bundle_part = [Tail_part, Event_part]"

lemma parts_before_simps [simp]: "distinct (parts_before part)" "part \<notin> set (parts_before part)"
  by (cases part; simp)+

text \<open>
  An attempt: everything it staged is in place, in order; it is unpublished until it publishes;
  and an attempt that ended without publishing holds nothing.
\<close>

definition attempt_ok :: "string \<Rightarrow> Participants \<Rightarrow> Attempt \<Rightarrow> bool" where
  "attempt_ok i p a \<longleftrightarrow>
     fc_commit_id (at_commit a) = i \<and> list_all (staged_ok (at_commit a) p) (at_staged a) \<and>
     (case at_waiting a of
        Waiting_preparation part prep \<Rightarrow>
          \<not> isPublished (pa_visibility p) i \<and> map part_of (at_staged a) = parts_before part \<and>
          (\<forall>w. prep = Prepared w \<longrightarrow> staged_ok (at_commit a) p w \<and> part_of w = part)
      | Waiting_renewal _ \<Rightarrow>
          \<not> isPublished (pa_visibility p) i \<and>
          map part_of (at_staged a) = [Tail_part, Event_part, Bundle_part]
      | Concluded out \<Rightarrow>
          if out = Committed then isPublished (pa_visibility p) i
          else \<not> isPublished (pa_visibility p) i \<and> at_staged a = [])"

text \<open>What a published commit left: all of it, and the authority of its generation.\<close>

definition complete :: "FinalizationCommit \<Rightarrow> Participants \<Rightarrow> bool" where
  "complete c p \<longleftrightarrow>
     tail_in c p \<and> bundle_in c p \<and>
     durableCanonical (pa_visibility p) (pa_events p) (event_at c) = Some (fc_event c)"

definition published_ok :: "Coordinator \<Rightarrow> Participants \<Rightarrow> string \<Rightarrow> bool" where
  "published_ok f p i \<longleftrightarrow>
     (\<exists>c. fc_commit_id c = i \<and> tf_intents f i = Some (canonical_intent c) \<and>
        tf_finalized f (holder_of (fc_fence c)) = Some i \<and> complete c p)"

text \<open>
  The persistent authority: a published commit finalized one generation, an intent is recorded
  for published commits only, and an attempt that published is what is recorded.
\<close>

definition authority_ok :: "Coordinator \<Rightarrow> CommitLedger \<Rightarrow> bool" where
  "authority_ok f v \<longleftrightarrow>
     (\<forall>h h' i. tf_finalized f h = Some i \<longrightarrow> tf_finalized f h' = Some i \<longrightarrow> h = h') \<and>
     (\<forall>i x. tf_intents f i = Some x \<longrightarrow> isPublished v i) \<and>
     (\<forall>i a. tf_inFlightByCommit f i = Some a \<longrightarrow> at_waiting a = Concluded Committed \<longrightarrow>
        tf_intents f i = Some (canonical_intent (at_commit a)) \<and>
        tf_finalized f (holder_of (fc_fence (at_commit a))) = Some i)"

lemma authority_ok_keeps:
  assumes "authority_ok f v" and "tf_finalized f' = tf_finalized f" and "tf_intents f' = tf_intents f"
    and "\<And>i a. tf_inFlightByCommit f' i = Some a \<Longrightarrow> at_waiting a = Concluded Committed \<Longrightarrow>
      tf_inFlightByCommit f i = Some a"
  shows "authority_ok f' v"
  using assms unfolding authority_ok_def by metis

lemma authority_ok_publish:
  assumes "authority_ok f v" and "\<And>h j. tf_finalized f h = Some j \<Longrightarrow> isPublished v j"
    and "\<not> isPublished v i" and "isPublished v' = (isPublished v)(i := True)"
    and "tf_finalized f (holder_of (fc_fence c)) = None"
    and "tf_inFlightByCommit f' = (tf_inFlightByCommit f)(i \<mapsto> a)" and "at_commit a = c"
    and "tf_finalized f' = (tf_finalized f)(holder_of (fc_fence c) \<mapsto> i)"
    and "tf_intents f' = (tf_intents f)(i \<mapsto> canonical_intent c)"
  shows "authority_ok f' v'"
proof -
  have free: "tf_finalized f h \<noteq> Some i" for h using assms(2,3) by blast
  have old: "tf_finalized f h = Some j \<Longrightarrow> tf_finalized f h' = Some j \<Longrightarrow> h = h'"
      "tf_intents f j = Some x \<Longrightarrow> isPublished v j" for h h' j x
    using assms(1) unfolding authority_ok_def by blast+
  have at: "tf_intents f j = Some (canonical_intent (at_commit b)) \<and>
      tf_finalized f (holder_of (fc_fence (at_commit b))) = Some j"
    if "tf_inFlightByCommit f j = Some b" "at_waiting b = Concluded Committed" for j b
    using assms(1) that unfolding authority_ok_def by blast
  have "h = h'" if "tf_finalized f' h = Some j" "tf_finalized f' h' = Some j" for h h' j
    using that free[of h] free[of h'] old(1)[of h j h'] unfolding assms(8) by (auto split: if_splits)
  moreover have "isPublished v' j" if "tf_intents f' j = Some x" for j x
    using that old(2)[of j x] unfolding assms(4,9) by (auto split: if_splits)
  moreover have "tf_intents f' j = Some (canonical_intent (at_commit b)) \<and>
      tf_finalized f' (holder_of (fc_fence (at_commit b))) = Some j"
    if "tf_inFlightByCommit f' j = Some b" "at_waiting b = Concluded Committed" for j b
    using that at[of j b] assms(5,7) unfolding assms(6,8,9) by (auto split: if_splits)
  ultimately show ?thesis unfolding authority_ok_def by blast
qed

definition fin_inv :: "Coordinator \<times> Participants \<Rightarrow> bool" where
  "fin_inv = (\<lambda>(f, p).
     wf_sink (pa_events p) \<and>
     (\<forall>i a. tf_inFlightByCommit f i = Some a \<longrightarrow> attempt_ok i p a) \<and>
     (\<forall>i. isPublished (pa_visibility p) i \<longrightarrow> published_ok f p i) \<and>
     (\<forall>h i. tf_finalized f h = Some i \<longrightarrow> isPublished (pa_visibility p) i) \<and> authority_ok f (pa_visibility p))"

lemma fin_invD:
  assumes "fin_inv (f, p)"
  shows "wf_sink (pa_events p)" "tf_inFlightByCommit f i = Some a \<Longrightarrow> attempt_ok i p a"
    "isPublished (pa_visibility p) i \<Longrightarrow> published_ok f p i"
    "tf_finalized f h = Some i \<Longrightarrow> isPublished (pa_visibility p) i" "authority_ok f (pa_visibility p)"
  using assms unfolding fin_inv_def by blast+

lemma fin_inv_new: "fin_inv new_world"
  by (simp add: fin_inv_def authority_ok_def new_world_def new_coordinator_def new_participants_def isPublished_def)

text \<open>The invariant of the rest, across a step of the commit \<open>i\<close>, or of nobody.\<close>

lemma attempt_ok_keeps:
  assumes "keeps d p p'" and "d \<noteq> Some i" and "attempt_ok i p a"
    and "isPublished (pa_visibility p') i = isPublished (pa_visibility p) i"
  shows "attempt_ok i p' a"
  using assms staged_ok_keeps[OF assms(1)]
  by (auto simp: attempt_ok_def list_all_iff split: waiting.splits)

lemma complete_keeps:
  "keeps d p p' \<Longrightarrow> d \<noteq> Some (fc_commit_id c) \<Longrightarrow> complete c p \<Longrightarrow> complete c p'"
  using keepsD(3)[of d p p' c Tail_part] keepsD(3)[of d p p' c Bundle_part] keepsD(4)[of d p p']
  unfolding complete_def part_in_def by auto

lemma fin_inv_keeps:
  assumes "fin_inv (f, p)" and "keeps d p p'" and "pa_visibility p' = pa_visibility p"
    and "\<And>i. d = Some i \<Longrightarrow> \<not> isPublished (pa_visibility p) i"
    and "tf_finalized f' = tf_finalized f" and "tf_intents f' = tf_intents f"
    and "\<And>i a. tf_inFlightByCommit f' i = Some a \<Longrightarrow>
      d \<noteq> Some i \<and> tf_inFlightByCommit f i = Some a \<or> attempt_ok i p' a \<and> \<not> isPublished (pa_visibility p) i"
  shows "fin_inv (f', p')"
proof -
  note inv = fin_invD[OF assms(1)]
  have "published_ok f' p' i" if "isPublished (pa_visibility p) i" for i
    using inv(3)[OF that] assms(4)[of i] that complete_keeps[OF assms(2)]
    unfolding published_ok_def assms(5,6) by metis
  moreover have "attempt_ok i p' a" if "tf_inFlightByCommit f' i = Some a" for i a
    using assms(7)[OF that] inv(2)[of i a] attempt_ok_keeps[OF assms(2), of i a] assms(3) by auto
  moreover have "authority_ok f' (pa_visibility p)"
  proof (rule authority_ok_keeps[OF inv(5) assms(5,6)])
    fix i a assume a: "tf_inFlightByCommit f' i = Some a" "at_waiting a = Concluded Committed"
    then have "\<not> attempt_ok i p' a \<or> isPublished (pa_visibility p) i"
      using assms(3) by (auto simp: attempt_ok_def)
    with assms(7)[OF a(1)] show "tf_inFlightByCommit f i = Some a" by blast
  qed
  ultimately show ?thesis
    using keepsD(1)[OF assms(2)] inv(4) assms(3,5) by (auto simp: fin_inv_def)
qed


section \<open>The segments keep the invariant\<close>

text \<open>What a segment of a commit yields: its attempt in order, and everything else kept.\<close>

definition segment_ok :: "FinalizationCommit \<Rightarrow> Participants \<Rightarrow> Attempt \<times> Participants \<Rightarrow> bool" where
  "segment_ok c p r \<longleftrightarrow>
     keeps (Some (fc_commit_id c)) p (snd r) \<and> pa_visibility (snd r) = pa_visibility p \<and>
     seen (snd r) = seen p \<and> attempt_ok (fc_commit_id c) (snd r) (fst r)"

lemma segment_abandoned:
  assumes "wf_sink (pa_events p)" and "list_all (staged_ok c p) staged" and "distinct (map part_of staged)"
    and "\<not> isPublished (pa_visibility p) (fc_commit_id c)" and "out \<noteq> Committed"
  shows "segment_ok c p (\<lparr>at_commit = c, at_staged = [], at_waiting = Concluded out\<rparr>, abandon_all staged p)"
  using keeps_abandon_all[of p staged c] assms by (simp add: segment_ok_def attempt_ok_def list_all_iff)

lemma expiredOutcome_not [simp]: "expiredOutcome c what \<noteq> Committed"
  by (simp add: expiredOutcome_def Let_def)

lemma segment_prepare:
  assumes "wf_sink (pa_events p)" and "list_all (staged_ok c p) staged"
    and "map part_of staged = parts_before part" and "\<not> isPublished (pa_visibility p) (fc_commit_id c)"
  shows "segment_ok c p (prepare_segment mo part c staged p)"
proof -
  obtain prep p1 where pp: "prepare_part mo part c p = (prep, p1)"
    by (rule prod.exhaust)
  note k = keeps_prepare[OF assms(1) pp]
  have "list_all (staged_ok c p1) staged"
  proof (cases "part = Tail_part")
    case True
    with assms(3) show ?thesis by simp
  next
    case False
    with k have "keeps None p p1" by simp
    from staged_ok_keeps[OF this] assms(2) show ?thesis by (auto simp: list_all_iff)
  qed
  moreover have "keeps (Some (fc_commit_id c)) p p1"
    using k keeps_weaken by (auto split: if_splits)
  ultimately have "segment_ok c p
      (\<lparr>at_commit = c, at_staged = staged, at_waiting = Waiting_preparation part prep\<rparr>, p1)"
    using k assms(3,4) seen_prepare_part[OF assms(4) pp] by (simp add: segment_ok_def attempt_ok_def)
  moreover have "distinct (map part_of staged)" by (simp add: assms(3))
  ultimately show ?thesis
    using segment_abandoned[OF assms(1,2) _ assms(4)] by (simp add: prepare_segment_def Let_def pp)
qed

lemma segment_renew:
  assumes "wf_sink (pa_events p)" and "list_all (staged_ok c p) staged"
    and "map part_of staged = [Tail_part, Event_part, Bundle_part]"
    and "\<not> isPublished (pa_visibility p) (fc_commit_id c)"
  shows "segment_ok c p (renew_segment mo c staged p)"
proof (cases "mo_aborted mo")
  case True
  then show ?thesis
    using segment_abandoned[OF assms(1,2) _ assms(4)] assms(3) by (simp add: renew_segment_def)
next
  case False
  then show ?thesis
    using keeps_refl[OF assms(1)] assms by (simp add: renew_segment_def segment_ok_def attempt_ok_def)
qed

lemma segment_after_preparation:
  assumes "wf_sink (pa_events p)" and "list_all (staged_ok c p) staged"
    and "map part_of staged = parts_before part" and "\<not> isPublished (pa_visibility p) (fc_commit_id c)"
    and "\<And>w. prep = Prepared w \<Longrightarrow> staged_ok c p w \<and> part_of w = part"
  shows "segment_ok c p (after_preparation mo part prep c staged p)"
proof (cases prep)
  case (Prepared w)
  note w = assms(5)[OF this]
  have "list_all (staged_ok c p) (staged @ [w])"
      "map part_of (staged @ [w]) = parts_before part @ [part]" "sw_commit w = fc_commit_id c"
    using assms(2,3) w by simp_all (simp add: staged_ok_def)
  then show ?thesis
    using segment_prepare[OF assms(1) _ _ assms(4)] segment_renew[OF assms(1) _ _ assms(4)] Prepared
    by (cases part) (simp_all add: after_preparation_def Let_def)
qed (use segment_abandoned[OF assms(1,2) _ assms(4)] assms(3) in
    \<open>simp_all add: after_preparation_def Let_def\<close>)

lemma fin_inv_segment:
  assumes "fin_inv (f, p)" and "segment_ok c p (a, p')" and "\<not> isPublished (pa_visibility p) (fc_commit_id c)"
    and "tf_finalized f' = tf_finalized f" and "tf_intents f' = tf_intents f"
    and "tf_inFlightByCommit f' = (tf_inFlightByCommit f)(fc_commit_id c \<mapsto> a)"
  shows "fin_inv (f', p')"
proof (rule fin_inv_keeps[OF assms(1), of "Some (fc_commit_id c)"])
  show "Some (fc_commit_id c) \<noteq> Some i \<and> tf_inFlightByCommit f i = Some a' \<or>
      attempt_ok i p' a' \<and> \<not> isPublished (pa_visibility p) i"
    if "tf_inFlightByCommit f' i = Some a'" for i a'
    using that assms(2,3) unfolding assms(6) segment_ok_def by (auto split: if_splits)
qed (use assms(2-5) in \<open>auto simp: segment_ok_def\<close>)

lemma isPublished_publish [simp]: "isPublished (publish v i) j \<longleftrightarrow> j = i \<or> isPublished v j"
  by (auto simp: isPublished_def publish_def)

text \<open>The publication itself: one insertion makes all of the commit visible.\<close>

lemma fin_inv_published:
  assumes "fin_inv (f, p)" and "tf_inFlightByCommit f i = Some a" and "at_waiting a = Waiting_renewal r"
    and "tf_finalized f (holder_of (fc_fence (at_commit a))) = None"
    and "p' = p\<lparr>pa_visibility := publish (pa_visibility p) i\<rparr>"
    and "tf_inFlightByCommit f' =
      (tf_inFlightByCommit f)(i \<mapsto> \<lparr>at_commit = at_commit a, at_staged = at_staged a, at_waiting = Concluded Committed\<rparr>)"
    and "tf_finalized f' = (tf_finalized f)(holder_of (fc_fence (at_commit a)) \<mapsto> i)"
    and "tf_intents f' = (tf_intents f)(i \<mapsto> canonical_intent (at_commit a))"
  shows "fin_inv (f', p')"
proof -
  let ?c = "at_commit a"
  note inv = fin_invD[OF assms(1)]
  have k: "keeps None p p'" unfolding assms(5) by (rule keeps_publish[OF inv(1)])
  have a: "fc_commit_id ?c = i" "\<not> isPublished (pa_visibility p) i" "list_all (staged_ok ?c p) (at_staged a)"
      "map part_of (at_staged a) = [Tail_part, Event_part, Bundle_part]"
    using inv(2)[OF assms(2)] assms(3) by (simp_all add: attempt_ok_def)
  have "part_in part ?c p" for part
  proof -
    have "part \<in> set (map part_of (at_staged a))" unfolding a(4) by (cases part) simp_all
    then show ?thesis using a(3) by (auto simp: staged_ok_def list_all_iff)
  qed
  from this[of Tail_part] this[of Event_part] this[of Bundle_part]
  have c: "complete ?c p'"
    using backed_publish[OF inv(1), of "pa_visibility p" "event_at ?c" i "fc_event ?c"] a(1)
    by (simp add: complete_def part_defs assms(5))
  have "published_ok f' p' j" if "isPublished (pa_visibility p) j" for j
  proof -
    from inv(3)[OF that] obtain d where d: "fc_commit_id d = j" "tf_intents f j = Some (canonical_intent d)"
        "tf_finalized f (holder_of (fc_fence d)) = Some j" "complete d p"
      unfolding published_ok_def by (rule exE) blast
    with that a(2) assms(4) have "j \<noteq> i" "holder_of (fc_fence d) \<noteq> holder_of (fc_fence ?c)" by auto
    with d complete_keeps[OF k] show ?thesis
      unfolding published_ok_def assms(7,8) by (intro exI[of _ d]) simp
  qed
  moreover have "published_ok f' p' i"
    unfolding published_ok_def assms(7,8) using a(1) c by (intro exI[of _ ?c]) simp
  moreover have "attempt_ok j p' b" if "tf_inFlightByCommit f' j = Some b" for j b
  proof (cases "j = i")
    case True
    have "list_all (staged_ok ?c p') (at_staged a)"
      using a(3) staged_ok_keeps[OF k] by (auto simp: list_all_iff)
    moreover from True that have
      "b = \<lparr>at_commit = ?c, at_staged = at_staged a, at_waiting = Concluded Committed\<rparr>"
      unfolding assms(6) by simp
    ultimately show ?thesis using True a(1) by (simp add: attempt_ok_def assms(5))
  next
    case False
    with that have "attempt_ok j p b" unfolding assms(6) using inv(2) by simp
    from attempt_ok_keeps[OF k _ this] False show ?thesis by (simp add: assms(5))
  qed
  moreover have "authority_ok f' (pa_visibility p')"
  proof (rule authority_ok_publish[OF inv(5) _ a(2) _ _ assms(6) _ assms(7,8)])
    show "isPublished (pa_visibility p') = (isPublished (pa_visibility p))(i := True)"
      by (auto simp: assms(5) fun_eq_iff)
    show "at_commit \<lparr>at_commit = at_commit a, at_staged = at_staged a, at_waiting = Concluded Committed\<rparr> =
      at_commit a" by simp
  qed (use inv(4) assms(4) in auto)
  moreover have "isPublished (pa_visibility p') j" if "tf_finalized f' h = Some j" for h j
    using that inv(4)[of h j] unfolding assms(5,7) by (auto split: if_splits)
  ultimately show ?thesis
    using keepsD(1)[OF k] by (auto simp: fin_inv_def assms(5))
qed

lemma fin_inv_publish_segment:
  assumes "fin_inv (f, p)" and "tf_inFlightByCommit f i = Some a" and "at_waiting a = Waiting_renewal r"
    and "publish_segment mo r (at_commit a) (at_staged a) (f, p) = (a', f', p')"
  shows "fin_inv (f'\<lparr>tf_inFlightByCommit := (tf_inFlightByCommit f')(i \<mapsto> a')\<rparr>, p')"
proof -
  let ?c = "at_commit a"
  note inv = fin_invD[OF assms(1)]
  have a: "fc_commit_id ?c = i" "\<not> isPublished (pa_visibility p) i" "list_all (staged_ok ?c p) (at_staged a)"
      "map part_of (at_staged a) = [Tail_part, Event_part, Bundle_part]"
    using inv(2)[OF assms(2)] assms(3) by (simp_all add: attempt_ok_def)
  then have d: "distinct (map part_of (at_staged a))" by simp
  note abandoned = segment_abandoned[OF inv(1) a(3) d, unfolded a(1), OF a(2)]
  show ?thesis
  proof (cases "refusal_before_marker mo r ?c f")
    case (Some out)
    then have "out \<noteq> Committed"
      by (auto simp: refusal_before_marker_def already_published_def
          split: sum.splits bool.splits if_splits option.splits)
    with abandoned assms(4) Some fin_inv_segment[OF assms(1), of ?c a' p'] a(1,2) show ?thesis
      by (auto simp: publish_segment_def Let_def)
  next
    case None
    then have free: "tf_finalized f (holder_of (fc_fence ?c)) = None"
      by (auto simp: refusal_before_marker_def split: sum.splits bool.splits if_splits option.splits)
    show ?thesis
    proof (cases "commit_expired mo ?c")
      case True
      with abandoned assms(4) None fin_inv_segment[OF assms(1), of ?c a' p'] a(1,2) show ?thesis
        by (auto simp: publish_segment_def Let_def)
    next
      case False
      with assms(4) None a(1) have
        r: "p' = p\<lparr>pa_visibility := publish (pa_visibility p) i\<rparr>"
           "a' = \<lparr>at_commit = ?c, at_staged = at_staged a, at_waiting = Concluded Committed\<rparr>"
           "tf_inFlightByCommit f' = tf_inFlightByCommit f"
           "tf_finalized f' = (tf_finalized f)(holder_of (fc_fence ?c) \<mapsto> i)"
           "tf_intents f' = (tf_intents f)(i \<mapsto> canonical_intent ?c)"
        by (auto simp: publish_segment_def Let_def)
      from fin_inv_published[OF assms(1,2,3) free] r show ?thesis by simp
    qed
  qed
qed

section \<open>Every step keeps the invariant\<close>

lemma fin_inv_commit:
  assumes "fin_inv (f, p)"
  shows "fin_inv (snd (commit mo c (f, p)))"
proof -
  note inv = fin_invD[OF assms]
  obtain a p1 where s: "prepare_segment mo Tail_part c [] p = (a, p1)" by (rule prod.exhaust)
  have "fin_inv (f', p1)"
    if "\<not> isPublished (pa_visibility p) (fc_commit_id c)" "tf_finalized f' = tf_finalized f"
      "tf_intents f' = tf_intents f"
      "tf_inFlightByCommit f' = (tf_inFlightByCommit f)(fc_commit_id c \<mapsto> a)" for f'
    using fin_inv_segment[OF assms, of c a p1 f'] segment_prepare[OF inv(1), of c "[]" Tail_part mo] that s
    by simp
  then show ?thesis
    using assms by (simp add: commit_def Let_def s split: option.splits)
qed

lemma fin_inv_resume:
  assumes "fin_inv (f, p)"
  shows "fin_inv (snd (resume mo i (f, p)))"
proof (cases "tf_inFlightByCommit f i")
  case None
  with assms show ?thesis by (simp add: resume_def)
next
  case (Some a)
  note inv = fin_invD[OF assms]
  have a: "attempt_ok i p a" by (rule inv(2)[OF Some])
  then have c: "fc_commit_id (at_commit a) = i" by (simp add: attempt_ok_def)
  show ?thesis
  proof (cases "at_waiting a")
    case (Waiting_preparation part prep)
    obtain a' p1 where s: "after_preparation mo part prep (at_commit a) (at_staged a) p = (a', p1)"
      by (rule prod.exhaust)
    have "segment_ok (at_commit a) p (a', p1)" "\<not> isPublished (pa_visibility p) i"
      using segment_after_preparation[OF inv(1), of "at_commit a" "at_staged a" part prep mo] a Waiting_preparation s
      by (simp_all add: attempt_ok_def)
    with fin_inv_segment[OF assms, of "at_commit a" a' p1] c Some Waiting_preparation s show ?thesis
      by (simp add: resume_def Let_def)
  next
    case (Waiting_renewal r)
    obtain a' f1 p1 where s: "publish_segment mo r (at_commit a) (at_staged a) (f, p) = (a', f1, p1)"
      by (metis prod.exhaust)
    from fin_inv_publish_segment[OF assms Some Waiting_renewal s] Some Waiting_renewal s show ?thesis
      by (simp add: resume_def Let_def)
  next
    case (Concluded out)
    have "fin_inv (f', p)"
      if "tf_finalized f' = tf_finalized f" "tf_intents f' = tf_intents f"
        "tf_inFlightByCommit f' = (tf_inFlightByCommit f)(i := None)" for f'
      by (rule fin_inv_keeps[OF assms keeps_refl[OF inv(1), of None]]) (use that in \<open>auto split: if_splits\<close>)
    with Some Concluded show ?thesis by (simp add: resume_def Let_def)
  qed
qed

lemma fin_inv_do:
  assumes "fin_inv (f, p)"
  shows "fin_inv (world_do e (f, p))"
proof (cases "\<exists>mo c i. e = Commit_called mo c \<or> e = Resumed mo i")
  case True
  then show ?thesis using fin_inv_commit[OF assms] fin_inv_resume[OF assms] by auto
next
  case False
  then have k: "keeps None p (snd (world_do e (f, p)))" "fst (world_do e (f, p)) = f"
      "pa_visibility (snd (world_do e (f, p))) = pa_visibility p"
    using keeps_ordinary[OF fin_invD(1)[OF assms], of e] by blast+
  from fin_inv_keeps[OF assms k(1) k(3), of f] k(2) show ?thesis
    by (metis option.distinct(1) prod.collapse)
qed

lemma fin_inv_run: "fin_inv st \<Longrightarrow> fin_inv (world_run es st)"
proof (induction es arbitrary: st)
  case (Cons e es)
  with fin_inv_do[of "fst st" "snd st" e] show ?case by (simp add: world_run_def)
qed (simp add: world_run_def)

lemma fin_inv_reached: "world_run es new_world = (f, p) \<Longrightarrow> fin_inv (f, p)"
  using fin_inv_run[OF fin_inv_new, of es] by simp

section \<open>What a published commit left\<close>

definition sample_commit :: FinalizationCommit where
  "sample_commit =
     \<lparr>fc_fence = sample_fence, fc_commit_id = ''c'', fc_terminal = Terminal COMPLETED,
      fc_transitions = [sample_transition], fc_event = sample_event, fc_bundle = sample_bundle,
      fc_expires_at = Some 9, fc_expires_bound = Some Governed_bound\<rparr>"

definition quiet :: moment where
  "quiet = \<lparr>mo_aborted = False, mo_now = 0, mo_fault = Answers\<rparr>"

text \<open>The run is claimed, and its commit goes through to the marker.\<close>

definition sample_steps :: "world_event list" where
  "sample_steps =
     [Leased (Op_claim ''r'' ''a'' False), Commit_called quiet sample_commit, Resumed quiet ''c'', Resumed quiet ''c'',
      Resumed quiet ''c'']"

lemma staged_rows_visible:
  assumes "isPublished v i"
  shows "subseq (staged_rows i j run) (visible_transitions v (page_of j run))"
proof -
  have "filter (\<lambda>row. fst row = Some i) xs = filter (\<lambda>row. fst row = Some i) (filter (\<lambda>row. isVisible v (fst row)) xs)"
    for xs :: "(string option \<times> TransitionEntry) list"
    using assms by (auto simp: isVisible_def intro!: filter_cong)
  then show ?thesis
    unfolding staged_rows_def visible_transitions_def by (metis subseq_filter_left subseq_map)
qed

text \<open>
  C10: Whatever interleaves with finalization, a commit is never half published: of every
  published commit the whole transition tail is readable in order in the journal of its run,
  its terminal event is durable under its sequence, its sealed bundle is a readable record of
  the run, and the coordinator holds its intent and the one generation it finalized.
\<close>

theorem published_commit_is_complete:
  assumes "world_run es new_world = (f, p)" and "isPublished (pa_visibility p) i"
  shows "\<exists>c run. fc_commit_id c = i \<and> fn_run_id (fc_fence c) = run \<and>
    subseq (fc_transitions c) (visible_transitions (pa_visibility p) (page_of (pa_journal p) run)) \<and>
    durableCanonical (pa_visibility p) (pa_events p) (run, ev_sequence (fc_event c)) = Some (fc_event c) \<and>
    \<lparr>rw_run_id = run, rw_payload = Bundle_record (fc_bundle c), rw_commit = Some i\<rparr> \<in>
      set (writesOf (pa_visibility p) (pa_evidence p) run) \<and>
    tf_intents f i = Some (canonical_intent c) \<and> tf_finalized f (holder_of (fc_fence c)) = Some i"
proof -
  from fin_invD(3)[OF fin_inv_reached[OF assms(1)] assms(2)]
  obtain c where c: "fc_commit_id c = i" "tf_intents f i = Some (canonical_intent c)"
      "tf_finalized f (holder_of (fc_fence c)) = Some i" "complete c p"
    unfolding published_ok_def by (rule exE) blast
  have "subseq (fc_transitions c) (staged_rows i (pa_journal p) (fn_run_id (fc_fence c)))"
    using c(1,4) by (auto simp: complete_def tail_in_def suffix_def)
  from subseq_order.trans[OF this staged_rows_visible[OF assms(2)]] c assms(2) show ?thesis
    by (intro exI[of _ c])
      (auto simp: complete_def bundle_in_def bundle_row_def event_at_def writesOf_def visibleWrites_def isVisible_def)
qed

lemma published_commit_is_complete_witness:
  "case world_run (sample_steps @ [Resumed quiet ''c'']) new_world of (f, p) \<Rightarrow>
     \<exists>c :: FinalizationCommit. fc_commit_id c = ''c'' \<and>
       durableCanonical (pa_visibility p) (pa_events p) (fn_run_id (fc_fence c), ev_sequence (fc_event c)) =
         Some (fc_event c)"
proof -
  obtain f p where fp: "world_run (sample_steps @ [Resumed quiet ''c'']) new_world = (f, p)"
    by (rule prod.exhaust)
  have "isPublished (pa_visibility (snd (world_run (sample_steps @ [Resumed quiet ''c'']) new_world))) ''c''"
    by code_simp
  then have "isPublished (pa_visibility p) ''c''" by (simp add: fp)
  from published_commit_is_complete[OF fp this] show ?thesis unfolding fp prod.case by blast
qed

text \<open>
  C11: Before its marker a finalization shows nothing, and the marker is one mutation: in
  any reachable state, the next segment of a commit either leaves everything readers see of
  every run as it was, or publishes that commit and changes no participant at all. It does the latter only
  for a commit whose three parts are prepared and in place, and whose lease answered that the
  run is still owned.
\<close>

theorem only_the_marker_shows:
  assumes "world_run es new_world = (f, p)" and "world_do (Resumed mo i) (f, p) = (f', p')"
  shows "if pa_visibility p' = pa_visibility p then seen p' = seen p
    else p' = p\<lparr>pa_visibility := publish (pa_visibility p) i\<rparr> \<and>
      (\<exists>a. tf_inFlightByCommit f i = Some a \<and> at_waiting a = Waiting_renewal (Inr True) \<and>
         map part_of (at_staged a) = [Tail_part, Event_part, Bundle_part] \<and>
         list_all (staged_ok (at_commit a) p) (at_staged a) \<and> \<not> mo_aborted mo \<and>
         \<not> commit_expired mo (at_commit a))"
proof (cases "tf_inFlightByCommit f i")
  case None
  with assms(2) show ?thesis by (simp add: resume_def)
next
  case (Some a)
  note inv = fin_invD[OF fin_inv_reached[OF assms(1)]]
  have a: "attempt_ok i p a" by (rule inv(2)[OF Some])
  show ?thesis
  proof (cases "at_waiting a")
    case (Waiting_preparation part prep)
    have "segment_ok (at_commit a) p (after_preparation mo part prep (at_commit a) (at_staged a) p)"
      using segment_after_preparation[OF inv(1), of "at_commit a" "at_staged a" part prep mo] a Waiting_preparation
      by (simp add: attempt_ok_def)
    with assms(2) Some Waiting_preparation show ?thesis
      by (auto simp: resume_def Let_def segment_ok_def split: prod.splits)
  next
    case (Waiting_renewal r)
    then have a': "list_all (staged_ok (at_commit a) p) (at_staged a)" "\<not> isPublished (pa_visibility p) i"
        "map part_of (at_staged a) = [Tail_part, Event_part, Bundle_part]" "fc_commit_id (at_commit a) = i"
      using a by (simp_all add: attempt_ok_def)
    then have "seen (abandon_all (at_staged a) p) = seen p \<and>
        pa_visibility (abandon_all (at_staged a) p) = pa_visibility p"
      using keeps_abandon_all[OF inv(1), of "at_staged a" "at_commit a"] by (simp add: list_all_iff)
    moreover have "r = Inr True \<and> \<not> mo_aborted mo" if "refusal_before_marker mo r (at_commit a) f = None"
      using that by (auto simp: refusal_before_marker_def split: sum.splits bool.splits if_splits)
    ultimately show ?thesis
      using assms(2) Some Waiting_renewal a'
      by (auto simp: resume_def Let_def publish_segment_def split: option.splits if_splits)
  next
    case (Concluded out)
    with assms(2) Some show ?thesis by (auto simp: resume_def Let_def)
  qed
qed

lemma only_the_marker_shows_witness:
  "case world_run sample_steps new_world of (f, p) \<Rightarrow>
     snd (world_do (Resumed quiet ''c'') (f, p)) = p\<lparr>pa_visibility := publish (pa_visibility p) ''c''\<rparr>"
proof -
  obtain f p where fp: "world_run sample_steps new_world = (f, p)" by (rule prod.exhaust)
  obtain f' p' where fp': "world_do (Resumed quiet ''c'') (f, p) = (f', p')" by (rule prod.exhaust)
  have "(pa_visibility (snd (world_run sample_steps new_world)),
      pa_visibility (snd (world_do (Resumed quiet ''c'') (world_run sample_steps new_world)))) = ([], [''c''])"
    by code_simp
  then have "pa_visibility p' \<noteq> pa_visibility p" by (simp add: fp fp' del: world_do.simps)
  with only_the_marker_shows[OF fp fp'] show ?thesis by (simp add: fp fp' del: world_do.simps)
qed

section \<open>Publication is final\<close>

text \<open>What a step of a commit changes of the published set and of the persistent authority.\<close>

definition authority_kept :: "Coordinator \<times> Participants \<Rightarrow> Coordinator \<times> Participants \<Rightarrow> bool" where
  "authority_kept = (\<lambda>(f, p) (f', p').
     tf_finalized f \<subseteq>\<^sub>m tf_finalized f' \<and> tf_intents f \<subseteq>\<^sub>m tf_intents f' \<and>
     (\<forall>i. isPublished (pa_visibility p) i \<longrightarrow> isPublished (pa_visibility p') i))"

lemma authority_keptD:
  assumes "authority_kept (f, p) (f', p')"
  shows "tf_finalized f h = Some i \<Longrightarrow> tf_finalized f' h = Some i"
    "tf_intents f i = Some x \<Longrightarrow> tf_intents f' i = Some x"
    "isPublished (pa_visibility p) i \<Longrightarrow> isPublished (pa_visibility p') i"
  using assms unfolding authority_kept_def map_le_def prod.case by (metis domI)+

lemma authority_kept_same:
  assumes "tf_finalized f' = tf_finalized f" and "tf_intents f' = tf_intents f"
    and "pa_visibility p' = pa_visibility p"
  shows "authority_kept (f, p) (f', p')"
  using assms by (simp add: authority_kept_def)

lemma authority_kept_commit:
  assumes "fin_inv (f, p)"
  shows "authority_kept (f, p) (snd (commit mo c (f, p)))"
proof (cases "isPublished (pa_visibility p) (fc_commit_id c)")
  case True
  then show ?thesis by (simp add: commit_def Let_def authority_kept_same)
next
  case False
  obtain a p1 where s: "prepare_segment mo Tail_part c [] p = (a, p1)" by (rule prod.exhaust)
  have "pa_visibility p1 = pa_visibility p"
    using segment_prepare[OF fin_invD(1)[OF assms], of c "[]" Tail_part mo] False s by (simp add: segment_ok_def)
  then show ?thesis by (simp add: commit_def Let_def s authority_kept_def split: option.splits)
qed

lemma authority_kept_resume:
  assumes "fin_inv (f, p)"
  shows "authority_kept (f, p) (snd (resume mo i (f, p)))"
proof (cases "tf_inFlightByCommit f i")
  case None
  then show ?thesis by (simp add: resume_def authority_kept_same)
next
  case (Some a)
  note inv = fin_invD[OF assms]
  have a: "attempt_ok i p a" by (rule inv(2)[OF Some])
  show ?thesis
  proof (cases "at_waiting a")
    case (Waiting_preparation part prep)
    have "segment_ok (at_commit a) p (after_preparation mo part prep (at_commit a) (at_staged a) p)"
      using segment_after_preparation[OF inv(1), of "at_commit a" "at_staged a" part prep mo] a Waiting_preparation
      by (simp add: attempt_ok_def)
    with Some Waiting_preparation show ?thesis
      by (auto simp: resume_def Let_def segment_ok_def authority_kept_def split: prod.splits)
  next
    case (Waiting_renewal r)
    then have a': "list_all (staged_ok (at_commit a) p) (at_staged a)" "\<not> isPublished (pa_visibility p) i"
        "distinct (map part_of (at_staged a))" "fc_commit_id (at_commit a) = i"
      using a by (simp_all add: attempt_ok_def)
    then have "pa_visibility (abandon_all (at_staged a) p) = pa_visibility p"
      using keeps_abandon_all[OF inv(1), of "at_staged a" "at_commit a"] by (simp add: list_all_iff)
    moreover have "tf_intents f i = None"
      using inv(5) a'(2) unfolding authority_ok_def by (metis not_None_eq)
    moreover have "tf_finalized f (holder_of (fc_fence (at_commit a))) = None"
      if "refusal_before_marker mo r (at_commit a) f = None"
      using that by (auto simp: refusal_before_marker_def split: sum.splits bool.splits if_splits option.splits)
    ultimately show ?thesis
      using Some Waiting_renewal a'(4)
      by (auto simp: resume_def Let_def publish_segment_def authority_kept_def map_le_def split: option.splits)
  next
    case (Concluded out)
    with Some show ?thesis by (simp add: resume_def Let_def authority_kept_def)
  qed
qed

lemma authority_kept_do:
  assumes "fin_inv (f, p)"
  shows "authority_kept (f, p) (world_do e (f, p))"
proof (cases "\<exists>mo c i. e = Commit_called mo c \<or> e = Resumed mo i")
  case True
  then show ?thesis using authority_kept_commit[OF assms] authority_kept_resume[OF assms] by auto
next
  case False
  then have "fst (world_do e (f, p)) = f" "pa_visibility (snd (world_do e (f, p))) = pa_visibility p"
    using keeps_ordinary[OF fin_invD(1)[OF assms], of e] by blast+
  then show ?thesis using authority_kept_same[of f f "snd (world_do e (f, p))" p] by (metis prod.collapse)
qed

lemma authority_kept_run: "fin_inv st \<Longrightarrow> authority_kept st (world_run es st)"
proof (induction es arbitrary: st)
  case (Cons e es)
  obtain f p where st: "st = (f, p)" by (rule prod.exhaust)
  have "authority_kept st (world_do e st)" "authority_kept (world_do e st) (world_run es (world_do e st))"
    using Cons authority_kept_do fin_inv_do unfolding st by auto
  then show ?case
    by (auto simp: authority_kept_def world_run_def split: prod.splits intro: map_le_trans)
qed (auto simp: authority_kept_def world_run_def)

text \<open>
  One terminal commit per generation, in every interleaving: the generations that
  finalized correspond one to one to the published commits.
\<close>

theorem one_commit_per_generation:
  assumes "world_run es new_world = (f, p)"
  shows "bij_betw (the \<circ> tf_finalized f) (dom (tf_finalized f)) (set (pa_visibility p))"
proof -
  note inv = fin_invD[OF fin_inv_reached[OF assms]]
  have "inj_on (the \<circ> tf_finalized f) (dom (tf_finalized f))"
    using inv(5) unfolding authority_ok_def by (auto simp: inj_on_def)
  moreover have "i \<in> (the \<circ> tf_finalized f) ` dom (tf_finalized f)" if "i \<in> set (pa_visibility p)" for i
  proof -
    have "published_ok f p i" using inv(3)[of i] that by (simp add: isPublished_def)
    then obtain h where "tf_finalized f h = Some i" unfolding published_ok_def by blast
    then show ?thesis by (intro image_eqI[of _ _ h]) auto
  qed
  ultimately show ?thesis
    using inv(4) by (auto simp: bij_betw_def isPublished_def)
qed

lemma one_commit_per_generation_witness:
  "bij_betw (the \<circ> tf_finalized (fst (world_run sample_steps new_world)))
     (dom (tf_finalized (fst (world_run sample_steps new_world))))
     (set (pa_visibility (snd (world_run sample_steps new_world))))"
  by (rule one_commit_per_generation[of sample_steps]) simp

text \<open>
  C12: A commit that was answered as committed stays the record of its generation,
  whatever happens next: calling it again answers committed at once and changes nothing,
  another intent under its identity is refused, another unpublished commit of its generation
  is refused, and none of them touches a participant.
\<close>

theorem committed_is_final:
  assumes "world_run es new_world = (f0, p0)" and "tf_inFlightByCommit f0 i = Some a"
    and "resume mo i (f0, p0) = (Some Committed, f1, p1)" and "world_run es' (f1, p1) = (f, p)"
    and "fc_commit_id d = i \<or>
      holder_of (fc_fence d) = holder_of (fc_fence (at_commit a)) \<and> fc_commit_id d \<notin> set (pa_visibility p)"
  shows "commit mo' (at_commit a) (f, p) = (Answered_now Committed, f, p) \<and>
    (\<exists>out. commit mo' d (f, p) = (Answered_now out, f, p) \<and>
      (out = Committed) = (fc_commit_id d = i \<and> canonical_intent d = canonical_intent (at_commit a)))"
proof (intro conjI)
  have inv0: "fin_inv (f0, p0)" by (rule fin_inv_reached[OF assms(1)])
  have wait: "at_waiting a = Concluded Committed"
    using assms(2,3) by (auto simp: resume_def Let_def split: waiting.splits prod.splits)
  have was: "fc_commit_id (at_commit a) = i" "isPublished (pa_visibility p0) i"
    using fin_invD(2)[OF inv0 assms(2)] wait by (simp_all add: attempt_ok_def)
  have at: "tf_intents f0 i = Some (canonical_intent (at_commit a))"
      "tf_finalized f0 (holder_of (fc_fence (at_commit a))) = Some i"
    using fin_invD(5)[OF inv0] wait assms(2) unfolding authority_ok_def by blast+
  have k: "authority_kept (f0, p0) (f1, p1)" and "fin_inv (f1, p1)"
    using authority_kept_resume[OF inv0, of mo i] fin_inv_resume[OF inv0, of mo i] assms(3) by simp_all
  then have k': "authority_kept (f1, p1) (f, p)"
    using authority_kept_run[of "(f1, p1)" es'] assms(4) by simp
  have now: "isPublished (pa_visibility p) i" "tf_intents f i = Some (canonical_intent (at_commit a))"
      "tf_finalized f (holder_of (fc_fence (at_commit a))) = Some i"
    using was at authority_keptD[OF k] authority_keptD[OF k'] by blast+
  from now was(1) show "commit mo' (at_commit a) (f, p) = (Answered_now Committed, f, p)"
    by (simp add: commit_def)
  show "\<exists>out. commit mo' d (f, p) = (Answered_now out, f, p) \<and>
      (out = Committed) = (fc_commit_id d = i \<and> canonical_intent d = canonical_intent (at_commit a))"
  proof (cases "fc_commit_id d = i")
    case True
    with now show ?thesis by (auto simp: commit_def)
  next
    case False
    with assms(5) now show ?thesis by (auto simp: commit_def isPublished_def already_published_def)
  qed
qed

text \<open>Another terminal event under the same generation.\<close>

definition rival_commit :: FinalizationCommit where
  "rival_commit = sample_commit\<lparr>fc_commit_id := ''d'', fc_terminal := Terminal CANCELLED\<rparr>"

lemma committed_is_final_witness:
  "case world_run (sample_steps @ [Resumed quiet ''c'', Resumed quiet ''c'', Leased (Op_seize ''r'')]) new_world of
     (f, p) \<Rightarrow>
       commit quiet sample_commit (f, p) = (Answered_now Committed, f, p) \<and>
       fst (commit quiet rival_commit (f, p)) \<noteq> Answered_now Committed"
proof -
  let ?s0 = "world_run (sample_steps @ [Resumed quiet ''c'']) new_world"
  obtain f0 p0 where s0: "?s0 = (f0, p0)" by (rule prod.exhaust)
  obtain out f1 p1 where s1: "resume quiet ''c'' (f0, p0) = (out, f1, p1)" by (rule prod_cases3)
  obtain f p where s: "world_run [Leased (Op_seize ''r'')] (f1, p1) = (f, p)" by (rule prod.exhaust)
  have vis: "(map_option at_commit (tf_inFlightByCommit (fst ?s0) ''c''), fst (resume quiet ''c'' ?s0),
      pa_visibility (snd (world_run [Leased (Op_seize ''r'')] (snd (resume quiet ''c'' ?s0))))) =
      (Some sample_commit, Some Committed, [''c''])"
    by code_simp
  then obtain a where a: "tf_inFlightByCommit f0 ''c'' = Some a" "at_commit a = sample_commit"
      and out: "out = Some Committed" and v: "pa_visibility p = [''c'']"
    by (auto simp: s0 s1 s)
  have rival: "fc_commit_id rival_commit = ''c'' \<or>
      holder_of (fc_fence rival_commit) = holder_of (fc_fence (at_commit a)) \<and>
      fc_commit_id rival_commit \<notin> set (pa_visibility p)"
    by (simp add: rival_commit_def a(2) v)
  from committed_is_final[OF s0 a(1) s1[unfolded out] s rival, where mo' = quiet]
  have "commit quiet sample_commit (f, p) = (Answered_now Committed, f, p)"
    "fst (commit quiet rival_commit (f, p)) \<noteq> Answered_now Committed"
    using a(2) by (auto simp: rival_commit_def)
  moreover have "world_run (sample_steps @ [Resumed quiet ''c'', Resumed quiet ''c'', Leased (Op_seize ''r'')]) new_world =
      world_run [Leased (Op_seize ''r'')] (snd (resume quiet ''c'' ?s0))"
    by (simp add: world_run_def)
  then have "world_run (sample_steps @ [Resumed quiet ''c'', Resumed quiet ''c'', Leased (Op_seize ''r'')]) new_world =
      (f, p)" by (simp add: s0 s1 s)
  ultimately show ?thesis by simp
qed

section \<open>Every commit ends\<close>

text \<open>The segments an attempt still has to run, counting the one that delivers its outcome.\<close>

fun segments_left :: "Attempt option \<Rightarrow> nat" where
  "segments_left None = 0"
| "segments_left (Some a) =
     (case at_waiting a of
        Waiting_preparation Tail_part _ \<Rightarrow> 5
      | Waiting_preparation Event_part _ \<Rightarrow> 4
      | Waiting_preparation Bundle_part _ \<Rightarrow> 3
      | Waiting_renewal _ \<Rightarrow> 2
      | Concluded _ \<Rightarrow> 1)"

definition left_of :: "string \<Rightarrow> Coordinator \<times> Participants \<Rightarrow> nat" where
  "left_of i st = segments_left (tf_inFlightByCommit (fst st) i)"

fun resumes :: "string \<Rightarrow> world_event \<Rightarrow> bool" where
  "resumes i (Resumed _ j) = (i = j)"
| "resumes i _ = False"

lemma left_zero [simp]: "left_of i st = 0 \<longleftrightarrow> tf_inFlightByCommit (fst st) i = None"
  by (cases "tf_inFlightByCommit (fst st) i")
    (auto simp: left_of_def split: waiting.splits part.splits)

lemma left_at_most: "left_of i st \<le> 5"
  by (cases "tf_inFlightByCommit (fst st) i") (auto simp: left_of_def split: waiting.splits part.splits)

lemma segments_after:
  "segments_left (Some (fst (prepare_segment mo part c staged p))) \<le>
     (case part of Tail_part \<Rightarrow> 5 | Event_part \<Rightarrow> 4 | Bundle_part \<Rightarrow> 3)"
  "segments_left (Some (fst (renew_segment mo c staged p))) \<le> 2"
  "segments_left (Some (fst (publish_segment mo r c staged st))) = 1"
  by (auto simp: prepare_segment_def renew_segment_def publish_segment_def Let_def
      split: prod.splits part.splits option.splits)

lemma segments_after_preparation:
  "segments_left (Some (fst (after_preparation mo part prep c staged p))) \<le>
     (case part of Tail_part \<Rightarrow> 4 | Event_part \<Rightarrow> 3 | Bundle_part \<Rightarrow> 2)"
  using segments_after(1)[of mo Event_part c _ p] segments_after(1)[of mo Bundle_part c _ p]
    segments_after(2)[of mo c _ p]
  by (cases prep; cases part) (simp_all add: after_preparation_def Let_def)

lemma resume_progress:
  assumes "tf_inFlightByCommit f i = Some a"
  shows "left_of i (snd (resume mo i (f, p))) < left_of i (f, p) \<and>
    (left_of i (f, p) = 1 \<longleftrightarrow> fst (resume mo i (f, p)) \<noteq> None)"
proof (cases "at_waiting a")
  case (Waiting_preparation part prep)
  then show ?thesis
    using assms segments_after_preparation[of mo part prep "at_commit a" "at_staged a" p]
    by (cases part) (auto simp: left_of_def resume_def Let_def split: prod.splits)
next
  case (Waiting_renewal r)
  then show ?thesis
    using assms segments_after(3)[of mo r "at_commit a" "at_staged a" "(f, p)"]
    by (auto simp: left_of_def resume_def Let_def split: prod.splits)
next
  case (Concluded out)
  then show ?thesis using assms by (simp add: left_of_def resume_def Let_def)
qed

text \<open>
  Nobody else touches a commit in flight: a call under its own identity joins it or is refused.
\<close>

lemma others_leave_it:
  assumes "tf_inFlightByCommit (fst st) i \<noteq> None" and "\<not> resumes i e"
  shows "tf_inFlightByCommit (fst (world_do e st)) i = tf_inFlightByCommit (fst st) i"
proof (cases e)
  case (Commit_called mo c)
  then show ?thesis
    using assms(1) by (auto simp: commit_def Let_def split: prod.splits option.splits)
next
  case (Resumed mo j)
  then show ?thesis
    using assms(2)
    by (cases st) (auto simp: resume_def Let_def publish_segment_def
        split: prod.splits option.splits waiting.splits if_splits)
qed (cases st; simp)+

text \<open>
  C13: Every commit ends and answers its callers. However its segments interleave with everything
  else, calls under its own identity included, which join it or are refused, once it has been resumed
  as often as it has segments left (five at most) its outcome has been delivered, at one definite
  segment, and it is in flight no more.
\<close>

theorem every_commit_ends:
  assumes "tf_inFlightByCommit (fst st) i \<noteq> None"
    and "length (filter (resumes i) es) \<ge> left_of i st"
  shows "\<exists>es1 mo es2 out. es = es1 @ Resumed mo i # es2 \<and>
    fst (resume mo i (world_run es1 st)) = Some out \<and>
    tf_inFlightByCommit (fst (world_run (es1 @ [Resumed mo i]) st)) i = None"
  using assms
proof (induction es arbitrary: st)
  case Nil
  then show ?case by simp
next
  case (Cons e es)
  show ?case
  proof (cases "resumes i e")
    case True
    then obtain mo where e: "e = Resumed mo i" by (cases e) auto
    obtain f p a where st: "st = (f, p)" and a: "tf_inFlightByCommit f i = Some a"
      using Cons.prems(1) by (cases st) auto
    note progress = resume_progress[OF a, of mo p, folded st]
    show ?thesis
    proof (cases "left_of i st = 1")
      case True
      with progress obtain out where "fst (resume mo i st) = Some out"
          "tf_inFlightByCommit (fst (snd (resume mo i st))) i = None"
        by auto
      then show ?thesis
        by (intro exI[of _ "[]"] exI[of _ mo] exI[of _ es] exI[of _ out]) (simp add: e world_run_def)
    next
      case False
      let ?st = "snd (resume mo i st)"
      have later: "tf_inFlightByCommit (fst ?st) i \<noteq> None"
      proof (cases "at_waiting a")
        case (Concluded out)
        with False a show ?thesis by (simp add: left_of_def st)
      qed (use a in \<open>auto simp: st resume_def Let_def split: prod.splits\<close>)
      have "length (filter (resumes i) es) \<ge> left_of i ?st"
        using Cons.prems(2) progress by (simp add: e)
      from Cons.IH[OF later this] obtain es1 mo' es2 out where
        "es = es1 @ Resumed mo' i # es2" "fst (resume mo' i (world_run es1 ?st)) = Some out"
        "tf_inFlightByCommit (fst (world_run (es1 @ [Resumed mo' i]) ?st)) i = None" by auto
      then show ?thesis
        by (intro exI[of _ "e # es1"] exI[of _ mo'] exI[of _ es2] exI[of _ out]) (simp add: e world_run_def)
    qed
  next
    case False
    let ?st = "world_do e st"
    have same: "tf_inFlightByCommit (fst ?st) i = tf_inFlightByCommit (fst st) i"
      by (rule others_leave_it[OF Cons.prems(1) False])
    then have "left_of i ?st = left_of i st" by (simp add: left_of_def)
    from Cons.IH[of ?st] same this False Cons.prems obtain es1 mo' es2 out where
      "es = es1 @ Resumed mo' i # es2" "fst (resume mo' i (world_run es1 ?st)) = Some out"
      "tf_inFlightByCommit (fst (world_run (es1 @ [Resumed mo' i]) ?st)) i = None" by auto
    then show ?thesis
      by (intro exI[of _ "e # es1"] exI[of _ mo'] exI[of _ es2] exI[of _ out]) (simp add: world_run_def)
  qed
qed

lemma every_commit_ends_witness:
  "\<exists>es1 mo es2 out. Commit_called quiet sample_commit # replicate 5 (Resumed quiet ''c'') = es1 @ Resumed mo ''c'' # es2 \<and>
     fst (resume mo ''c'' (world_run es1 (world_run (take 2 sample_steps) new_world))) = Some out"
proof -
  let ?st = "world_run (take 2 sample_steps) new_world"
  have "left_of ''c'' ?st = 5" by code_simp
  then have "tf_inFlightByCommit (fst ?st) ''c'' \<noteq> None"
      "length (filter (resumes ''c'') (Commit_called quiet sample_commit # replicate 5 (Resumed quiet ''c''))) \<ge>
        left_of ''c'' ?st"
    using left_zero[of "''c''" ?st] by (auto simp: numeral_eq_Suc)
  from every_commit_ends[OF this] show ?thesis by blast
qed

section \<open>Two limits\<close>

lemma leased_run: "world_run (map Leased ops) (f, p) = (f, p\<lparr>pa_lease := fold (\<lambda>op l. lease_do l op) ops (pa_lease p)\<rparr>)"
  by (induction ops arbitrary: p) (simp_all add: world_run_def)



text \<open>
  A preparation whose answer is lost is not abandoned: the coordinator never got its
  handle. The retry of the same commit then publishes the transition tail twice.
\<close>

theorem lost_staging_answer_doubles_the_tail:
  "let lost = quiet\<lparr>mo_fault := Answer_lost ''timeout''\<rparr>;
       (f, p) = world_run ([Leased (Op_claim ''r'' ''a'' False), Commit_called lost sample_commit,
                   Resumed quiet ''c'', Resumed quiet ''c''] @ drop 1 sample_steps @ [Resumed quiet ''c'']) new_world
   in fc_transitions sample_commit = [sample_transition] \<and> pa_visibility p = [''c''] \<and>
      visible_transitions (pa_visibility p) (page_of (pa_journal p) ''r'') = [sample_transition, sample_transition]"
  by code_simp

end
