(* ===== verification/Emitter.thy ===== *)
theory Emitter
  imports EventSink Adapters
begin

text \<open>
  Run events and their emission: \<^verbatim>\<open>packages/events/src/run-events.ts\<close>,
  \<^verbatim>\<open>services/runner-control/src/events/emitter.ts\<close> and the control-flow failures of
  \<^verbatim>\<open>run/interruption.ts\<close>.

  A body is one of the seven event types with its own members; the envelope is the emitter's, so
  no body can carry one. The sink and the clock are ports: functions on a world \<open>'w\<close> that answer
  or fail. The loop past occupied identities ends when the sink stops answering conflicts, so it is
  a partial function: \<open>None\<close> is an emission that never returns.
\<close>

section \<open>Failures\<close>

datatype interrupt_reason = Cancel | Timeout

datatype fault = Run_interrupted interrupt_reason | Settlement_expired | Thrown string

fun isRunControlError :: "fault \<Rightarrow> bool" where
  "isRunControlError (Run_interrupted _) = True"
| "isRunControlError Settlement_expired = True"
| "isRunControlError (Thrown _) = False"

fun isRunInterrupted :: "fault \<Rightarrow> bool" where
  "isRunInterrupted (Run_interrupted _) = True"
| "isRunInterrupted Settlement_expired = False"
| "isRunInterrupted (Thrown _) = False"

fun interrupt_text :: "interrupt_reason \<Rightarrow> string" where
  "interrupt_text Cancel = ''cancelled''"
| "interrupt_text Timeout = ''timed out''"

text \<open>\<^verbatim>\<open>error.message\<close>\<close>

fun describe_fault :: "fault \<Rightarrow> string" where
  "describe_fault (Run_interrupted reason) = template [''the run was '', interrupt_text reason]"
| "describe_fault Settlement_expired = ''the bounded terminal-settlement window elapsed''"
| "describe_fault (Thrown message) = message"

section \<open>Run events\<close>

datatype EventBody =
    Run_started ProfileIdentity
  | Capability_granted CapabilityGrant
  | Call_attempted string OperationRecord
  | Call_disposed string call_disposition "string option"
  | Adapter_started
  | Adapter_completed
  | Run_terminated RunOutcome

fun event_type :: "EventBody \<Rightarrow> string" where
  "event_type (Run_started _) = ''run.started''"
| "event_type (Capability_granted _) = ''capability.granted''"
| "event_type (Call_attempted _ _) = ''call.attempted''"
| "event_type (Call_disposed _ _ _) = ''call.disposition''"
| "event_type Adapter_started = ''adapter.started''"
| "event_type Adapter_completed = ''adapter.completed''"
| "event_type (Run_terminated _) = ''run.terminated''"

record RunEvent =
  re_contract_id :: string
  re_contract_version :: string
  re_run_id :: string
  re_sequence :: int
  re_timestamp :: string
  re_adapter :: string
  re_body :: EventBody

fun valid_EventBody :: "EventBody \<Rightarrow> bool" where
  "valid_EventBody (Run_started profile) = valid_ProfileIdentity profile"
| "valid_EventBody (Capability_granted grant) = valid_CapabilityGrant grant"
| "valid_EventBody (Call_attempted call_id operation) =
     (CallId call_id \<and> nonempty (or_name operation) \<and> optional_nonempty (or_target operation))"
| "valid_EventBody (Call_disposed call_id _ detail) = (CallId call_id \<and> optional_nonempty detail)"
| "valid_EventBody Adapter_started = True"
| "valid_EventBody Adapter_completed = True"
| "valid_EventBody (Run_terminated out) = valid_RunOutcome out"

definition valid_RunEvent :: "(string \<Rightarrow> bool) \<Rightarrow> RunEvent \<Rightarrow> bool" where
  "valid_RunEvent datetime e \<longleftrightarrow>
     re_contract_id e = ''run-event'' \<and> re_contract_version e = ''1.0.0'' \<and>
     RunId (re_run_id e) \<and> 0 \<le> re_sequence e \<and> datetime (re_timestamp e) \<and>
     AdapterId (re_adapter e) \<and> valid_EventBody (re_body e)"

section \<open>The emitter\<close>

record Emitter =
  em_run_id :: string
  em_adapter :: string
  em_generation :: int
  em_sequence :: int
  em_emitted :: "RunEvent list"

definition new_emitter :: "string \<Rightarrow> string \<Rightarrow> int \<Rightarrow> Emitter" where
  "new_emitter run_id adapter generation =
     \<lparr>em_run_id = run_id, em_adapter = adapter, em_generation = generation, em_sequence = 0,
      em_emitted = []\<rparr>"

datatype emit_failure = Contract_invalid | Sink_failed | Emit_stale_fence

datatype EmitOutcome = Event_emitted RunEvent | Emit_failed emit_failure string

fun emit_failure_text :: "emit_failure \<Rightarrow> string" where
  "emit_failure_text Contract_invalid = ''contract_invalid''"
| "emit_failure_text Sink_failed = ''sink_failed''"
| "emit_failure_text Emit_stale_fence = ''stale_fence''"

definition envelope_at :: "Emitter \<Rightarrow> string \<Rightarrow> EventBody \<Rightarrow> RunEvent" where
  "envelope_at em timestamp body =
     \<lparr>re_contract_id = ''run-event'', re_contract_version = ''1.0.0'', re_run_id = em_run_id em,
      re_sequence = em_sequence em, re_timestamp = timestamp, re_adapter = em_adapter em,
      re_body = body\<rparr>"

definition UNESTABLISHED_INSTANT :: string where
  "UNESTABLISHED_INSTANT = ''1970-01-01T00:00:00.000Z''"

text \<open>The ports of one run: the schema's date-time test and issue texts, its clock and its sink.\<close>

record 'w EventPorts =
  ep_datetime :: "string \<Rightarrow> bool"
  ep_issues :: "RunEvent \<Rightarrow> string"
  ep_now :: "'w \<Rightarrow> (fault + string) \<times> 'w"
  ep_emit :: "RunFence \<Rightarrow> int \<Rightarrow> RunEvent \<Rightarrow> 'w \<Rightarrow> (fault + FenceOutcome) \<times> 'w"

text \<open>\<^verbatim>\<open>envelope\<close>: the terminal event as data; a broken clock gives the unestablished instant.\<close>

definition envelope :: "'w EventPorts \<Rightarrow> EventBody \<Rightarrow> Emitter \<times> 'w \<Rightarrow> RunEvent \<times> 'w" where
  "envelope ports body st =
     (let (em, w) = st in
      case ep_now ports w of
        (Inl _, w1) \<Rightarrow> (envelope_at em UNESTABLISHED_INSTANT body, w1)
      | (Inr timestamp, w1) \<Rightarrow> (envelope_at em timestamp body, w1))"

text \<open>
  One round of the emission loop: its outcome (an exception, or an answer to the caller), or
  \<open>None\<close> when the identity was occupied by another event and the loop goes on.
\<close>

definition emit_round ::
  "'w EventPorts \<Rightarrow> EventBody \<Rightarrow> Emitter \<times> 'w \<Rightarrow> (fault + EmitOutcome) option \<times> Emitter \<times> 'w" where
  "emit_round ports body st =
     (let (em, w) = st in
      case ep_now ports w of
        (Inl error, w1) \<Rightarrow> (Some (Inl error), em, w1)
      | (Inr timestamp, w1) \<Rightarrow>
          let event = envelope_at em timestamp body; sequence = em_sequence em;
              consumed = em\<lparr>em_sequence := sequence + 1\<rparr> in
          if \<not> valid_RunEvent (ep_datetime ports) event then
            (Some (Inr (Emit_failed Contract_invalid (ep_issues ports event))), em, w1)
          else
            (case ep_emit ports \<lparr>fn_run_id = em_run_id em, fn_generation = em_generation em\<rparr>
                    sequence event w1 of
               (Inl error, w2) \<Rightarrow>
                 if isRunControlError error then (Some (Inl error), consumed, w2)
                 else (Some (Inr (Emit_failed Sink_failed (describe_fault error))), consumed, w2)
             | (Inr (Fence_refused Conflicting_replay _), w2) \<Rightarrow> (None, consumed, w2)
             | (Inr (Fence_refused Stale_fence detail), w2) \<Rightarrow>
                 (Some (Inr (Emit_failed Emit_stale_fence detail)), em, w2)
             | (Inr Fence_ok, w2) \<Rightarrow>
                 (Some (Inr (Event_emitted event)),
                  consumed\<lparr>em_emitted := em_emitted em @ [event]\<rparr>, w2)))"

partial_function (option) emit_event ::
  "'w EventPorts \<Rightarrow> EventBody \<Rightarrow> Emitter \<times> 'w \<Rightarrow> ((fault + EmitOutcome) \<times> Emitter \<times> 'w) option" where
  "emit_event ports body st =
     (case emit_round ports body st of
        (Some answer, st1) \<Rightarrow> Some (answer, st1)
      | (None, st1) \<Rightarrow> emit_event ports body st1)"

declare emit_event.simps [code]

section \<open>Identities\<close>

text \<open>What the emitter has acknowledged, and what it will number next.\<close>

definition wf_emitter :: "(string \<Rightarrow> bool) \<Rightarrow> Emitter \<Rightarrow> bool" where
  "wf_emitter datetime em \<longleftrightarrow>
     sorted_wrt (<) (map re_sequence (em_emitted em)) \<and>
     (\<forall>e \<in> set (em_emitted em).
        re_sequence e < em_sequence em \<and> re_run_id e = em_run_id em \<and> re_adapter e = em_adapter em \<and>
        valid_RunEvent datetime e)"

definition same_emitter :: "Emitter \<Rightarrow> Emitter \<Rightarrow> bool" where
  "same_emitter em em' \<longleftrightarrow>
     em_run_id em' = em_run_id em \<and> em_adapter em' = em_adapter em \<and>
     em_generation em' = em_generation em \<and> em_sequence em \<le> em_sequence em' \<and>
     prefix (em_emitted em) (em_emitted em')"

lemma same_emitter_trans: "same_emitter a b \<Longrightarrow> same_emitter b c \<Longrightarrow> same_emitter a c"
  by (auto simp: same_emitter_def)

lemma wf_emitter_next:
  assumes "wf_emitter dt em"
  shows "wf_emitter dt (em\<lparr>em_sequence := em_sequence em + 1\<rparr>)"
    "valid_RunEvent dt (envelope_at em t body) \<Longrightarrow>
      wf_emitter dt (em\<lparr>em_sequence := em_sequence em + 1, em_emitted := em_emitted em @ [envelope_at em t body]\<rparr>)"
  using assms by (force simp: wf_emitter_def envelope_at_def sorted_wrt_append)+

lemma emit_round_fields:
  assumes "emit_round ports body (em, w) = (res, em', w')"
  shows "same_emitter em em'" "wf_emitter (ep_datetime ports) em \<Longrightarrow> wf_emitter (ep_datetime ports) em'"
    "res = Some (Inr (Event_emitted e)) \<Longrightarrow>
      em_emitted em' = em_emitted em @ [e] \<and> re_body e = body \<and> re_sequence e < em_sequence em'"
    "res = None \<Longrightarrow> em' = em\<lparr>em_sequence := em_sequence em + 1\<rparr>"
  using assms
  by (auto simp: emit_round_def Let_def same_emitter_def wf_emitter_next envelope_at_def
      split: prod.splits sum.splits FenceOutcome.splits FenceReason.splits if_splits
      intro!: wf_emitter_next(2)[unfolded envelope_at_def])

text \<open>An emission that returns, whatever the number of its rounds.\<close>

lemma emit_event_induct:
  assumes "emit_event ports body st = Some (answer, st')"
    and "\<And>st answer st'. emit_round ports body st = (Some answer, st') \<Longrightarrow> P st answer st'"
    and "\<And>st st1 answer st'. emit_round ports body st = (None, st1) \<Longrightarrow> P st1 answer st' \<Longrightarrow> P st answer st'"
  shows "P st answer st'"
proof -
  have "ports' = ports \<longrightarrow> body' = body \<longrightarrow> P st (fst r) (snd r)"
    if "emit_event ports' body' st = Some r" for ports' body' st r
    by (rule emit_event.raw_induct[OF _ that])
      (use assms(2,3) in \<open>auto split: prod.splits option.splits\<close>)
  from this[OF assms(1)] show ?thesis by simp
qed

lemma emit_event_fields:
  assumes "emit_event ports body st = Some (answer, st')"
  shows "same_emitter (fst st) (fst st') \<and>
    (wf_emitter (ep_datetime ports) (fst st) \<longrightarrow> wf_emitter (ep_datetime ports) (fst st'))"
  using assms
proof (rule emit_event_induct)
  fix st :: "Emitter \<times> 'a" and answer st'
  assume "emit_round ports body st = (Some answer, st')"
  then show "same_emitter (fst st) (fst st') \<and>
      (wf_emitter (ep_datetime ports) (fst st) \<longrightarrow> wf_emitter (ep_datetime ports) (fst st'))"
    using emit_round_fields(1,2)[of ports body "fst st" "snd st" "Some answer" "fst st'" "snd st'"] by simp
next
  fix st st1 :: "Emitter \<times> 'a" and st'
  assume "emit_round ports body st = (None, st1)" "same_emitter (fst st1) (fst st') \<and>
      (wf_emitter (ep_datetime ports) (fst st1) \<longrightarrow> wf_emitter (ep_datetime ports) (fst st'))"
  then show "same_emitter (fst st) (fst st') \<and>
      (wf_emitter (ep_datetime ports) (fst st) \<longrightarrow> wf_emitter (ep_datetime ports) (fst st'))"
    using emit_round_fields(1,2)[of ports body "fst st" "snd st" None "fst st1" "snd st1"]
      same_emitter_trans[of "fst st" "fst st1" "fst st'"] by simp
qed
section \<open>Properties\<close>

text \<open>A run of emissions: each begins where the last left the emitter.\<close>

fun emit_all ::
  "'w EventPorts \<Rightarrow> EventBody list \<Rightarrow> Emitter \<times> 'w \<Rightarrow>
   ((fault + EmitOutcome) list \<times> Emitter \<times> 'w) option" where
  "emit_all ports [] st = Some ([], st)"
| "emit_all ports (body # bodies) st =
     (case emit_event ports body st of
        None \<Rightarrow> None
      | Some (answer, st1) \<Rightarrow>
          map_option (\<lambda>(answers, st2). (answer # answers, st2)) (emit_all ports bodies st1))"

fun emitted_of :: "(fault + EmitOutcome) list \<Rightarrow> RunEvent list" where
  "emitted_of [] = []"
| "emitted_of (Inr (Event_emitted e) # answers) = e # emitted_of answers"
| "emitted_of (_ # answers) = emitted_of answers"

lemma emit_event_emitted:
  assumes "emit_event ports body st = Some (answer, st')"
  shows "em_emitted (fst st') = em_emitted (fst st) @ emitted_of [answer]"
  using assms
proof (rule emit_event_induct)
  fix st :: "Emitter \<times> 'a" and answer st'
  assume "emit_round ports body st = (Some answer, st')"
  then show "em_emitted (fst st') = em_emitted (fst st) @ emitted_of [answer]"
    by (auto simp: emit_round_def Let_def
        split: prod.splits sum.splits FenceOutcome.splits FenceReason.splits if_splits)
next
  fix st st1 :: "Emitter \<times> 'a" and answer st'
  assume "emit_round ports body st = (None, st1)"
    and "em_emitted (fst st') = em_emitted (fst st1) @ emitted_of [answer]"
  then show "em_emitted (fst st') = em_emitted (fst st) @ emitted_of [answer]"
    using emit_round_fields(4)[of ports body "fst st" "snd st" None "fst st1" "snd st1"] by simp
qed

lemma emit_all_fields:
  assumes "emit_all ports bodies st = Some (answers, st')"
  shows "same_emitter (fst st) (fst st')"
    "wf_emitter (ep_datetime ports) (fst st) \<Longrightarrow> wf_emitter (ep_datetime ports) (fst st')"
    "em_emitted (fst st') = em_emitted (fst st) @ emitted_of answers"
proof -
  have cons: "emitted_of (a # as) = emitted_of [a] @ emitted_of as" for a as
    by (cases "(a # as)" rule: emitted_of.cases) auto
  have "same_emitter (fst st) (fst st') \<and>
    (wf_emitter (ep_datetime ports) (fst st) \<longrightarrow> wf_emitter (ep_datetime ports) (fst st')) \<and>
    em_emitted (fst st') = em_emitted (fst st) @ emitted_of answers"
    using assms
  proof (induction bodies arbitrary: st answers)
    case Nil
    then show ?case by (simp add: same_emitter_def)
  next
    case (Cons body bodies)
    from Cons.prems obtain answer st1 as where
      e: "emit_event ports body st = Some (answer, st1)" "emit_all ports bodies st1 = Some (as, st')"
        "answers = answer # as"
      by (auto split: option.splits prod.splits)
    from Cons.IH[OF e(2)] emit_event_fields[OF e(1)] emit_event_emitted[OF e(1)]
      same_emitter_trans[of "fst st" "fst st1" "fst st'"] cons[of answer as] e(3)
    show ?case by simp
  qed
  then show "same_emitter (fst st) (fst st')"
    "wf_emitter (ep_datetime ports) (fst st) \<Longrightarrow> wf_emitter (ep_datetime ports) (fst st')"
    "em_emitted (fst st') = em_emitted (fst st) @ emitted_of answers"
    by blast+
qed

text \<open>
  The ports with a record of every event offered to the sink with its identity, whatever the sink did
  with it (kept it, kept it and lost the acknowledgement, threw, found the identity occupied), except
  when it refused a stale fence and so wrote nothing.
\<close>

fun writes_nothing :: "fault + FenceOutcome \<Rightarrow> bool" where
  "writes_nothing (Inr (Fence_refused Stale_fence _)) = True"
| "writes_nothing _ = False"

definition logged :: "'w EventPorts \<Rightarrow> ((int \<times> RunEvent) list \<times> 'w) EventPorts" where
  "logged ports =
     \<lparr>ep_datetime = ep_datetime ports, ep_issues = ep_issues ports,
      ep_now = (\<lambda>(log, w). case ep_now ports w of (answer, w1) \<Rightarrow> (answer, log, w1)),
      ep_emit = (\<lambda>fence n e (log, w). case ep_emit ports fence n e w of
        (answer, w1) \<Rightarrow> (answer, (if writes_nothing answer then log else log @ [(n, e)]), w1))\<rparr>"

definition wf_log :: "Emitter \<Rightarrow> (int \<times> RunEvent) list \<Rightarrow> bool" where
  "wf_log em log \<longleftrightarrow>
     sorted_wrt (<) (map fst log) \<and> (\<forall>(n, e) \<in> set log. n < em_sequence em \<and> re_sequence e = n) \<and>
     subseq (em_emitted em) (map snd log)"

lemma wf_log_offer:
  assumes "wf_log em log" and "re_sequence e = em_sequence em"
  shows "wf_log (em\<lparr>em_sequence := em_sequence em + 1\<rparr>) (log @ [(em_sequence em, e)])"
    "wf_log (em\<lparr>em_sequence := em_sequence em + 1, em_emitted := em_emitted em @ [e]\<rparr>) (log @ [(em_sequence em, e)])"
proof -
  have "subseq (em_emitted em) (map snd log @ [e])" "subseq (em_emitted em @ [e]) (map snd log @ [e])"
    using assms(1) by (auto simp: wf_log_def intro: list_emb_append_mono)
  with assms show "wf_log (em\<lparr>em_sequence := em_sequence em + 1\<rparr>) (log @ [(em_sequence em, e)])"
    "wf_log (em\<lparr>em_sequence := em_sequence em + 1, em_emitted := em_emitted em @ [e]\<rparr>) (log @ [(em_sequence em, e)])"
    by (force simp: wf_log_def sorted_wrt_append)+
qed

lemma logged_round:
  assumes "emit_round ports body (em, w) = (res, em', w')" and "wf_log em log"
  shows "\<exists>log'. emit_round (logged ports) body (em, log, w) = (res, em', log', w') \<and> wf_log em' log'"
  using assms wf_log_offer[OF assms(2), of "envelope_at em t body" for t]
  by (auto simp: emit_round_def logged_def Let_def envelope_at_def
      split: prod.splits sum.splits FenceOutcome.splits FenceReason.splits if_splits)

lemma logged_event:
  assumes "emit_event ports body st = Some (answer, st')"
  shows "\<forall>log. wf_log (fst st) log \<longrightarrow>
    (\<exists>log'. emit_event (logged ports) body (fst st, log, snd st) = Some (answer, fst st', log', snd st') \<and>
      wf_log (fst st') log')"
  using assms
proof (rule emit_event_induct)
  fix st :: "Emitter \<times> 'a" and answer st'
  assume "emit_round ports body st = (Some answer, st')"
  then show "\<forall>log. wf_log (fst st) log \<longrightarrow>
      (\<exists>log'. emit_event (logged ports) body (fst st, log, snd st) = Some (answer, fst st', log', snd st') \<and>
        wf_log (fst st') log')"
    using logged_round[of ports body "fst st" "snd st" "Some answer" "fst st'" "snd st'"]
    by (subst emit_event.simps) fastforce
next
  fix st st1 :: "Emitter \<times> 'a" and answer st'
  assume r: "emit_round ports body st = (None, st1)"
    and IH: "\<forall>log. wf_log (fst st1) log \<longrightarrow>
      (\<exists>log'. emit_event (logged ports) body (fst st1, log, snd st1) = Some (answer, fst st', log', snd st') \<and>
        wf_log (fst st') log')"
  show "\<forall>log. wf_log (fst st) log \<longrightarrow>
      (\<exists>log'. emit_event (logged ports) body (fst st, log, snd st) = Some (answer, fst st', log', snd st') \<and>
        wf_log (fst st') log')"
  proof (intro allI impI)
    fix log
    assume "wf_log (fst st) log"
    then obtain log1 where l: "emit_round (logged ports) body (fst st, log, snd st) = (None, fst st1, log1, snd st1)"
        "wf_log (fst st1) log1"
      using logged_round[of ports body "fst st" "snd st" None "fst st1" "snd st1"] r by auto
    with IH show "\<exists>log'. emit_event (logged ports) body (fst st, log, snd st) = Some (answer, fst st', log', snd st') \<and>
        wf_log (fst st') log'"
      by (subst emit_event.simps) simp
  qed
qed

lemma logged_all:
  assumes "emit_all ports bodies (em, w) = Some (answers, em', w')" and "wf_log em log"
  shows "\<exists>log'. emit_all (logged ports) bodies (em, log, w) = Some (answers, em', log', w') \<and> wf_log em' log'"
  using assms
proof (induction bodies arbitrary: em w log answers)
  case (Cons body bodies)
  from Cons.prems(1) obtain answer em1 w1 as where
    e: "emit_event ports body (em, w) = Some (answer, em1, w1)" "emit_all ports bodies (em1, w1) = Some (as, em', w')"
      "answers = answer # as"
    by (auto split: option.splits prod.splits)
  from logged_event[OF e(1)] Cons.prems(2) obtain log1 where
    l: "emit_event (logged ports) body (em, log, w) = Some (answer, em1, log1, w1)" "wf_log em1 log1" by auto
  from Cons.IH[OF e(2) l(2)] l(1) e(3) show ?case by auto
qed simp

text \<open>
  C15: No event identity is used twice. Whatever the clock and the sink do (fail, throw, lose
  acknowledgements, refuse, conflict), the events a run's emitter offers to the sink, those it never
  heard of again included, carry strictly increasing numbers, each its own, but for those offered
  under a stale fence, which wrote nothing; the events it reports as emitted are among them, in
  order, are the ones it recorded, and are all valid, of this run and of this adapter.
\<close>

theorem emitted_events_are_numbered_once:
  assumes "emit_all ports bodies (new_emitter run_id adapter generation, w) = Some (answers, em, w')"
  shows "\<exists>log. emit_all (logged ports) bodies (new_emitter run_id adapter generation, [], w) =
      Some (answers, em, log, w') \<and>
    sorted_wrt (<) (map fst log) \<and> list_all (\<lambda>(n, e). re_sequence e = n) log \<and>
    subseq (em_emitted em) (map snd log) \<and> em_emitted em = emitted_of answers \<and>
    sorted_wrt (<) (map re_sequence (em_emitted em)) \<and>
    list_all (\<lambda>e. valid_RunEvent (ep_datetime ports) e \<and> re_run_id e = run_id \<and> re_adapter e = adapter)
      (em_emitted em)"
proof -
  have "wf_log (new_emitter run_id adapter generation) []" by (simp add: wf_log_def new_emitter_def)
  from logged_all[OF assms this] obtain log where
    "emit_all (logged ports) bodies (new_emitter run_id adapter generation, [], w) = Some (answers, em, log, w')"
    "wf_log em log" by blast
  moreover have "em_emitted em = emitted_of answers \<and> sorted_wrt (<) (map re_sequence (em_emitted em)) \<and>
    list_all (\<lambda>e. valid_RunEvent (ep_datetime ports) e \<and> re_run_id e = run_id \<and> re_adapter e = adapter)
      (em_emitted em)"
    using emit_all_fields[OF assms]
    by (auto simp: new_emitter_def wf_emitter_def same_emitter_def list_all_iff)
  ultimately show ?thesis by (intro exI[of _ log]) (auto simp: wf_log_def list_all_iff)
qed

section \<open>On the recording sink\<close>

text \<open>
  The ports on the recording event sink: a clock that reads or fails as it likes, and any
  encoding of events as the sink stores them.
\<close>

definition recording_ports ::
  "(nat \<Rightarrow> fault + string) \<Rightarrow> (RunEvent \<Rightarrow> SinkEvent) \<Rightarrow> (string \<Rightarrow> bool) \<Rightarrow> (RunEvent \<Rightarrow> string) \<Rightarrow>
   (nat \<times> CommitLedger \<times> EventSink) EventPorts" where
  "recording_ports clock encode datetime issues =
     \<lparr>ep_datetime = datetime, ep_issues = issues,
      ep_now = (\<lambda>(n, v, s). (clock n, n + 1, v, s)),
      ep_emit = (\<lambda>fence seq e (n, v, s).
        case emit v fence seq (encode e) s of (out, s') \<Rightarrow> (Inr out, n, v, s'))\<rparr>"

text \<open>The identities a sink may refuse a new event at: finitely many, and none for a new run.\<close>

definition occupied :: "EventSink \<Rightarrow> string \<Rightarrow> int set" where
  "occupied s run = {n. sk_landed s (run, n) \<noteq> None \<or> sk_reserved s (run, n) \<noteq> None}"

definition finite_sink :: "EventSink \<Rightarrow> bool" where
  "finite_sink s \<longleftrightarrow> finite (dom (sk_landed s)) \<and> finite (dom (sk_reserved s))"

lemma finite_occupied: "finite_sink s \<Longrightarrow> finite (occupied s run)"
proof -
  assume "finite_sink s"
  then have "finite (snd ` (dom (sk_landed s) \<union> dom (sk_reserved s)))" by (simp add: finite_sink_def)
  moreover have "occupied s run \<subseteq> snd ` (dom (sk_landed s) \<union> dom (sk_reserved s))"
    by (force simp: occupied_def image_iff)
  ultimately show ?thesis by (rule finite_subset[rotated])
qed

lemma finite_release:
  assumes "finite_sink s" shows "finite_sink (releaseStage v key c row s)"
proof -
  have "dom (drop_stage c row m key) \<subseteq> dom m" for m
    by (auto simp: drop_stage_def Let_def split: option.splits if_splits)
  with assms show ?thesis
    by (auto simp: finite_sink_def releaseStage_def intro: finite_subset)
qed

lemma finite_release_fold: "finite_sink s \<Longrightarrow> finite_sink (fold (\<lambda>(c, row). releaseStage v key c row) rows s)"
  by (induction rows arbitrary: s) (auto simp: finite_release)

lemma finite_do:
  assumes "finite_sink (fst (snd st))"
  shows "finite_sink (fst (snd (sink_do a st)))"
proof -
  obtain v s hs where st: "st = (v, s, hs)" by (rule prod_cases3)
  have l: "finite_sink (s\<lparr>sk_fence := l\<rparr>)" for l using assms by (simp add: st finite_sink_def)
  have push: "finite_sink (snd (push_row run e c s'))" if "finite_sink s'" for run e c s'
    using that by (simp add: push_row_def Let_def finite_sink_def)
  have landed: "finite_sink (s'\<lparr>sk_landed := (sk_landed s')(k \<mapsto> e)\<rparr>)" if "finite_sink s'" for s' k e
    using that by (simp add: finite_sink_def)
  have emitted: "finite_sink (snd (emit_admitted v key e s'))" if "finite_sink s'" for key e s'
    using that
    by (auto simp: emit_admitted_def Let_def intro!: push landed finite_release_fold split: option.splits)
  have staged: "finite_sink (snd (stage_admitted v key c e s'))" if "finite_sink s'" for key c e s'
    using that by (auto simp: stage_admitted_def push_row_def Let_def finite_sink_def split: option.splits)
  have abandoned: "finite_sink (abandon_event v h s)" for h
    using assms finite_release by (cases h) (auto simp: abandon_event_def st)
  show ?thesis
    using l assms emitted[OF l] staged[OF l] abandoned
    by (cases a)
      (auto simp: st emit_def stageEmit_def split: prod.splits FenceOutcome.splits option.splits Staging.splits,
        (metis snd_conv)+)
qed

lemma finite_run: "finite_sink (fst (snd st)) \<Longrightarrow> finite_sink (fst (snd (sink_run as st)))"
  by (induction as arbitrary: st) (auto simp: sink_run_def finite_do)

lemma emit_conflict_occupied:
  assumes "wf_sink s" and "emit v f seq e s = (Fence_refused Conflicting_replay why, s')"
  shows "seq \<in> occupied s (fn_run_id f) \<and> (\<exists>l. s' = s\<lparr>sk_fence := l\<rparr>)"
proof -
  let ?k = "(fn_run_id f, seq)"
  obtain l where adm: "emit_admitted v ?k e (s\<lparr>sk_fence := l\<rparr>) = (Fence_refused Conflicting_replay why, s')"
    using assms(2) by (auto simp: emit_def fence_outcome_def staleFence_def split: prod.splits option.splits FenceOutcome.splits)
  then have "s' = s\<lparr>sk_fence := l\<rparr>"
    by (auto simp: emit_admitted_def sink_conflict_def Let_def split: option.splits if_splits)
  moreover have "durableCanonical v (s\<lparr>sk_fence := l\<rparr>) ?k \<noteq> None \<or>
      liveReservation v (s\<lparr>sk_fence := l\<rparr>) ?k \<noteq> None"
    using adm by (auto simp: emit_admitted_def sink_conflict_def Let_def split: option.splits if_splits)
  moreover have "wf_sink (s\<lparr>sk_fence := l\<rparr>)" using assms(1) by simp
  ultimately show ?thesis
    using durable_iff[of "s\<lparr>sk_fence := l\<rparr>" v ?k] by (auto simp: occupied_def liveReservation_def split: option.splits)
qed

lemma emit_round_conflict:
  assumes "emit_round ports body (em, w) = (None, st1)"
  shows "\<exists>timestamp w1 e why. ep_now ports w = (Inr timestamp, w1) \<and>
    ep_emit ports \<lparr>fn_run_id = em_run_id em, fn_generation = em_generation em\<rparr> (em_sequence em) e w1 =
      (Inr (Fence_refused Conflicting_replay why), snd st1)"
  using assms
  by (auto simp: emit_round_def Let_def
      split: prod.splits sum.splits FenceOutcome.splits FenceReason.splits if_splits) blast

lemma emission_returns_from:
  assumes "wf_sink s" and "finite_sink s"
  shows "\<exists>r. emit_event (recording_ports clock encode datetime issues) body (em, n, v, s) = Some r"
  using assms
proof (induction "card (occupied s (em_run_id em) \<inter> {em_sequence em..})" arbitrary: em n s rule: less_induct)
  case less
  let ?ports = "recording_ports clock encode datetime issues"
  obtain res em' n' v' s' where r: "emit_round ?ports body (em, n, v, s) = (res, em', n', v', s')"
    by (metis prod.exhaust)
  show ?case
  proof (cases res)
    case (Some answer)
    with r show ?thesis by (subst emit_event.simps) simp
  next
    case None
    have em': "em' = em\<lparr>em_sequence := em_sequence em + 1\<rparr>"
      using emit_round_fields(4)[OF r None] .
    let ?f = "\<lparr>fn_run_id = em_run_id em, fn_generation = em_generation em\<rparr>"
    from r[unfolded None] have "\<exists>e why. emit v ?f (em_sequence em) e s = (Fence_refused Conflicting_replay why, s') \<and> v' = v"
      by (auto simp: recording_ports_def dest!: emit_round_conflict split: prod.splits) blast
    then obtain e why where
      "emit v ?f (em_sequence em) e s = (Fence_refused Conflicting_replay why, s')" "v' = v" by blast
    from emit_conflict_occupied[OF less.prems(1) this(1)] this(2) obtain l where
      occ: "em_sequence em \<in> occupied s (em_run_id em)" and s': "s' = s\<lparr>sk_fence := l\<rparr>" "v' = v" by auto
    have same: "occupied s' run = occupied s run" for run by (simp add: s' occupied_def)
    have "occupied s' (em_run_id em') \<inter> {em_sequence em'..} \<subset> occupied s (em_run_id em) \<inter> {em_sequence em..}"
    proof (rule psubsetI)
      show "occupied s' (em_run_id em') \<inter> {em_sequence em'..} \<subseteq> occupied s (em_run_id em) \<inter> {em_sequence em..}"
        by (auto simp: same em')
      have "em_sequence em \<in> occupied s (em_run_id em) \<inter> {em_sequence em..}"
        "em_sequence em \<notin> occupied s' (em_run_id em') \<inter> {em_sequence em'..}"
        using occ by (simp_all add: em')
      then show "occupied s' (em_run_id em') \<inter> {em_sequence em'..} \<noteq>
          occupied s (em_run_id em) \<inter> {em_sequence em..}" by blast
    qed
    then have "card (occupied s' (em_run_id em') \<inter> {em_sequence em'..}) <
        card (occupied s (em_run_id em) \<inter> {em_sequence em..})"
      using finite_occupied[OF less.prems(2)] by (intro psubset_card_mono) auto
    moreover have "wf_sink s'" "finite_sink s'" using less.prems by (simp_all add: s' finite_sink_def)
    ultimately have "\<exists>r. emit_event ?ports body (em', n', v, s') = Some r" by (rule less.hyps)
    with r None s' show ?thesis by (subst emit_event.simps) simp
  qed
qed

text \<open>
  C14: Emission always returns: in every state the recording sink can reach, for every body and
  every emitter (also one whose counter is behind the durable stream), the walk past the occupied
  identities ends.
\<close>

theorem emission_returns:
  assumes "sink_run as new_sink_state = (v, s, hs)"
  shows "\<exists>answer em' n' s'. emit_event (recording_ports clock encode datetime issues) body (em, n, v, s) =
    Some (answer, em', n', s')"
proof -
  have "wf_sink s" "finite_sink s"
    using sink_run_kept(1)[OF sink_inv_new, of as] finite_run[of new_sink_state as] assms
    by (auto simp: sink_inv_def finite_sink_def new_sink_def)
  from emission_returns_from[OF this, of clock encode datetime issues body em n v] show ?thesis
    by (metis prod.exhaust)
qed

text \<open>Two identities are occupied by other events; the emission ends at the third.\<close>

lemma emission_returns_witness:
  "let busy = sink_run [Emit sample_fence 0 sample_event, Emit sample_fence 1 sample_event] new_sink_state in
   \<exists>answer em' n' s'.
     emit_event (recording_ports (\<lambda>_. Inr ''t'') (\<lambda>_. sample_event\<lparr>ev_sequence := 7\<rparr>) (\<lambda>_. True) (\<lambda>_. []))
       Adapter_started (new_emitter ''r'' ''fake'' 1, 0, fst busy, fst (snd busy)) = Some (answer, em', n', s')"
  unfolding Let_def
  by (rule emission_returns[of "[Emit sample_fence 0 sample_event, Emit sample_fence 1 sample_event]" _ _
        "snd (snd (sink_run [Emit sample_fence 0 sample_event, Emit sample_fence 1 sample_event] new_sink_state))"])
    simp

text \<open>A sink whose first answer is lost: the identity of that event is not used again.\<close>

definition faltering_ports :: "nat EventPorts" where
  "faltering_ports =
     \<lparr>ep_datetime = (\<lambda>_. True), ep_issues = (\<lambda>_. []), ep_now = (\<lambda>n. (Inr ''t'', n)),
      ep_emit = (\<lambda>_ _ _ n. ((if n = 0 then Inl (Thrown ''lost'') else Inr Fence_ok), n + 1))\<rparr>"

lemma emitted_events_are_numbered_once_witness:
  "\<exists>answers em w'. \<exists>log :: (int \<times> RunEvent) list. emit_all faltering_ports
      [Adapter_started, Adapter_started, Adapter_completed]
      (new_emitter ''r'' ''fake'' 1, 0) = Some (answers, em, w') \<and>
    map re_sequence (em_emitted em) = [1, 2] \<and> map re_sequence (emitted_of answers) = [1, 2] \<and>
    subseq (em_emitted em) (map snd log) \<and> sorted_wrt (<) (map fst log)"
proof -
  let ?r = "emit_all faltering_ports
      [Adapter_started, Adapter_started, Adapter_completed]
      (new_emitter ''r'' ''fake'' 1, 0)"
  have "map_option (\<lambda>(answers, em, w'). map re_sequence (em_emitted em)) ?r = Some [1, 2]"
    by code_simp
  then obtain answers em w' where r: "?r = Some (answers, em, w')" "map re_sequence (em_emitted em) = [1, 2]"
    by auto
  obtain log :: "(int \<times> RunEvent) list" where
    l: "em_emitted em = emitted_of answers" "subseq (em_emitted em) (map snd log)" "sorted_wrt (<) (map fst log)"
    using emitted_events_are_numbered_once[OF r(1)] by blast
  show ?thesis
    by (intro exI[of _ answers] exI[of _ em] exI[of _ w'] exI[of _ log] conjI)
      (rule r l r(2)[unfolded l(1)])+
qed

end
