(* ===== verification/Deadline.thy ===== *)
theory Deadline
  imports Emitter
begin

text \<open>
  Time in a run: \<^verbatim>\<open>orchestration/deadline.ts\<close>, the effect classes of \<^verbatim>\<open>effects.ts\<close> and \<^verbatim>\<open>ports.ts\<close>,
  and the bounds and narrowed table of \<^verbatim>\<open>orchestration/controls.ts\<close>.

  The time is an integer number of milliseconds, an argument of every operation that reads the
  clock. Deadlines are JavaScript numbers. A timer fires, at the earliest, when its delay has
  passed; the platform replaces a delay below 1, above 2147483647 or not a number by 1. An
  awaited call settles, or loses the race against the abort signal. The abort signal of a run
  is raised exactly when it has a reason.
\<close>

section \<open>Numbers\<close>

fun js_eq :: "js_number \<Rightarrow> js_number \<Rightarrow> bool" where
  "js_eq NaN _ = False"
| "js_eq a b = (a = b)"

definition js_le :: "js_number \<Rightarrow> js_number \<Rightarrow> bool" where
  "js_le a b \<longleftrightarrow> js_gt b a \<or> js_eq a b"

fun js_min :: "js_number \<Rightarrow> js_number \<Rightarrow> js_number" where
  "js_min NaN _ = NaN"
| "js_min _ NaN = NaN"
| "js_min a b = (if js_gt a b then b else a)"

fun js_max :: "js_number \<Rightarrow> js_number \<Rightarrow> js_number" where
  "js_max NaN _ = NaN"
| "js_max _ NaN = NaN"
| "js_max a b = (if js_gt a b then a else b)"

fun js_thousand :: "js_number \<Rightarrow> js_number" where
  "js_thousand (Num a) = Num (a * 1000)"
| "js_thousand x = x"

text \<open>The delay a timer really waits.\<close>

fun timer_delay :: "js_number \<Rightarrow> int" where
  "timer_delay (Num d) = (if 1 \<le> d \<and> d \<le> 2147483647 then d else 1)"
| "timer_delay _ = 1"

section \<open>Bounds\<close>

definition ABANDON_GRACE_MS :: int where
  "ABANDON_GRACE_MS = 250"

definition ACQUISITION_BUDGET_MS :: int where
  "ACQUISITION_BUDGET_MS = 60000"

definition boundedDeadlineMs :: "js_number \<Rightarrow> js_number \<Rightarrow> js_number option \<Rightarrow> js_number" where
  "boundedDeadlineMs profile session override =
     (let granted = js_thousand profile; offered = js_min granted (js_thousand session) in
      case override of None \<Rightarrow> offered | Some ms \<Rightarrow> js_min offered ms)"

section \<open>The deadline of a run\<close>

text \<open>What the caller's probe does when it is consulted.\<close>

datatype probe = No_probe | Probe_silent | Probe_answers | Probe_throws

record RunDeadline =
  rd_startedAt :: int
  rd_armedUntil :: "js_number option"
  rd_wallClock :: "int option"
  rd_cancelClock :: "int option"
  rd_reason :: "interrupt_reason option"

definition new_deadline :: "int \<Rightarrow> RunDeadline" where
  "new_deadline time =
     \<lparr>rd_startedAt = time, rd_armedUntil = None, rd_wallClock = None, rd_cancelClock = None,
      rd_reason = None\<rparr>"

text \<open>The first reason wins.\<close>

definition raise_interrupt :: "interrupt_reason \<Rightarrow> RunDeadline \<Rightarrow> RunDeadline" where
  "raise_interrupt reason d =
     (if rd_reason d \<noteq> None then d else d\<lparr>rd_reason := Some reason\<rparr>)"

definition raiseIfElapsed :: "int \<Rightarrow> RunDeadline \<Rightarrow> RunDeadline" where
  "raiseIfElapsed time d =
     (case rd_armedUntil d of
        None \<Rightarrow> d
      | Some at \<Rightarrow>
          if rd_reason d = None \<and> js_le at (Num time) then raise_interrupt Timeout d else d)"

text \<open>Whatever the caller's probe answers is a cancellation, and so is a probe that throws.\<close>

fun polled :: "probe \<Rightarrow> bool" where
  "polled No_probe = False"
| "polled Probe_silent = False"
| "polled Probe_answers = True"
| "polled Probe_throws = True"

definition interrupted :: "int \<Rightarrow> probe \<Rightarrow> RunDeadline \<Rightarrow> interrupt_reason option \<times> RunDeadline" where
  "interrupted time poll d =
     (let d1 = raiseIfElapsed time d in
      if rd_reason d1 \<noteq> None then (rd_reason d1, d1)
      else
        let d2 = (if polled poll then raise_interrupt Cancel d1 else d1) in (rd_reason d2, d2))"

definition setWallClock :: "js_number \<Rightarrow> int \<Rightarrow> RunDeadline \<Rightarrow> RunDeadline" where
  "setWallClock at time d =
     (if (case rd_armedUntil d of Some armed \<Rightarrow> js_eq armed at | None \<Rightarrow> False) \<and> rd_wallClock d \<noteq> None then d
      else
        let d1 = d\<lparr>rd_armedUntil := Some at\<rparr> in
        if js_le at (Num time) then raise_interrupt Timeout (d1\<lparr>rd_wallClock := None\<rparr>)
        else
          d1\<lparr>rd_wallClock := Some (time + timer_delay (js_max (Num 0) (js_plus at (Num (- time)))))\<rparr>)"

definition since_start :: "js_number \<Rightarrow> RunDeadline \<Rightarrow> js_number" where
  "since_start ms d = js_plus (Num (rd_startedAt d)) (js_max (Num 0) ms)"

definition armAcquisition :: "js_number \<Rightarrow> int \<Rightarrow> RunDeadline \<Rightarrow> RunDeadline" where
  "armAcquisition ms time d = setWallClock (since_start ms d) time d"

definition armProfile :: "js_number \<Rightarrow> js_number option \<Rightarrow> int \<Rightarrow> RunDeadline \<Rightarrow> RunDeadline" where
  "armProfile ms cancelAfter time d =
     (let d1 = setWallClock (since_start ms d) time d in
      case cancelAfter of
        None \<Rightarrow> d1
      | Some after \<Rightarrow>
          if rd_cancelClock d1 \<noteq> None then d1
          else
            let cancelAt = since_start after d1 in
            if js_le cancelAt (Num time) then raise_interrupt Cancel d1
            else
              d1\<lparr>rd_cancelClock :=
                   Some (time + timer_delay (js_max (Num 0) (js_plus cancelAt (Num (- time)))))\<rparr>)"

definition narrowProfile :: "js_number \<Rightarrow> int \<Rightarrow> RunDeadline \<Rightarrow> RunDeadline" where
  "narrowProfile ms time d =
     (let proposed = since_start ms d in
      setWallClock (case rd_armedUntil d of None \<Rightarrow> proposed | Some armed \<Rightarrow> js_min armed proposed) time d)"

definition disarm :: "RunDeadline \<Rightarrow> RunDeadline" where
  "disarm d = d\<lparr>rd_wallClock := None, rd_cancelClock := None, rd_armedUntil := None\<rparr>"

text \<open>The callbacks of the two timers, when their time has come.\<close>

definition wall_timer :: "int \<Rightarrow> RunDeadline \<Rightarrow> RunDeadline" where
  "wall_timer time d =
     (case rd_wallClock d of
        Some due \<Rightarrow> if due \<le> time then raise_interrupt Timeout d else d
      | None \<Rightarrow> d)"

definition cancel_timer :: "int \<Rightarrow> RunDeadline \<Rightarrow> RunDeadline" where
  "cancel_timer time d =
     (case rd_cancelClock d of
        Some due \<Rightarrow> if due \<le> time then raise_interrupt Cancel d else d
      | None \<Rightarrow> d)"

section \<open>The three boundaries\<close>

datatype expiry_source = Governed | Settlement | Recovery

record WinningExpiry =
  we_at :: js_number
  we_source :: expiry_source

definition expiry :: "RunDeadline \<Rightarrow> WinningExpiry option" where
  "expiry d = map_option (\<lambda>at. \<lparr>we_at = at, we_source = Governed\<rparr>) (rd_armedUntil d)"

text \<open>How the race of a call against the abort signal went.\<close>

datatype 'a race = Resolved 'a | Rejected fault | Abort_won

definition abort_reason :: "RunDeadline \<Rightarrow> fault" where
  "abort_reason d = Run_interrupted (case rd_reason d of Some reason \<Rightarrow> reason | None \<Rightarrow> Timeout)"

text \<open>Entering a call: refused when the run is over.\<close>

definition run_enter :: "int \<Rightarrow> RunDeadline \<Rightarrow> fault option \<times> RunDeadline" where
  "run_enter time d =
     (let d1 = raiseIfElapsed time d in
      (if rd_reason d1 \<noteq> None then Some (abort_reason d1) else None, d1))"

text \<open>Leaving it: a result that arrives after the expiry is not delivered.\<close>

definition run_leave :: "int \<Rightarrow> 'a race \<Rightarrow> RunDeadline \<Rightarrow> (fault + 'a) \<times> RunDeadline" where
  "run_leave time race d =
     (case race of
        Abort_won \<Rightarrow> (Inl (abort_reason d), d)
      | Rejected error \<Rightarrow> (Inl error, d)
      | Resolved value \<Rightarrow>
          let d1 = raiseIfElapsed time d in
          (if rd_reason d1 \<noteq> None then Inl (abort_reason d1) else Inr value, d1))"

text \<open>Leaving a commit: an acknowledged effect is delivered whatever the time.\<close>

definition commit_leave :: "'a race \<Rightarrow> fault \<Rightarrow> fault + 'a" where
  "commit_leave race aborted =
     (case race of Abort_won \<Rightarrow> Inl aborted | Rejected error \<Rightarrow> Inl error | Resolved value \<Rightarrow> Inr value)"

text \<open>\<^verbatim>\<open>RunSettlement\<close>: a fresh window of its own.\<close>

record RunSettlement =
  rs_expiresAt :: int
  rs_aborted :: bool

definition new_settlement :: "int \<Rightarrow> RunSettlement" where
  "new_settlement time = \<lparr>rs_expiresAt = time + ABANDON_GRACE_MS, rs_aborted = False\<rparr>"

definition settlement_check :: "int \<Rightarrow> RunSettlement \<Rightarrow> fault option" where
  "settlement_check time s = (if rs_aborted s \<or> time \<ge> rs_expiresAt s then Some Settlement_expired else None)"

definition settlement_leave :: "int \<Rightarrow> 'a race \<Rightarrow> RunSettlement \<Rightarrow> fault + 'a" where
  "settlement_leave time race s =
     (case race of
        Abort_won \<Rightarrow> Inl Settlement_expired
      | Rejected error \<Rightarrow> Inl error
      | Resolved value \<Rightarrow> (case settlement_check time s of Some error \<Rightarrow> Inl error | None \<Rightarrow> Inr value))"

definition settlement_expiry :: "RunSettlement \<Rightarrow> WinningExpiry" where
  "settlement_expiry s = \<lparr>we_at = Num (rs_expiresAt s), we_source = Settlement\<rparr>"

text \<open>\<^verbatim>\<open>RunRecovery\<close>: the governed deadline still counts, beside a ceiling of its own.\<close>

definition recovery_check ::
  "int \<Rightarrow> probe \<Rightarrow> RunSettlement \<Rightarrow> RunDeadline \<Rightarrow> fault option \<times> RunDeadline" where
  "recovery_check time poll s d =
     (case interrupted time poll d of
        (Some reason, d1) \<Rightarrow> (Some (Run_interrupted reason), d1)
      | (None, d1) \<Rightarrow> (settlement_check time s, d1))"

definition recovery_leave ::
  "int \<Rightarrow> probe \<Rightarrow> fault \<Rightarrow> 'a race \<Rightarrow> RunSettlement \<Rightarrow> RunDeadline \<Rightarrow> (fault + 'a) \<times> RunDeadline" where
  "recovery_leave time poll aborted race s d =
     (case race of
        Abort_won \<Rightarrow> (Inl aborted, d)
      | Rejected error \<Rightarrow> (Inl error, d)
      | Resolved value \<Rightarrow>
          (case recovery_check time poll s d of
             (Some error, d1) \<Rightarrow> (Inl error, d1)
           | (None, d1) \<Rightarrow> (Inr value, d1)))"

definition recovery_expiry :: "RunSettlement \<Rightarrow> RunDeadline \<Rightarrow> WinningExpiry" where
  "recovery_expiry s d =
     (let ceiling = \<lparr>we_at = Num (rs_expiresAt s), we_source = Recovery\<rparr> in
      case expiry d of
        Some governed \<Rightarrow> if js_le (we_at governed) (we_at ceiling) then governed else ceiling
      | None \<Rightarrow> ceiling)"

text \<open>The expiry a boundary stamps on a commit.\<close>

fun expiry_stamp :: "WinningExpiry option \<Rightarrow> (js_number \<times> bool) option" where
  "expiry_stamp None = None"
| "expiry_stamp (Some w) = Some (we_at w, we_source w = Governed)"

section \<open>The effect classes\<close>

text \<open>\<^verbatim>\<open>orchestration/effects.ts\<close> and \<^verbatim>\<open>ports.ts\<close>: how each method of a port crosses the boundary.\<close>

datatype EffectClass = Discardable_read | Acknowledged_effect | Acquisition_effect | Finalization_effect | Cleanup_effect

definition PORT_EFFECTS :: "(string \<times> (string \<times> EffectClass) list) list" where
  "PORT_EFFECTS =
     [(''authority'', [(''read'', Discardable_read)]),
      (''journal'',
        [(''appendTransition'', Acknowledged_effect), (''appendRejection'', Acknowledged_effect),
         (''appendAcquisition'', Acknowledged_effect), (''appendHold'', Acknowledged_effect),
         (''stageTransitions'', Finalization_effect), (''readCurrentState'', Discardable_read)]),
      (''lease'',
        [(''claim'', Acquisition_effect), (''abandon'', Cleanup_effect), (''renew'', Discardable_read),
         (''release'', Cleanup_effect)]),
      (''finalization'', [(''commit'', Finalization_effect)]),
      (''session'',
        [(''prepare'', Acquisition_effect), (''start'', Acknowledged_effect), (''interrupt'', Cleanup_effect),
         (''close'', Cleanup_effect)]),
      (''workspace'',
        [(''provision'', Acquisition_effect), (''applyBack'', Acknowledged_effect), (''discard'', Cleanup_effect)]),
      (''observer'', [(''observeBase'', Discardable_read), (''observe'', Discardable_read)]),
      (''artifacts'', [(''observe'', Discardable_read)]),
      (''execution'', [(''runGate'', Discardable_read)]),
      (''adapter'', [(''invoke'', Acknowledged_effect)]),
      (''events'', [(''emit'', Acknowledged_effect), (''stageEmit'', Finalization_effect)]),
      (''evidence'', [(''write'', Acknowledged_effect), (''stageWrite'', Finalization_effect)])]"

datatype crossing = Crosses_call | Crosses_commit | Refused_unclassified string

definition classified :: "string \<Rightarrow> string \<Rightarrow> crossing" where
  "classified port method =
     (case map_of PORT_EFFECTS port of
        None \<Rightarrow> Refused_unclassified (template [''unclassified asynchronous port method: '', method])
      | Some classes \<Rightarrow>
          (case map_of classes method of
             None \<Rightarrow> Refused_unclassified (template [''unclassified asynchronous port method: '', method])
           | Some effect \<Rightarrow> if effect = Finalization_effect then Crosses_commit else Crosses_call))"

section \<open>Narrowing the transition table\<close>

text \<open>
  A supplied table as plain lookup sees it: its keys, each with its value. The canonical table and its
  rows are ordinary objects, so lookup also finds what every object inherits; \<open>inherited\<close>
  says what is under a path of names there: a text, or a built-in value with the text it prints as.
\<close>

datatype member = Text string | Builtin string

datatype supplied_row = No_row | Row "(string \<times> string option) list"

datatype TableCheck = Table_ok "(string \<times> (string \<times> string) list) list" | Table_refused string

definition state_named :: "string \<Rightarrow> LifecycleState option" where
  "state_named name = find (\<lambda>s. state_text s = name) (PROGRESS_STATES @ TERMINAL_STATES)"

definition kind_named :: "string \<Rightarrow> TransitionKind option" where
  "kind_named name = find (\<lambda>k. transition_text k = name) TRANSITIONS_KINDS"

text \<open>\<^verbatim>\<open>canonical[state]\<close> as a lookup of kinds, and \<^verbatim>\<open>declared[kind]\<close>.\<close>

definition canonical_row :: "(string list \<Rightarrow> member option) \<Rightarrow> string \<Rightarrow> (string \<Rightarrow> member option) option" where
  "canonical_row inherited name =
     (case state_named name of
        Some s \<Rightarrow>
          if s \<in> set PROGRESS_STATES then
            Some (\<lambda>kind.
              case kind_named kind of
                Some k \<Rightarrow> map_option (\<lambda>next. Text (state_text next)) (TRANSITIONS s k)
              | None \<Rightarrow> if kind \<in> set inherited_members then inherited [kind] else None)
          else None
      | None \<Rightarrow> if name \<in> set inherited_members then Some (\<lambda>kind. inherited [name, kind]) else None)"

fun narrow_row ::
  "string \<Rightarrow> (string \<Rightarrow> member option) \<Rightarrow> (string \<times> string option) list \<Rightarrow> string + (string \<times> string) list" where
  "narrow_row state declared [] = Inr []"
| "narrow_row state declared ((kind, None) # rest) = narrow_row state declared rest"
| "narrow_row state declared ((kind, Some to) # rest) =
     (case declared kind of
        None \<Rightarrow>
          Inl (template [''the table adds transition '', kind, '' from '', state,
            '', which the lifecycle does not declare''])
      | Some next \<Rightarrow>
          if next \<noteq> Text to then
            Inl (template [''the table redirects '', state, ''.'', kind, '' to '', to,
              ''; the lifecycle declares '', (case next of Text name \<Rightarrow> name | Builtin name \<Rightarrow> name)])
          else map_sum id (Cons (kind, to)) (narrow_row state declared rest))"

fun narrow_table ::
  "(string list \<Rightarrow> member option) \<Rightarrow> (string \<times> supplied_row) list \<Rightarrow> TableCheck" where
  "narrow_table inherited [] = Table_ok []"
| "narrow_table inherited ((state, No_row) # rest) = narrow_table inherited rest"
| "narrow_table inherited ((state, Row row) # rest) =
     (case canonical_row inherited state of
        None \<Rightarrow>
          Table_refused (template [''the table declares state '', state, '', which the lifecycle does not''])
      | Some declared \<Rightarrow>
          (case narrow_row state declared row of
             Inl detail \<Rightarrow> Table_refused detail
           | Inr copied \<Rightarrow>
               (case narrow_table inherited rest of
                  Table_ok table \<Rightarrow> Table_ok ((state, copied) # table)
                | Table_refused detail \<Rightarrow> Table_refused detail)))"

text \<open>What the machine reads in the checked table.\<close>

definition as_table :: "(string \<times> (string \<times> string) list) list \<Rightarrow> TransitionTable" where
  "as_table table s k =
     (case map_of table (state_text s) of
        None \<Rightarrow> None
      | Some row \<Rightarrow>
          (case map_of row (transition_text k) of None \<Rightarrow> None | Some name \<Rightarrow> state_named name))"

datatype narrowed = Narrowed TransitionTable | Widens string

definition narrowingOnly ::
  "(string list \<Rightarrow> member option) \<Rightarrow> (string \<times> supplied_row) list option \<Rightarrow> narrowed" where
  "narrowingOnly inherited candidate =
     (case candidate of
        None \<Rightarrow> Narrowed TRANSITIONS
      | Some supplied \<Rightarrow>
          (case narrow_table inherited supplied of
             Table_ok table \<Rightarrow> Narrowed (as_table table)
           | Table_refused detail \<Rightarrow> Widens detail))"

section \<open>Narrowing only narrows\<close>

lemma state_named_text [simp]: "state_named (state_text s) = Some s"
proof (cases s)
  case (Terminal t)
  then show ?thesis by (cases t) (simp_all add: state_named_def PROGRESS_STATES_def TERMINAL_STATES_def)
qed (simp_all add: state_named_def PROGRESS_STATES_def TERMINAL_STATES_def)

lemma kind_named_text [simp]: "kind_named (transition_text k) = Some k"
  by (cases k) (simp_all add: kind_named_def TRANSITIONS_KINDS_def)

lemma kind_named_Some: "kind_named name = Some k \<Longrightarrow> transition_text k = name"
  by (auto simp: kind_named_def find_Some_iff)

lemma canonical_row_state:
  "canonical_row inherited (state_text s) = Some declared \<Longrightarrow>
   declared (transition_text k) = map_option (\<lambda>next. Text (state_text next)) (TRANSITIONS s k)"
  by (auto simp: canonical_row_def split: if_splits)

lemma narrow_row_sound:
  assumes "narrow_row state declared row = Inr copied" and "map_of copied kind = Some to"
  shows "declared kind = Some (Text to)"
  using assms
proof (induction state declared row arbitrary: copied rule: narrow_row.induct)
  case (3 state declared kind' to' rest)
  then show ?case
    by (cases "narrow_row state declared rest") (auto split: option.splits if_splits)
qed auto

lemma narrow_table_sound:
  assumes "narrow_table inherited supplied = Table_ok table" and "map_of table (state_text s) = Some row"
  shows "\<exists>declared supplied_row. canonical_row inherited (state_text s) = Some declared \<and>
    narrow_row (state_text s) declared supplied_row = Inr row"
  using assms
proof (induction inherited supplied arbitrary: table rule: narrow_table.induct)
  case (3 inherited state row' rest)
  then show ?case by (auto split: option.splits sum.splits TableCheck.splits if_splits)
qed auto

lemma narrowed_declares:
  assumes "narrowingOnly inherited candidate = Narrowed table" and "declaredNext table s k = Some next"
  shows "declaredNext TRANSITIONS s k = Some next"
proof (cases candidate)
  case None
  with assms show ?thesis by (simp add: narrowingOnly_def)
next
  case (Some supplied)
  with assms obtain t row name where
    "narrow_table inherited supplied = Table_ok t" "map_of t (state_text s) = Some row"
    "map_of row (transition_text k) = Some name" "state_named name = Some next"
    by (auto simp: narrowingOnly_def declaredNext_def as_table_def split: TableCheck.splits option.splits)
  from narrow_table_sound[OF this(1,2)] this(3,4) show ?thesis
    by (auto simp: declaredNext_def canonical_row_state dest!: narrow_row_sound)
qed

text \<open>
  C17: A supplied transition table only narrows: whatever object is supplied, if it is accepted then
  every transition the machine finds in it is a transition of the lifecycle, to the same state.
\<close>

theorem accepted_table_only_narrows:
  assumes "narrowingOnly inherited candidate = Narrowed table" and "declaredNext table s k = Some next"
  shows "declaredNext TRANSITIONS s k = Some next"
  using assms by (rule narrowed_declares)

lemma accepted_table_only_narrows_witness:
  "declaredNext TRANSITIONS ELIGIBLE commit_spend = Some SANDBOX_STARTED"
proof -
  let ?supplied = "[(''ELIGIBLE'', Row [(''commit_spend'', Some ''SANDBOX_STARTED''), (''cancel'', None)]), (''x'', No_row)]"
  have "narrow_table (\<lambda>_. None) ?supplied = Table_ok [(''ELIGIBLE'', [(''commit_spend'', ''SANDBOX_STARTED'')])]"
    by code_simp
  then have "narrowingOnly (\<lambda>_. None) (Some ?supplied) =
      Narrowed (as_table [(''ELIGIBLE'', [(''commit_spend'', ''SANDBOX_STARTED'')])])"
    by (simp add: narrowingOnly_def)
  moreover have "declaredNext (as_table [(''ELIGIBLE'', [(''commit_spend'', ''SANDBOX_STARTED'')])]) ELIGIBLE commit_spend =
      Some SANDBOX_STARTED"
    by code_simp
  ultimately show ?thesis by (rule accepted_table_only_narrows)
qed

lemma redirected_table_is_refused:
  "narrow_table inherited [(''ELIGIBLE'', Row [(''commit_spend'', Some ''COMPLETED'')])] =
   Table_refused ''the table redirects ELIGIBLE.commit_spend to COMPLETED; the lifecycle declares SANDBOX_STARTED''"
  by code_simp

section \<open>Budgets\<close>

text \<open>
  The wall clock of a run is exactly the least of what the captured profile grants, the session
  offers and an override allows: it is one of them and none is below it; and when one of them is not a
  number, neither is it.
\<close>

theorem bounded_deadline_exact:
  "let budget = boundedDeadlineMs profile session override;
       bounds = [js_thousand profile, js_thousand session] @ (case override of None \<Rightarrow> [] | Some ms \<Rightarrow> [ms])
   in if NaN \<in> set bounds then budget = NaN else budget \<in> set bounds \<and> list_all (js_le budget) bounds"
  by (cases profile; cases session; cases override rule: option.exhaust; (cases "the override")?)
    (auto simp: boundedDeadlineMs_def Let_def js_le_def)

section \<open>Interruption\<close>

definition elapsed_at :: "int \<Rightarrow> RunDeadline \<Rightarrow> bool" where
  "elapsed_at time d \<longleftrightarrow> (case rd_armedUntil d of None \<Rightarrow> False | Some at \<Rightarrow> js_le at (Num time))"

text \<open>Everything that can happen to a deadline.\<close>

datatype deadline_op =
    Poll probe
  | Wall_timer
  | Cancel_timer
  | Narrow js_number
  | Enter_call
  | Leave_call

fun deadline_do :: "int \<Rightarrow> deadline_op \<Rightarrow> RunDeadline \<Rightarrow> RunDeadline" where
  "deadline_do time (Poll poll) d = snd (interrupted time poll d)"
| "deadline_do time Wall_timer d = wall_timer time d"
| "deadline_do time Cancel_timer d = cancel_timer time d"
| "deadline_do time (Narrow ms) d = narrowProfile ms time d"
| "deadline_do time Enter_call d = snd (run_enter time d)"
| "deadline_do time Leave_call d = snd (run_leave time (Resolved ()) d)"

definition deadline_run :: "(int \<times> deadline_op) list \<Rightarrow> RunDeadline \<Rightarrow> RunDeadline" where
  "deadline_run = fold (\<lambda>(time, op). deadline_do time op)"

lemma raise_kept: "rd_reason d = Some r \<Longrightarrow> rd_reason (raise_interrupt r' d) = Some r"
  by (simp add: raise_interrupt_def)

lemma elapsed_kept: "rd_reason d = Some r \<Longrightarrow> rd_reason (raiseIfElapsed time d) = Some r"
  by (simp add: raiseIfElapsed_def split: option.splits)

lemma wallclock_kept: "rd_reason d = Some r \<Longrightarrow> rd_reason (setWallClock at time d) = Some r"
  by (simp add: setWallClock_def Let_def raise_interrupt_def)

lemma reason_kept_do: "rd_reason d = Some r \<Longrightarrow> rd_reason (deadline_do time op d) = Some r"
  by (cases op)
    (simp_all add: interrupted_def wall_timer_def cancel_timer_def narrowProfile_def run_enter_def
      run_leave_def Let_def raise_kept elapsed_kept wallclock_kept split: option.splits)

lemma reason_kept_run: "rd_reason d = Some r \<Longrightarrow> rd_reason (deadline_run ops d) = Some r"
  by (induction ops arbitrary: d) (auto simp: deadline_run_def reason_kept_do)

text \<open>
  C19: The first reason a run is interrupted for is the one it ends with: polls that say something
  else, timers that fire later and narrowing do not change it, every later check reports
  it, and no later call is entered or delivers a result.
\<close>

theorem first_interrupt_wins:
  assumes "rd_reason d = Some reason"
  shows "let d' = deadline_run ops d in
    fst (interrupted time poll d') = Some reason \<and>
    fst (run_enter time d') = Some (Run_interrupted reason) \<and>
    fst (run_leave time (Resolved x) d') = Inl (Run_interrupted reason)"
  using reason_kept_run[OF assms, of ops]
  by (simp add: Let_def interrupted_def run_enter_def run_leave_def abort_reason_def elapsed_kept)

lemma first_interrupt_wins_witness:
  "let d = raise_interrupt Cancel (armProfile (Num 5) None 0 (new_deadline 0)) in
   fst (interrupted 9 No_probe (deadline_run [(7, Wall_timer), (8, Poll Probe_answers)] d)) = Some Cancel"
proof -
  let ?d = "raise_interrupt Cancel (armProfile (Num 5) None 0 (new_deadline 0))"
  have "rd_reason ?d = Some Cancel" by code_simp
  from first_interrupt_wins[OF this, of "[(7, Wall_timer), (8, Poll Probe_answers)]" 9 No_probe "()"]
  show ?thesis by (simp add: Let_def)
qed

text \<open>
  C16: A result is delivered only inside the budget: when a call of the run boundary delivers a
  value, the call was entered and left before the armed instant, and the run was not interrupted;
  an acknowledged commit is delivered at any time.
\<close>

theorem late_results_are_not_delivered:
  "(case run_enter time d of
      (None, d1) \<Rightarrow> rd_reason d1 = None \<and> \<not> elapsed_at time d1
    | (Some error, d1) \<Rightarrow> error = abort_reason d1) \<and>
   (case run_leave time race d of
      (Inr value, d2) \<Rightarrow> race = Resolved value \<and> rd_reason d2 = None \<and> \<not> elapsed_at time d2
    | (Inl error, d2) \<Rightarrow> race = Rejected error \<or> error = abort_reason d2) \<and>
   commit_leave (Resolved x) aborted = Inr x"
  by (auto simp: run_enter_def run_leave_def Let_def raiseIfElapsed_def raise_interrupt_def abort_reason_def
      commit_leave_def elapsed_at_def split: option.splits race.splits)

text \<open>
  C18: A long budget is no budget. The timer that guards the wall clock is set with the
  whole remaining time as its delay, and the platform replaces a delay above 2147483647 milliseconds by
  1: a run whose profile grants 2147484 seconds or more, which is a valid grant, is timed out a
  millisecond after it was armed.
\<close>

theorem long_wall_clock_times_out_at_once:
  assumes "2147484 \<le> seconds"
  shows "let d = armProfile (boundedDeadlineMs (Num seconds) (Num seconds) None) None start (new_deadline start) in
    rd_reason d = None \<and> elapsed_at (start + 1) d = False \<and> rd_reason (wall_timer (start + 1) d) = Some Timeout"
  using assms
  by (simp add: armProfile_def boundedDeadlineMs_def setWallClock_def since_start_def new_deadline_def Let_def
      js_le_def raise_interrupt_def elapsed_at_def wall_timer_def)

lemma long_wall_clock_times_out_at_once_witness:
  "rd_reason (wall_timer 1 (armProfile (Num 2592000000) None 0 (new_deadline 0))) = Some Timeout"
proof -
  have "boundedDeadlineMs (Num 2592000) (Num 2592000) None = Num 2592000000" by code_simp
  with long_wall_clock_times_out_at_once[of 2592000 0] show ?thesis by (simp add: Let_def)
qed

text \<open>
  During recovery the winning expiry is one value: its instant is the earlier of the governed
  deadline and the recovery ceiling, and its source is the one it came from, the governed deadline when
  they are equal.
\<close>

theorem recovery_expiry_exact:
  "let ceiling = Num (rs_expiresAt s); w = recovery_expiry s d in
   (case rd_armedUntil d of
      None \<Rightarrow> we_at w = ceiling \<and> we_source w = Recovery
    | Some at \<Rightarrow>
        if at = NaN then we_at w = ceiling \<and> we_source w = Recovery
        else we_at w = js_min at ceiling \<and> (we_source w = Governed) = js_le at ceiling)"
  by (cases "rd_armedUntil d"; (cases "the (rd_armedUntil d)")?)
    (auto simp: recovery_expiry_def expiry_def Let_def js_le_def)

end
