(* ===== verification/RunScope.thy ===== *)
theory RunScope
  imports Deadline Records Finalization Walk Acquisition Scheduling Outcome Materialize
begin

text \<open>
  One run and its ports: \<^verbatim>\<open>run/scope.ts\<close>, \<^verbatim>\<open>orchestration/state.ts\<close>, \<^verbatim>\<open>environment.ts\<close>,
  \<^verbatim>\<open>result.ts\<close> and the guarded ports of \<^verbatim>\<open>orchestration/ports.ts\<close>.

  An operation of a run is an action: a function of the run's state that returns a value or throws,
  with the state after it. The ports are functions on a world \<open>'w\<close>; what they answer, how
  long they take and whether they answer at all is the world's. A call of a port crosses a boundary,
  which may refuse it, or lose its answer.
\<close>

section \<open>Requests and conclusions\<close>

record RunRequest =
  rq_run_id :: string
  rq_requester :: Principal
  rq_profile_ref :: "ProfileRef option"
  rq_input :: RunInput
  rq_gates :: "string list"
  rq_workspace_root :: string
  rq_pinned_base :: string
  rq_artifact_paths :: "string list"
  rq_claimed_changes :: claims_raw
  rq_consent :: "ConsentRecord option"

datatype Produced = No_record | Bundle_record | Early_record

datatype ConclusionKind =
    Concluded_terminal
  | Settlement_failed LifecycleState
  | Concluded_held
  | Ownership_lost
  | Not_started
  | Unterminated

record RunConclusion =
  cn_run_id :: string
  cn_kind :: ConclusionKind
  cn_state :: LifecycleState
  cn_produced :: Produced
  cn_detail :: string
  cn_transitions :: "TransitionEntry list"
  cn_rejections :: "RejectionEntry list"

section \<open>What a run establishes\<close>

record Authority =
  au_snapshots :: EpochSnapshots
  au_profile :: "ExecutionProfile Captured"
  au_principal :: Principal
  au_adapter :: string

record Observations =
  obs_gate_results :: GateResults
  obs_observed :: "ObservedChange list"
  obs_artifacts :: ArtifactObservation
  obs_operations :: EvidenceOperations

definition emptyOperations :: EvidenceOperations where
  "emptyOperations = \<lparr>eos_attempted = [], eos_permitted = [], eos_denied = []\<rparr>"

definition emptyTerminalEvidence :: Observations where
  "emptyTerminalEvidence =
     \<lparr>obs_gate_results = [], obs_observed = [], obs_artifacts = Observed_artifacts [],
      obs_operations = emptyOperations\<rparr>"

text \<open>Values of the model are never shared, so the copy of a snapshot is the value itself.\<close>

definition snapshotTerminalEvidence :: "Observations \<Rightarrow> Observations" where
  "snapshotTerminalEvidence evidence =
     \<lparr>obs_gate_results = obs_gate_results evidence, obs_observed = obs_observed evidence,
      obs_artifacts = obs_artifacts evidence, obs_operations = obs_operations evidence\<rparr>"

definition noObservations :: Observations where
  "noObservations = snapshotTerminalEvidence emptyTerminalEvidence"

datatype EstablishedRun = At_requested | At_authorized Authority | At_observed Authority Observations

section \<open>Ports\<close>

text \<open>What a port can be asked.\<close>

record CommitRequest =
  cq_fence :: RunFence
  cq_commit_id :: string
  cq_terminal :: LifecycleState
  cq_transitions :: "TransitionEntry list"
  cq_event :: RunEvent
  cq_bundle :: EvidenceBundle
  cq_expires :: "(js_number \<times> bool) option"

datatype PortCall =
    Claim_lease string
  | Abandon_claim string
  | Renew_lease int
  | Release_lease int
  | Read_authority AcquisitionEpoch string
  | Append_entry OutboxEntry
  | Provision_workspace string string
  | Apply_back ApplyBackRequest
  | Discard_workspace string
  | Prepare_session SessionPrepareRequest
  | Start_session string
  | Interrupt_session string interrupt_reason
  | Close_session string
  | Observe_base string
  | Observe_workspace string
  | Observe_artifacts "string list"
  | Run_gate GateExecutionRequest
  | Invoke_adapter AdapterInvocationRequest
  | Emit_event int RunEvent
  | Write_record string EarlyTerminationRecord
  | Commit_run CommitRequest

fun append_method :: "OutboxFact \<Rightarrow> string" where
  "append_method (Transition_fact _) = ''appendTransition''"
| "append_method (Rejection_fact _) = ''appendRejection''"
| "append_method (Acquisition_fact _) = ''appendAcquisition''"
| "append_method (Hold_fact _) = ''appendHold''"

fun port_method :: "PortCall \<Rightarrow> string \<times> string" where
  "port_method (Claim_lease _) = (''lease'', ''claim'')"
| "port_method (Abandon_claim _) = (''lease'', ''abandon'')"
| "port_method (Renew_lease _) = (''lease'', ''renew'')"
| "port_method (Release_lease _) = (''lease'', ''release'')"
| "port_method (Read_authority _ _) = (''authority'', ''read'')"
| "port_method (Append_entry entry) = (''journal'', append_method (snd entry))"
| "port_method (Provision_workspace _ _) = (''workspace'', ''provision'')"
| "port_method (Apply_back _) = (''workspace'', ''applyBack'')"
| "port_method (Discard_workspace _) = (''workspace'', ''discard'')"
| "port_method (Prepare_session _) = (''session'', ''prepare'')"
| "port_method (Start_session _) = (''session'', ''start'')"
| "port_method (Interrupt_session _ _) = (''session'', ''interrupt'')"
| "port_method (Close_session _) = (''session'', ''close'')"
| "port_method (Observe_base _) = (''observer'', ''observeBase'')"
| "port_method (Observe_workspace _) = (''observer'', ''observe'')"
| "port_method (Observe_artifacts _) = (''artifacts'', ''observe'')"
| "port_method (Run_gate _) = (''execution'', ''runGate'')"
| "port_method (Invoke_adapter _) = (''adapter'', ''invoke'')"
| "port_method (Emit_event _ _) = (''events'', ''emit'')"
| "port_method (Write_record _ _) = (''evidence'', ''write'')"
| "port_method (Commit_run _) = (''finalization'', ''commit'')"

text \<open>The answers the ports allow where the deterministic implementations always give a reason.\<close>

datatype source_bytes = Source_bytes string string | Source_failed string string

datatype 'a grant_answer = Granted 'a | Not_granted bool string

datatype apply_answer = Changes_applied nat | Changes_not_applied "FenceReason option" string

datatype base_answer = Base_digest string | Base_failed string

text \<open>What can fire while a call is awaited: the two timers of the run, the polling, the timer of a window.\<close>

datatype firing = Wall_fires int | Cancel_fires int | Poll_fires int probe | Window_fires nat

type_synonym ('w, 'a) port = "'w \<Rightarrow> 'a race \<times> 'w"

record 'w Ports =
  pt_time :: "'w \<Rightarrow> int \<times> 'w"
  pt_firings :: "'w \<Rightarrow> firing list \<times> 'w"
  pt_probe :: "'w \<Rightarrow> probe \<times> 'w"
  pt_now :: "'w \<Rightarrow> (fault + string) \<times> 'w"
  pt_claim :: "string \<Rightarrow> string \<Rightarrow> ('w, LeaseClaim) port"
  pt_abandon :: "string \<Rightarrow> string \<Rightarrow> ('w, unit) port"
  pt_renew :: "RunFence \<Rightarrow> ('w, bool) port"
  pt_release :: "RunFence \<Rightarrow> ('w, unit) port"
  pt_read :: "string \<Rightarrow> AcquisitionEpoch \<Rightarrow> string \<Rightarrow> ('w, source_bytes) port"
  pt_append :: "RunFence \<Rightarrow> OutboxEntry \<Rightarrow> ('w, FenceOutcome) port"
  pt_provision :: "RunFence \<Rightarrow> string \<Rightarrow> string \<Rightarrow> ('w, WorkspaceHandle grant_answer) port"
  pt_apply :: "ApplyBackRequest \<Rightarrow> ('w, apply_answer) port"
  pt_discard :: "RunFence \<Rightarrow> string \<Rightarrow> ('w, FenceOutcome) port"
  pt_prepare :: "SessionPrepareRequest \<Rightarrow> ('w, SessionHandle grant_answer) port"
  pt_start :: "RunFence \<Rightarrow> string \<Rightarrow> ('w, unit grant_answer) port"
  pt_interrupt :: "RunFence \<Rightarrow> string \<Rightarrow> interrupt_reason \<Rightarrow> ('w, FenceOutcome) port"
  pt_close :: "RunFence \<Rightarrow> string \<Rightarrow> ('w, SessionClosure) port"
  pt_base :: "string \<Rightarrow> string \<Rightarrow> ('w, base_answer) port"
  pt_observe :: "string \<Rightarrow> string \<Rightarrow> ('w, WorkspaceObservation) port"
  pt_artifacts :: "string \<Rightarrow> string list \<Rightarrow> ('w, ArtifactObservation) port"
  pt_gate :: "GateExecutionRequest \<Rightarrow> ('w, GateReport) port"
  pt_invoke :: "AdapterInvocationRequest \<Rightarrow> ('w, AdapterReport) port"
  pt_emit :: "RunFence \<Rightarrow> int \<Rightarrow> RunEvent \<Rightarrow> ('w, FenceOutcome) port"
  pt_write :: "RunFence \<Rightarrow> string \<Rightarrow> EarlyTerminationRecord \<Rightarrow> ('w, FenceOutcome) port"
  pt_commit :: "CommitRequest \<Rightarrow> ('w, CommitOutcome) port"

text \<open>
  What the platform and the libraries supply. \<open>lb_patience\<close> is the number of occupied event
  identities after which the boundary of the run ends an emission.
\<close>

record Library =
  lb_platform :: Platform
  lb_date_ms :: "string \<Rightarrow> int option"
  lb_early_issues :: "EarlyTerminationRecord \<Rightarrow> Issue list"
  lb_event_issues :: "RunEvent \<Rightarrow> string"
  lb_type_error :: string
  lb_patience :: nat

section \<open>The scope of a run\<close>

text \<open>
  A call as the ports see it, with what the run knew when it made it: the lifecycle state, whether
  the fence was known to be lost, how many journal facts were pending, what was established, and
  how many commits had been acknowledged.
\<close>

record CallRecord =
  ca_call :: PortCall
  ca_state :: LifecycleState
  ca_lost :: bool
  ca_pending :: nat
  ca_established :: EstablishedRun
  ca_acknowledged :: nat

text \<open>
  The scope with what else a run mutates: its ledger, its emitter, its deadline and the windows
  opened beside it, and the objects minted. \<open>ru_calls\<close> records the calls of the ports,
  \<open>ru_acknowledged\<close> the commits and \<open>ru_written\<close> the early records whose acknowledgement by the
  port reached the run; no operation reads them.
\<close>

record 'w Run =
  ru_machine :: RunMachine
  ru_outbox :: JournalOutbox
  ru_session :: "SessionHandle option"
  ru_workspace :: "WorkspaceHandle option"
  ru_sessionAttempt :: "string option"
  ru_workspaceAttempt :: "string option"
  ru_held :: "string option"
  ru_fenceLost :: "string option"
  ru_authorityCaptured :: bool
  ru_established :: EstablishedRun
  ru_terminalEvidence :: Observations
  ru_recorded :: Produced
  ru_earlyRecord :: "EarlyTerminationRecord option"
  ru_ledger :: FinalizationLedger
  ru_emitter :: Emitter
  ru_deadline :: RunDeadline
  ru_windows :: "RunSettlement list"
  ru_minted :: nat
  ru_calls :: "CallRecord list"
  ru_acknowledged :: "CommitRequest list"
  ru_written :: "(string \<times> EarlyTerminationRecord) list"
  ru_world :: 'w

text \<open>A window is named by its position among the windows of the run.\<close>

datatype boundary = Run_boundary | Settlement_boundary nat | Recovery_boundary nat

record 'w Env =
  env_request :: RunRequest
  env_fence :: RunFence
  env_startedAt :: string
  env_ports :: "'w Ports"
  env_boundary :: boundary
  env_deadline_ms :: "js_number option"
  env_cancelAfterMs :: "js_number option"
  env_library :: Library

section \<open>Actions\<close>

type_synonym ('w, 'a) act = "'w Run \<Rightarrow> (fault + 'a) \<times> 'w Run"

definition give :: "'a \<Rightarrow> ('w, 'a) act" where
  "give x r = (Inr x, r)"

definition throw :: "fault \<Rightarrow> ('w, 'a) act" where
  "throw e r = (Inl e, r)"

definition seq :: "('w, 'a) act \<Rightarrow> ('a \<Rightarrow> ('w, 'b) act) \<Rightarrow> ('w, 'b) act" where
  "seq f g r = (case f r of (Inl e, r') \<Rightarrow> (Inl e, r') | (Inr x, r') \<Rightarrow> g x r')"

definition recover :: "('w, 'a) act \<Rightarrow> (fault \<Rightarrow> ('w, 'a) act) \<Rightarrow> ('w, 'a) act" where
  "recover f h r = (case f r of (Inl e, r') \<Rightarrow> h e r' | (Inr x, r') \<Rightarrow> (Inr x, r'))"

definition look :: "('w Run \<Rightarrow> 'a) \<Rightarrow> ('a \<Rightarrow> ('w, 'b) act) \<Rightarrow> ('w, 'b) act" where
  "look f g r = g (f r) r"

definition set_run :: "('w Run \<Rightarrow> 'w Run) \<Rightarrow> ('w, unit) act" where
  "set_run u r = (Inr (), u r)"

text \<open>An action that cannot throw.\<close>

definition act_of :: "('w Run \<Rightarrow> 'a \<times> 'w Run) \<Rightarrow> ('w, 'a) act" where
  "act_of f r = (case f r of (x, r') \<Rightarrow> (Inr x, r'))"

definition loseFence :: "string \<Rightarrow> 'w Run \<Rightarrow> 'w Run" where
  "loseFence detail r =
     (case ru_fenceLost r of None \<Rightarrow> r\<lparr>ru_fenceLost := Some detail\<rparr> | Some _ \<Rightarrow> r)"

section \<open>Crossing the boundary\<close>

definition tick :: "'w Env \<Rightarrow> 'w Run \<Rightarrow> int \<times> 'w Run" where
  "tick env r = (case pt_time (env_ports env) (ru_world r) of (time, w) \<Rightarrow> (time, r\<lparr>ru_world := w\<rparr>))"

text \<open>\<^verbatim>\<open>deadline.interrupted()\<close>: the probe is consulted only when nothing was raised yet.\<close>

definition poll_interrupt :: "'w Env \<Rightarrow> int \<Rightarrow> 'w Run \<Rightarrow> interrupt_reason option \<times> 'w Run" where
  "poll_interrupt env time r =
     (if rd_reason (raiseIfElapsed time (ru_deadline r)) \<noteq> None then
        (case interrupted time No_probe (ru_deadline r) of (reason, d) \<Rightarrow> (reason, r\<lparr>ru_deadline := d\<rparr>))
      else
        (case pt_probe (env_ports env) (ru_world r) of
           (poll, w) \<Rightarrow>
             (case interrupted time poll (ru_deadline r) of
                (reason, d) \<Rightarrow> (reason, r\<lparr>ru_world := w, ru_deadline := d\<rparr>))))"

definition run_interrupted :: "'w Env \<Rightarrow> ('w, interrupt_reason option) act" where
  "run_interrupted env = act_of (\<lambda>r. case tick env r of (time, r1) \<Rightarrow> poll_interrupt env time r1)"

definition window :: "nat \<Rightarrow> 'w Run \<Rightarrow> RunSettlement" where
  "window n r = ru_windows r ! n"

text \<open>\<^verbatim>\<open>new RunSettlement()\<close>, \<^verbatim>\<open>new RunRecovery(this)\<close>: the name of the fresh window.\<close>

definition open_window :: "'w Env \<Rightarrow> ('w, nat) act" where
  "open_window env =
     act_of (\<lambda>r. case tick env r of
       (time, r1) \<Rightarrow> (length (ru_windows r1), r1\<lparr>ru_windows := ru_windows r1 @ [new_settlement time]\<rparr>))"

definition recovery_stop :: "'w Env \<Rightarrow> nat \<Rightarrow> int \<Rightarrow> 'w Run \<Rightarrow> fault option \<times> 'w Run" where
  "recovery_stop env n time r =
     (case poll_interrupt env time r of
        (Some reason, r1) \<Rightarrow> (Some (Run_interrupted reason), r1)
      | (None, r1) \<Rightarrow> (settlement_check time (window n r1), r1))"

definition boundary_enter :: "'w Env \<Rightarrow> 'w Run \<Rightarrow> fault option \<times> 'w Run" where
  "boundary_enter env r =
     (case tick env r of
        (time, r1) \<Rightarrow>
          (case env_boundary env of
             Run_boundary \<Rightarrow>
               (case run_enter time (ru_deadline r1) of (stop, d) \<Rightarrow> (stop, r1\<lparr>ru_deadline := d\<rparr>))
           | Settlement_boundary n \<Rightarrow> (settlement_check time (window n r1), r1)
           | Recovery_boundary n \<Rightarrow> recovery_stop env n time r1))"

text \<open>What fires while the call is awaited, and what the boundary rejects the race with if it does.\<close>

definition fire :: "boundary \<Rightarrow> firing \<Rightarrow> 'w Run \<Rightarrow> 'w Run" where
  "fire b f r =
     (case f of
        Wall_fires time \<Rightarrow> r\<lparr>ru_deadline := wall_timer time (ru_deadline r)\<rparr>
      | Cancel_fires time \<Rightarrow> r\<lparr>ru_deadline := cancel_timer time (ru_deadline r)\<rparr>
      | Poll_fires time poll \<Rightarrow>
          (case b of
             Run_boundary \<Rightarrow>
               if polled poll then r\<lparr>ru_deadline := raise_interrupt Cancel (ru_deadline r)\<rparr> else r
           | Settlement_boundary _ \<Rightarrow> r
           | Recovery_boundary _ \<Rightarrow> r\<lparr>ru_deadline := snd (interrupted time poll (ru_deadline r))\<rparr>)
      | Window_fires n \<Rightarrow>
          if n < length (ru_windows r) then
            r\<lparr>ru_windows := (ru_windows r)[n := (ru_windows r ! n)\<lparr>rs_aborted := True\<rparr>]\<rparr>
          else r)"

definition aborted_by :: "boundary \<Rightarrow> 'w Run \<Rightarrow> fault option" where
  "aborted_by b r =
     (case b of
        Run_boundary \<Rightarrow> (if rd_reason (ru_deadline r) \<noteq> None then Some (abort_reason (ru_deadline r)) else None)
      | Settlement_boundary n \<Rightarrow> (if rs_aborted (window n r) then Some Settlement_expired else None)
      | Recovery_boundary n \<Rightarrow>
          (if rd_reason (ru_deadline r) \<noteq> None then Some (abort_reason (ru_deadline r))
           else if rs_aborted (window n r) then Some Settlement_expired
           else None))"

text \<open>The first abort wins; a race lost without one is the boundary's own default.\<close>

fun awaited :: "boundary \<Rightarrow> firing list \<Rightarrow> 'w Run \<Rightarrow> fault option \<times> 'w Run" where
  "awaited b [] r = (aborted_by b r, r)"
| "awaited b (f # fs) r =
     (case awaited b fs (fire b f r) of
        (last_abort, r') \<Rightarrow>
          (case aborted_by b r of Some error \<Rightarrow> (Some error, r') | None \<Rightarrow> (last_abort, r')))"

definition default_abort :: "boundary \<Rightarrow> fault" where
  "default_abort b = (case b of Settlement_boundary _ \<Rightarrow> Settlement_expired | _ \<Rightarrow> Run_interrupted Timeout)"

definition await_call :: "'w Env \<Rightarrow> 'w Run \<Rightarrow> fault \<times> 'w Run" where
  "await_call env r =
     (case pt_firings (env_ports env) (ru_world r) of
        (fs, w) \<Rightarrow>
          (case awaited (env_boundary env) fs (r\<lparr>ru_world := w\<rparr>) of
             (Some error, r') \<Rightarrow> (error, r')
           | (None, r') \<Rightarrow> (default_abort (env_boundary env), r')))"

definition boundary_leave :: "'w Env \<Rightarrow> crossing \<Rightarrow> 'a race \<Rightarrow> fault \<Rightarrow> ('w, 'a) act" where
  "boundary_leave env crossing race aborted r =
     (if crossing = Crosses_commit then (commit_leave race aborted, r)
      else
        (case race of
           Abort_won \<Rightarrow> (Inl aborted, r)
         | race.Rejected error \<Rightarrow> (Inl error, r)
         | Resolved value \<Rightarrow>
             (case boundary_enter env r of
                (Some error, r1) \<Rightarrow> (Inl error, r1)
              | (None, r1) \<Rightarrow> (Inr value, r1))))"

definition call_record :: "PortCall \<Rightarrow> 'w Run \<Rightarrow> CallRecord" where
  "call_record call r =
     \<lparr>ca_call = call, ca_state = rm_state (ru_machine r), ca_lost = (ru_fenceLost r \<noteq> None),
      ca_pending = length (ob_pending (ru_outbox r)), ca_established = ru_established r,
      ca_acknowledged = length (ru_acknowledged r)\<rparr>"

text \<open>The call itself, made at the port.\<close>

definition make_call :: "PortCall \<Rightarrow> ('w, 'a) port \<Rightarrow> 'w Run \<Rightarrow> 'a race \<times> 'w Run" where
  "make_call call port r =
     (case port (ru_world r) of
        (race, w) \<Rightarrow> (race, r\<lparr>ru_world := w, ru_calls := ru_calls r @ [call_record call r]\<rparr>))"

text \<open>A guarded call: \<^verbatim>\<open>boundary.call\<close> or \<^verbatim>\<open>boundary.commit\<close> by the effect class of the method.\<close>

definition guarded :: "'w Env \<Rightarrow> PortCall \<Rightarrow> ('w, 'a) port \<Rightarrow> ('w, 'a) act" where
  "guarded env call port r =
     (case classified (fst (port_method call)) (snd (port_method call)) of
        Refused_unclassified why \<Rightarrow> (Inl (Thrown why), r)
      | crossing \<Rightarrow>
          (case boundary_enter env r of
             (Some error, r1) \<Rightarrow> (Inl error, r1)
           | (None, r1) \<Rightarrow>
               (case make_call call port r1 of
                  (race, r2) \<Rightarrow>
                    (case await_call env r2 of
                       (aborted, r3) \<Rightarrow> boundary_leave env crossing race aborted r3))))"

text \<open>\<^verbatim>\<open>boundary.expiry()\<close>, as it is stamped on a commit.\<close>

definition winning_expiry :: "'w Env \<Rightarrow> 'w Run \<Rightarrow> WinningExpiry option" where
  "winning_expiry env r =
     (case env_boundary env of
        Run_boundary \<Rightarrow> expiry (ru_deadline r)
      | Settlement_boundary n \<Rightarrow> Some (settlement_expiry (window n r))
      | Recovery_boundary n \<Rightarrow> Some (recovery_expiry (window n r) (ru_deadline r)))"

definition stamped :: "'w Env \<Rightarrow> 'w Run \<Rightarrow> CommitRequest \<Rightarrow> CommitRequest" where
  "stamped env r c = c\<lparr>cq_expires := expiry_stamp (winning_expiry env r)\<rparr>"

definition guarded_commit :: "'w Env \<Rightarrow> CommitRequest \<Rightarrow> ('w, CommitOutcome) act" where
  "guarded_commit env c r =
     (let request = stamped env r c in
      seq (guarded env (Commit_run request) (pt_commit (env_ports env) request)) (\<lambda>out.
        if out = Committed then
          seq (set_run (\<lambda>r. r\<lparr>ru_acknowledged := ru_acknowledged r @ [request]\<rparr>)) (\<lambda>_. give out)
        else give out) r)"

text \<open>The write of an early record: \<^verbatim>\<open>evidence.write\<close> through the guarded port.\<close>

definition guarded_write :: "'w Env \<Rightarrow> string \<Rightarrow> EarlyTerminationRecord \<Rightarrow> ('w, FenceOutcome) act" where
  "guarded_write env record_id early =
     seq (guarded env (Write_record record_id early) (pt_write (env_ports env) (env_fence env) record_id early))
       (\<lambda>out.
         if out = Fence_ok then
           seq (set_run (\<lambda>r. r\<lparr>ru_written := ru_written r @ [(record_id, early)]\<rparr>)) (\<lambda>_. give out)
         else give out)"

end
