(* ===== verification/Terminate.thy ===== *)
theory Terminate
  imports RunScope
begin

text \<open>
  How a run ends: \<^verbatim>\<open>orchestration/terminate.ts\<close>, the terminal owner and the release of
  \<^verbatim>\<open>run/scope.ts\<close>, and the flush of \<^verbatim>\<open>orchestration/run.ts\<close>.
\<close>

section \<open>The terminal owner\<close>

fun kind_of_reason :: "interrupt_reason \<Rightarrow> TransitionKind" where
  "kind_of_reason Cancel = cancel_run"
| "kind_of_reason Timeout = timeout_run"

fun INTERRUPT_TERMINAL :: "interrupt_reason \<Rightarrow> LifecycleState" where
  "INTERRUPT_TERMINAL Cancel = Terminal CANCELLED"
| "INTERRUPT_TERMINAL Timeout = Terminal TIMED_OUT"

fun advanced :: "TransitionResult \<Rightarrow> bool" where
  "advanced (Advanced _ _) = True"
| "advanced (TransitionResult.Rejected _ _) = False"

text \<open>\<^verbatim>\<open>reachTerminal\<close>: the terminal reached, or why none was.\<close>

definition reachTerminal :: "TransitionKind \<Rightarrow> string \<Rightarrow> RunMachine \<Rightarrow> (string + TransitionKind) \<times> RunMachine" where
  "reachTerminal kind why m =
     (let from = rm_state m;
          refused = (\<lambda>m'. template [''the machine granted no terminal from '', state_text (rm_state m'), '': '',
            transition_text kind, '' was refused, and so was indeterminate'']) in
      case advance_machine m kind why of
        (result, m1) \<Rightarrow>
          if advanced result then (Inr kind, m1)
          else if kind = indeterminate_run then (Inl (refused m1), m1)
          else
            (case advance_machine m1 indeterminate_run
                (template [why, ''; and the machine declares no '', transition_text kind, '' from '', state_text from,
                  '', so the terminal state cannot be established'']) of
               (result2, m2) \<Rightarrow>
                 if advanced result2 then (Inr indeterminate_run, m2) else (Inl (refused m2), m2)))"

definition reach_terminal :: "TransitionKind \<Rightarrow> string \<Rightarrow> ('w, string + TransitionKind) act" where
  "reach_terminal kind why =
     act_of (\<lambda>r. case reachTerminal kind why (ru_machine r) of (reached, m) \<Rightarrow> (reached, r\<lparr>ru_machine := m\<rparr>))"

section \<open>The journal\<close>

text \<open>
  \<^verbatim>\<open>#append\<close> through the guarded journal: what it throws is kept beside the run, for the flush
  to pass on or swallow.
\<close>

definition append_through :: "'w Env \<Rightarrow> fault option \<times> 'w Run \<Rightarrow> OutboxEntry \<Rightarrow> port_answer \<times> fault option \<times> 'w Run" where
  "append_through env st entry =
     (case guarded env (Append_entry entry) (pt_append (env_ports env) (env_fence env) entry) (snd st) of
        (Inr out, r) \<Rightarrow> (port_answer.Answered out, None, r)
      | (Inl error, r) \<Rightarrow> (Faulted, Some error, r))"

definition flush_journal :: "'w Env \<Rightarrow> ('w, unit) act" where
  "flush_journal env r =
     (case flushJournal (append_through env) (ru_fenceLost r, ru_machine r, ru_outbox r) (None, r) of
        ((lost, m, b), threw, r1) \<Rightarrow>
          let r2 = r1\<lparr>ru_fenceLost := lost, ru_machine := m, ru_outbox := b\<rparr> in
          (case threw of
             Some error \<Rightarrow> if isRunControlError error then (Inl error, r2) else (Inr (), r2)
           | None \<Rightarrow> (Inr (), r2)))"

text \<open>\<^verbatim>\<open>journalAcquisition\<close>\<close>

definition journal_acquisition :: "'w Env \<Rightarrow> JournaledAcquisition \<Rightarrow> ('w, unit) act" where
  "journal_acquisition env acquisition =
     seq (set_run (\<lambda>r. r\<lparr>ru_outbox := outbox_record (Acquisition_fact acquisition) (ru_outbox r)\<rparr>))
       (\<lambda>_. flush_journal env)"

section \<open>Release\<close>

text \<open>A cleanup call that is started and whose answer nobody reads; a boundary that is over refuses it.\<close>

definition start_call :: "'w Env \<Rightarrow> PortCall \<Rightarrow> ('w, 'a) port \<Rightarrow> 'w Run \<Rightarrow> 'w Run" where
  "start_call env call port r =
     (case boundary_enter env r of
        (Some _, r1) \<Rightarrow> r1
      | (None, r1) \<Rightarrow> snd (make_call call port r1))"

definition release_resources :: "'w Env \<Rightarrow> 'w Run \<Rightarrow> 'w Run" where
  "release_resources env r =
     (let workspaceRef =
            (case ru_workspace r of Some h \<Rightarrow> Some (wh_workspace_ref h) | None \<Rightarrow> ru_workspaceAttempt r);
          sessionRef = (case ru_session r of Some h \<Rightarrow> Some (sh_session_ref h) | None \<Rightarrow> ru_sessionAttempt r);
          r1 = r\<lparr>ru_workspace := None, ru_session := None, ru_workspaceAttempt := None,
                 ru_sessionAttempt := None\<rparr> in
      if ru_fenceLost r1 \<noteq> None then r1
      else
        let r2 =
              (case workspaceRef of
                 None \<Rightarrow> r1
               | Some ref \<Rightarrow>
                   start_call env (Discard_workspace ref) (pt_discard (env_ports env) (env_fence env) ref) r1);
            r3 =
              (case sessionRef of
                 None \<Rightarrow> r2
               | Some ref \<Rightarrow>
                   start_call env (Close_session ref) (pt_close (env_ports env) (env_fence env) ref) r2) in
        if workspaceRef = None \<and> sessionRef = None then r3 else snd (await_call env r3))"

definition disarm_run :: "'w Run \<Rightarrow> 'w Run" where
  "disarm_run r = r\<lparr>ru_deadline := disarm (ru_deadline r)\<rparr>"

section \<open>Conclusions\<close>

definition run_conclusion :: "'w Env \<Rightarrow> ConclusionKind \<Rightarrow> Produced \<Rightarrow> string \<Rightarrow> 'w Run \<Rightarrow> RunConclusion" where
  "run_conclusion env kind produced detail r =
     \<lparr>cn_run_id = rq_run_id (env_request env), cn_kind = kind, cn_state = rm_state (ru_machine r),
      cn_produced = produced, cn_detail = detail, cn_transitions = rm_transitions (ru_machine r),
      cn_rejections = rm_rejections (ru_machine r)\<rparr>"

text \<open>The part of \<^verbatim>\<open>conclude\<close> after the journal and the release.\<close>

definition conclusion_of :: "'w Env \<Rightarrow> Produced \<Rightarrow> string \<Rightarrow> 'w Run \<Rightarrow> RunConclusion" where
  "conclusion_of env produced detail r =
     (let state = rm_state (ru_machine r);
          missing = template [detail, ''; a required durable journal fact is still pending; the conclusion cannot claim a durable record it does not have''] in
      case ru_fenceLost r of
        Some lost \<Rightarrow>
          run_conclusion env Ownership_lost No_record
            (template [lost, ''; no further write was made (this attempt had reached: '', detail, '')'']) r
      | None \<Rightarrow>
          if \<not> outbox_isEmpty (ru_outbox r) then
            (if isTerminal state then run_conclusion env (Settlement_failed state) No_record missing r
             else run_conclusion env Unterminated No_record missing r)
          else if isTerminal state then
            (if produced = No_record then
               run_conclusion env (Settlement_failed state) No_record
                 (template [detail, ''; the lifecycle terminal has no governed durable record'']) r
             else run_conclusion env Concluded_terminal produced detail r)
          else
            run_conclusion env
              (case ru_held r of Some d \<Rightarrow> (if d \<noteq> [] then Concluded_held else Unterminated) | None \<Rightarrow> Unterminated)
              No_record detail r)"

definition conclude :: "'w Env \<Rightarrow> Produced \<Rightarrow> string \<Rightarrow> ('w, RunConclusion) act" where
  "conclude env produced detail =
     seq (set_run disarm_run) (\<lambda>_.
     seq (open_window env) (\<lambda>n.
       let settling = env\<lparr>env_boundary := Settlement_boundary n\<rparr> in
       seq (flush_journal settling) (\<lambda>_.
       seq (flush_journal settling) (\<lambda>_.
       seq (set_run (release_resources settling)) (\<lambda>_.
       look (conclusion_of env produced detail) give)))))"

section \<open>Before authority\<close>

text \<open>\<^verbatim>\<open>safeNow\<close>\<close>

definition safe_now :: "'w Env \<Rightarrow> ('w, string) act" where
  "safe_now env =
     act_of (\<lambda>r. case pt_now (env_ports env) (ru_world r) of
       (Inl _, w) \<Rightarrow> (UNESTABLISHED_INSTANT, r\<lparr>ru_world := w\<rparr>)
     | (Inr instant, w) \<Rightarrow> (instant, r\<lparr>ru_world := w\<rparr>))"

definition early_record_id :: "'w Env \<Rightarrow> string" where
  "early_record_id env =
     template [rq_run_id (env_request env), ''#g'', string_of_int (fn_generation (env_fence env)),
       ''#early_termination_record'']"

text \<open>The record of this attempt: built once, then the same.\<close>

definition early_record :: "'w Env \<Rightarrow> string \<Rightarrow> ('w, string + EarlyTerminationRecord) act" where
  "early_record env detail =
     look ru_earlyRecord (\<lambda>existing.
       case existing of
         Some record \<Rightarrow> give (Inr record)
       | None \<Rightarrow>
           seq (safe_now env) (\<lambda>finished. look id (\<lambda>r.
             case buildEarlyTerminationRecord (pf_datetime (lb_platform (env_library env)))
                 (lb_early_issues (env_library env)) (lb_date_ms (env_library env))
                 \<lparr>eti_run_id = rq_run_id (env_request env), eti_requester = rq_requester (env_request env),
                  eti_requested_profile = rq_profile_ref (env_request env),
                  eti_state = rm_state (ru_machine r), eti_detail = detail,
                  eti_started_at = env_startedAt env, eti_finished_at = finished\<rparr> of
               Record_failed why \<Rightarrow> give (Inl why)
             | Record_ok record \<Rightarrow>
                 seq (set_run (\<lambda>r. r\<lparr>ru_earlyRecord := Some record\<rparr>)) (\<lambda>_. give (Inr record)))))"

definition writeEarlyTerminalRecord :: "'w Env \<Rightarrow> string \<Rightarrow> ('w, RunConclusion) act" where
  "writeEarlyTerminalRecord env detail =
     look ru_fenceLost (\<lambda>lost.
       if lost \<noteq> None then conclude env No_record detail
       else
         seq (early_record env detail) (\<lambda>built.
           case built of
             Inl why \<Rightarrow> conclude env No_record why
           | Inr record \<Rightarrow>
               seq (guarded_write env (early_record_id env) record) (\<lambda>written.
                 case written of
                   Fence_refused Conflicting_replay why \<Rightarrow> conclude env No_record why
                 | Fence_refused Stale_fence why \<Rightarrow>
                     seq (set_run (loseFence why)) (\<lambda>_. conclude env No_record detail)
                 | Fence_ok \<Rightarrow>
                     seq (set_run (\<lambda>r. r\<lparr>ru_recorded := Early_record\<rparr>)) (\<lambda>_.
                       conclude env Early_record detail))))"

definition terminateEarly :: "'w Env \<Rightarrow> TransitionKind \<Rightarrow> string \<Rightarrow> ('w, RunConclusion) act" where
  "terminateEarly env kind detail =
     look ru_fenceLost (\<lambda>lost.
       if lost \<noteq> None then conclude env No_record detail
       else
         seq (reach_terminal kind detail) (\<lambda>reached.
           case reached of
             Inl why \<Rightarrow> conclude env No_record (template [why, '': '', detail])
           | Inr _ \<Rightarrow> writeEarlyTerminalRecord env detail))"

section \<open>Emission\<close>

text \<open>
  The emission loop of the emitter, at most \<open>n\<close> rounds: \<open>None\<close> when they were not enough.
\<close>

fun emit_within ::
  "nat \<Rightarrow> 'w EventPorts \<Rightarrow> EventBody \<Rightarrow> Emitter \<times> 'w \<Rightarrow> (fault + EmitOutcome) option \<times> Emitter \<times> 'w" where
  "emit_within 0 ports body st = (None, st)"
| "emit_within (Suc n) ports body st =
     (case emit_round ports body st of
        (Some answer, st1) \<Rightarrow> (Some answer, st1)
      | (None, st1) \<Rightarrow> emit_within n ports body st1)"

lemma emit_within_event:
  "emit_within n ports body st = (Some answer, st') \<Longrightarrow> emit_event ports body st = Some (answer, st')"
  by (induction n arbitrary: st) (subst emit_event.simps, auto split: prod.splits option.splits)+

lemma emit_event_within:
  assumes "emit_event ports body st = Some (answer, st')"
  shows "\<exists>n. emit_within n ports body st = (Some answer, st')"
  using assms
proof (rule emit_event_induct)
  fix st :: "Emitter \<times> 'a" and answer st'
  assume "emit_round ports body st = (Some answer, st')"
  then show "\<exists>n. emit_within n ports body st = (Some answer, st')" by (auto intro: exI[of _ "Suc 0"])
next
  fix st st1 :: "Emitter \<times> 'a" and answer st'
  assume "emit_round ports body st = (None, st1)" "\<exists>n. emit_within n ports body st1 = (Some answer, st')"
  then show "\<exists>n. emit_within n ports body st = (Some answer, st')" by (auto intro: exI[of _ "Suc _"])
qed

text \<open>
  The emitter is made of the guarded ports of the run's own boundary, whatever boundary the
  environment has later.
\<close>

definition event_ports :: "'w Env \<Rightarrow> 'w Run EventPorts" where
  "event_ports env =
     \<lparr>ep_datetime = pf_datetime (lb_platform (env_library env)), ep_issues = lb_event_issues (env_library env),
      ep_now = (\<lambda>r. case pt_now (env_ports env) (ru_world r) of (answer, w) \<Rightarrow> (answer, r\<lparr>ru_world := w\<rparr>)),
      ep_emit = (\<lambda>fence sequence event.
        guarded (env\<lparr>env_boundary := Run_boundary\<rparr>) (Emit_event sequence event)
          (pt_emit (env_ports env) fence sequence event))\<rparr>"

text \<open>When the rounds are not enough the boundary of the run has ended the emission.\<close>

definition emission :: "'w Env \<Rightarrow> EventBody \<Rightarrow> ('w, EmitOutcome) act" where
  "emission env body r =
     (case emit_within (lb_patience (env_library env)) (event_ports env) body (ru_emitter r, r) of
        (None, em, r1) \<Rightarrow> (Inl (Run_interrupted Timeout), r1\<lparr>ru_emitter := em\<rparr>)
      | (Some answer, em, r1) \<Rightarrow> (answer, r1\<lparr>ru_emitter := em\<rparr>))"

definition close_ledger :: "'w Run \<Rightarrow> 'w Run" where
  "close_ledger r = r\<lparr>ru_ledger := close_write (ru_ledger r)\<rparr>"

definition emit_run :: "'w Env \<Rightarrow> EventBody \<Rightarrow> ('w, EmitOutcome) act" where
  "emit_run env body =
     seq (set_run (\<lambda>r. r\<lparr>ru_ledger := open_write Event_write (event_type body) (ru_ledger r)\<rparr>)) (\<lambda>_.
       recover
         (seq (emission env body) (\<lambda>out.
            seq (set_run (\<lambda>r.
                 case out of
                   Emit_failed Emit_stale_fence detail \<Rightarrow> close_ledger (loseFence detail r)
                 | _ \<Rightarrow> close_ledger r)) (\<lambda>_. give out)))
         (\<lambda>error. seq (set_run close_ledger) (\<lambda>_. throw error)))"

section \<open>With authority\<close>

definition evidence_snapshots :: "EpochSnapshots \<Rightarrow> EvidenceSnapshots" where
  "evidence_snapshots s =
     \<lparr>en_profile = map_option Captured_ok (eps_profile s),
      en_path_policy = map_option Captured_ok (eps_path_policy s),
      en_gate_registry = map_option Captured_ok (eps_gate_registry s)\<rparr>"

text \<open>\<^verbatim>\<open>request.claimed_changes ?? []\<close>\<close>

definition claims_of :: "RunRequest \<Rightarrow> claims_raw" where
  "claims_of request = (case rq_claimed_changes request of No_claims \<Rightarrow> Claims_array [] | claims \<Rightarrow> claims)"

definition assemble_run ::
  "'w Env \<Rightarrow> Authority \<Rightarrow> Observations \<Rightarrow> LifecycleState \<Rightarrow> string \<Rightarrow> string \<Rightarrow> AssemblyResult js" where
  "assemble_run env authority observations terminal detail finished =
     (let lib = env_library env; v = lb_platform lib in
      assembleEvidence (pf_sha256 v) (pf_datetime v) (pf_report v) (lb_date_ms lib)
        \<lparr>eai_snapshots = evidence_snapshots (au_snapshots authority), eai_run_id = rq_run_id (env_request env),
         eai_principal = au_principal authority, eai_adapter = au_adapter authority, eai_terminal = terminal,
         eai_detail = detail, eai_gate_results = obs_gate_results observations,
         eai_operations = obs_operations observations, eai_observed = obs_observed observations,
         eai_artifacts = obs_artifacts observations,
         eai_reconciliation =
           reconcileClaims (Some (obs_observed observations)) (claims_of (env_request env)),
         eai_started_at = env_startedAt env, eai_finished_at = finished\<rparr>)"

definition failClosed :: "'w Env \<Rightarrow> TransitionKind \<Rightarrow> string \<Rightarrow> ('w, RunConclusion) act" where
  "failClosed env kind why =
     seq (reach_terminal kind why) (\<lambda>reached.
       conclude env No_record (case reached of Inr _ \<Rightarrow> why | Inl detail \<Rightarrow> template [why, ''; '', detail]))"

definition terminal_sequence :: "TransitionKind \<Rightarrow> string \<Rightarrow> (TransitionKind \<times> string) list" where
  "terminal_sequence kind detail =
     (if kind = complete_run then [(seal_evidence, ''evidence sealed''), (complete_run, detail)]
      else [(kind, detail)])"

definition project_run :: "(TransitionKind \<times> string) list \<Rightarrow>
    ('w, (TransitionKind \<times> LifecycleState) + CommitCapability) act" where
  "project_run steps =
     act_of (\<lambda>r. case project (ru_machine r) (ru_minted r) steps of
       (projected, m) \<Rightarrow> (projected, r\<lparr>ru_machine := m, ru_minted := ru_minted r + 1\<rparr>))"

definition envelope_run :: "'w Env \<Rightarrow> EventBody \<Rightarrow> ('w, RunEvent) act" where
  "envelope_run env body = act_of (\<lambda>r. envelope (event_ports env) body (ru_emitter r, r))"

definition commit_identity :: "'w Env \<Rightarrow> LifecycleState \<Rightarrow> string" where
  "commit_identity env terminal =
     template [rq_run_id (env_request env), ''#g'', string_of_int (fn_generation (env_fence env)), ''#'',
       state_text terminal]"

text \<open>\<^verbatim>\<open>adoptCommitted\<close>; what \<^verbatim>\<open>commitProjected\<close> throws is an ordinary error.\<close>

definition adopt_committed :: "CommitCapability \<Rightarrow> ('w, unit) act" where
  "adopt_committed capability r =
     (case commitProjected (ru_machine r) capability of
        (None, m) \<Rightarrow> (Inr (), r\<lparr>ru_machine := m\<rparr>)
      | (Some message, m) \<Rightarrow> (Inl (Thrown message), r\<lparr>ru_machine := m\<rparr>))"

text \<open>What \<^verbatim>\<open>finish\<close> does with the answer to the commit.\<close>

definition settle_commit ::
  "'w Env \<Rightarrow> TransitionKind \<Rightarrow> string \<Rightarrow> CommitCapability \<Rightarrow> CommitOutcome \<Rightarrow> ('w, RunConclusion) act" where
  "settle_commit env kind detail capability out =
     (case out of
        Not_committed reason why \<Rightarrow>
          if reason = Some Commit_stale_fence then
            seq (set_run (loseFence why)) (\<lambda>_. conclude env No_record why)
          else if reason = Some Commit_attempt_expired \<or> reason = Some Already_committed then
            seq (reach_terminal kind why) (\<lambda>reached.
              conclude env No_record (case reached of Inr _ \<Rightarrow> why | Inl d \<Rightarrow> template [why, ''; '', d]))
          else failClosed env (if reason = Some Commit_expired then timeout_run else operational_fault) why
      | Committed \<Rightarrow>
          seq (set_run (\<lambda>r. r\<lparr>ru_ledger := markSealed (ru_ledger r)\<rparr>)) (\<lambda>_.
          seq (adopt_committed capability) (\<lambda>_.
          seq (set_run (\<lambda>r. r\<lparr>ru_recorded := Bundle_record\<rparr>)) (\<lambda>_.
          conclude env Bundle_record detail))))"

text \<open>From the projection to the answer.\<close>

definition commit_terminal ::
  "'w Env \<Rightarrow> TransitionKind \<Rightarrow> string \<Rightarrow> LifecycleState \<Rightarrow> EvidenceBundle \<Rightarrow> RunOutcome \<Rightarrow> CommitCapability \<Rightarrow>
   ('w, RunConclusion) act" where
  "commit_terminal env kind detail terminal bundle run_outcome capability =
     (let v = lb_platform (env_library env) in
      seq (flush_journal env) (\<lambda>_. look (outbox_isEmpty \<circ> ru_outbox) (\<lambda>empty.
        if \<not> empty then
          failClosed env operational_fault
            ''the run walk could not be made durable; an entry is missing from the journal and the seal would describe an incomplete record''
        else
          look ru_ledger (\<lambda>ledger.
            case prepareSeal (pf_datetime v) (pf_report v) (Bundle bundle) (Some run_outcome) ledger of
              Seal_refused refused why \<Rightarrow>
                failClosed env operational_fault
                  (template [case refused of Outstanding_writes \<Rightarrow> ''outstanding_writes''
                       | Not_eligible \<Rightarrow> ''not_eligible'' | Already_sealed \<Rightarrow> ''already_sealed'', '': '', why])
            | Seal_prepared sealed \<Rightarrow>
                seq (envelope_run env (Run_terminated run_outcome)) (\<lambda>event.
                seq (guarded_commit env
                      \<lparr>cq_fence = env_fence env, cq_commit_id = commit_identity env terminal,
                       cq_terminal = terminal, cq_transitions = cc_entries capability, cq_event = event,
                       cq_bundle = sealed, cq_expires = None\<rparr>)
                  (settle_commit env kind detail capability))))))"

definition finish ::
  "'w Env \<Rightarrow> Authority \<Rightarrow> Observations \<Rightarrow> TransitionKind \<Rightarrow> string \<Rightarrow> LifecycleState \<Rightarrow> ('w, RunConclusion) act" where
  "finish env authority observations kind detail terminal =
     look ru_fenceLost (\<lambda>lost.
       if lost \<noteq> None then conclude env No_record detail
       else
         seq (safe_now env) (\<lambda>finished.
           case assemble_run env authority observations terminal detail finished of
             Threw \<Rightarrow> throw (Thrown (lb_type_error (env_library env)))
           | Returned (Assembly_failed failure why) \<Rightarrow>
               failClosed env (case failure of Assembly_refusal \<Rightarrow> refuse_run | Assembly_operational \<Rightarrow> operational_fault) why
           | Returned (Assembled bundle run_outcome) \<Rightarrow>
               seq (project_run (terminal_sequence kind detail)) (\<lambda>projected.
                 case projected of
                   Inl (k, from) \<Rightarrow>
                     failClosed env operational_fault
                       (template [''the machine declares no '', transition_text k, '' transition from '',
                          state_text from, ''; nothing is committed''])
                 | Inr capability \<Rightarrow>
                     commit_terminal env kind detail terminal bundle run_outcome capability)))"

text \<open>\<^verbatim>\<open>abortRun\<close>: the answer of the interrupt is not read, and what it throws is swallowed.\<close>

definition interrupt_session :: "'w Env \<Rightarrow> interrupt_reason \<Rightarrow> ('w, unit) act" where
  "interrupt_session env reason =
     look ru_session (\<lambda>session.
       case session of
         None \<Rightarrow> give ()
       | Some handle \<Rightarrow>
           recover
             (seq (guarded env (Interrupt_session (sh_session_ref handle) reason)
                    (pt_interrupt (env_ports env) (env_fence env) (sh_session_ref handle) reason)) (\<lambda>_. give ()))
             (\<lambda>_. give ()))"

definition abortRun :: "'w Env \<Rightarrow> Authority \<Rightarrow> Observations \<Rightarrow> interrupt_reason \<Rightarrow> ('w, RunConclusion) act" where
  "abortRun env authority observations reason =
     seq (interrupt_session env reason) (\<lambda>_.
       finish env authority observations (kind_of_reason reason)
         (template [''the run was '', interrupt_text reason, '' while work was in flight''])
         (INTERRUPT_TERMINAL reason))"

end
