(* ===== verification/Phases.thy ===== *)
theory Phases
  imports Terminate
begin

text \<open>
  The six phases of a run, \<^verbatim>\<open>orchestration/phases\<close>, with the recording of calls
  (\<^verbatim>\<open>orchestration/calls.ts\<close>) and the materialization (\<^verbatim>\<open>orchestration/materialize.ts\<close>).

  A phase answers as the walk reads it: earned, with what it established kept in the scope, a
  conclusion that ends the run, or a hold.
\<close>

section \<open>Words\<close>

definition describeRefusal :: "Refusal \<Rightarrow> string" where
  "describeRefusal r =
     template [refusal_code_text (rf_code r), '' on '',
       case rf_violated r of Some v \<Rightarrow> v_element v | None \<Rightarrow> [], '': '', rf_detail r]"

definition emissionFailure :: "emit_failure \<Rightarrow> string \<Rightarrow> string" where
  "emissionFailure reason detail =
     template [''run event could not be emitted ('', emit_failure_text reason, ''): '', detail]"

fun signal_text :: "interrupt_reason \<Rightarrow> string" where
  "signal_text Cancel = ''cancel''"
| "signal_text Timeout = ''timeout''"

type_synonym phase_answer = "RunConclusion PhaseCommand"

definition stop_run :: "('w, RunConclusion) act \<Rightarrow> ('w, phase_answer) act" where
  "stop_run f = seq f (\<lambda>c. give (Terminate c))"

text \<open>A refusal without its element makes the code read a member of \<^verbatim>\<open>undefined\<close>.\<close>

definition finish_refused ::
  "'w Env \<Rightarrow> Authority \<Rightarrow> Observations \<Rightarrow> Refusal \<Rightarrow> ('w, phase_answer) act" where
  "finish_refused env authority seen r =
     (if rf_violated r = None then throw (Thrown (lb_type_error (env_library env)))
      else stop_run (finish env authority seen refuse_run (describeRefusal r) (Terminal REFUSED)))"

definition finish_fault :: "'w Env \<Rightarrow> Authority \<Rightarrow> Observations \<Rightarrow> string \<Rightarrow> ('w, phase_answer) act" where
  "finish_fault env authority seen detail =
     stop_run (finish env authority seen operational_fault detail (Terminal OPERATIONAL_FAILURE))"

text \<open>A resource refused the fence: the loss is recorded and the run concludes.\<close>

definition lose_and_conclude :: "'w Env \<Rightarrow> string \<Rightarrow> ('w, phase_answer) act" where
  "lose_and_conclude env detail =
     seq (set_run (loseFence detail)) (\<lambda>_. stop_run (conclude env No_record detail))"

section \<open>Epochs\<close>

definition SOURCES :: "AuthoritySourceName list" where
  "SOURCES = [Profile_source, Path_policy_source, Gate_registry_source]"

text \<open>The host of an epoch: the guarded source, the journal and the lost fence of the run.\<close>

definition epoch_host :: "'w Env \<Rightarrow> AcquisitionEpoch \<Rightarrow> (fault option \<times> 'w Run) EpochHost" where
  "epoch_host env epoch =
     \<lparr>eh_read = (\<lambda>source st.
        case guarded env (Read_authority epoch source)
            (pt_read (env_ports env) (rq_run_id (env_request env)) epoch source) (snd st) of
          (Inr (Source_bytes from_source bytes), r) \<Rightarrow> (Read_ok from_source bytes, None, r)
        | (Inr (Source_failed from_source failure), r) \<Rightarrow> (Read_failed from_source failure, None, r)
        | (Inl error, r) \<Rightarrow>
            if isRunControlError error then (Read_interrupted, Some error, r)
            else (Read_threw (describe_fault error), None, r)),
      eh_journal = (\<lambda>entry st.
        case journal_acquisition env entry (snd st) of
          (Inr _, r) \<Rightarrow> (True, None, r)
        | (Inl error, r) \<Rightarrow> (False, Some error, r)),
      eh_stop = (\<lambda>st. ru_fenceLost (snd st))\<rparr>"

definition run_epoch :: "'w Env \<Rightarrow> AcquisitionEpoch \<Rightarrow> ('w, EpochResult) act" where
  "run_epoch env epoch r =
     (case runEpoch (lb_platform (env_library env)) (epoch_host env epoch) SOURCES
         (new_set epoch (map source_text SOURCES), None, r) of
        (result, _, threw, r1) \<Rightarrow>
          (case threw of
             Some error \<Rightarrow> (case result of Epoch_threw \<Rightarrow> (Inl error, r1) | _ \<Rightarrow> (Inr result, r1))
           | None \<Rightarrow> (Inr result, r1)))"

section \<open>Requested\<close>

fun is_capture_refusal :: "EpochFailure \<Rightarrow> bool" where
  "is_capture_refusal (Capture_refused _ _) = True"
| "is_capture_refusal _ = False"

definition establish :: "Authority \<Rightarrow> 'w Env \<Rightarrow> 'w Run \<Rightarrow> 'w Run" where
  "establish authority env r =
     r\<lparr>ru_established := At_authorized authority,
       ru_emitter := new_emitter (rq_run_id (env_request env)) (au_adapter authority)
         (fn_generation (env_fence env))\<rparr>"

text \<open>From the captured snapshots to the authority of the run.\<close>

definition authorize ::
  "'w Env \<Rightarrow> ProfileRef \<Rightarrow> EpochSnapshots \<Rightarrow> ExecutionProfile Captured \<Rightarrow> ('w, phase_answer) act" where
  "authorize env asked snapshots resolved =
     (let profile = cd_body (cp_value resolved); request = env_request env;
          named = (\<lambda>ref. template [prf_name ref, ''@'', prf_version ref]) in
      seq (set_run (\<lambda>r. r\<lparr>ru_authorityCaptured := True\<rparr>)) (\<lambda>_.
        if prf_name (ep_identity profile) \<noteq> prf_name asked \<or> prf_version (ep_identity profile) \<noteq> prf_version asked then
          stop_run (terminateEarly env refuse_run
            (template [''the acquired profile is '', named (ep_identity profile), '' but the request named '',
               named asked, ''; a run never executes under a profile it did not request'']))
        else
          (case executionPrincipal (ep_principal_sub profile) (ep_actor_required profile) (rq_requester request) of
             Inl why \<Rightarrow> stop_run (terminateEarly env refuse_run why)
           | Inr executing \<Rightarrow>
               seq (set_run (establish
                      \<lparr>au_snapshots = snapshots, au_profile = resolved, au_principal = executing,
                       au_adapter = ep_adapter profile\<rparr> env)) (\<lambda>_.
                 give (Earned (template [''profile '', named (ep_identity profile), '' resolved'']))))))"

definition requested :: "'w Env \<Rightarrow> ('w, phase_answer) act" where
  "requested env =
     seq (run_interrupted env) (\<lambda>signal.
       case signal of
         Some reason \<Rightarrow>
           stop_run (terminateEarly env (kind_of_reason reason)
             (template [''run '', signal_text reason, ''led before authority was acquired'']))
       | None \<Rightarrow>
           (case rq_profile_ref (env_request env) of
              None \<Rightarrow> stop_run (terminateEarly env refuse_run ''the run request names no execution profile'')
            | Some asked \<Rightarrow>
                seq (run_epoch env Production) (\<lambda>acquired.
                  case acquired of
                    Epoch_failed failure \<Rightarrow>
                      stop_run (terminateEarly env
                        (if is_capture_refusal failure then refuse_run else operational_fault)
                        (describeEpochFailure failure))
                  | Epoch_threw \<Rightarrow> throw (Thrown (lb_type_error (env_library env)))
                  | Epoch_ok snapshots vals \<Rightarrow>
                      (case eps_profile snapshots of
                         None \<Rightarrow> stop_run (terminateEarly env refuse_run ''the execution profile did not resolve'')
                       | Some resolved \<Rightarrow> authorize env asked snapshots resolved))))"

section \<open>Profile resolved\<close>

definition authority_snapshots :: "EpochSnapshots \<Rightarrow> AuthoritySnapshots" where
  "authority_snapshots s =
     \<lparr>as_profile = (case eps_profile s of None \<Rightarrow> Undefined | Some c \<Rightarrow> as_supplied (Captured_ok c)),
      as_path_policy = (case eps_path_policy s of None \<Rightarrow> Undefined | Some c \<Rightarrow> as_supplied (Captured_ok c)),
      as_gate_registry = (case eps_gate_registry s of None \<Rightarrow> Undefined | Some c \<Rightarrow> as_supplied (Captured_ok c))\<rparr>"

definition granted_seconds :: "Authority \<Rightarrow> js_number" where
  "granted_seconds authority = li_wall_clock_seconds (ep_limits (cd_body (cp_value (au_profile authority))))"

definition arm_profile :: "'w Env \<Rightarrow> Authority \<Rightarrow> js_number option \<Rightarrow> ('w, unit) act" where
  "arm_profile env authority cancelAfter =
     act_of (\<lambda>r. case tick env r of
       (time, r1) \<Rightarrow>
         ((), r1\<lparr>ru_deadline :=
            armProfile
              (boundedDeadlineMs (granted_seconds authority) (granted_seconds authority) (env_deadline_ms env))
              cancelAfter time (ru_deadline r1)\<rparr>))"

definition profileResolved :: "'w Env \<Rightarrow> Authority \<Rightarrow> ('w, phase_answer) act" where
  "profileResolved env authority =
     seq (arm_profile env authority None) (\<lambda>_.
     seq (run_interrupted env) (\<lambda>signal.
       case signal of
         Some reason \<Rightarrow>
           stop_run (finish env authority noObservations (kind_of_reason reason)
             (template [''run '', signal_text reason, ''led before eligibility'']) (INTERRUPT_TERMINAL reason))
       | None \<Rightarrow>
           (case decideEligibility (authority_snapshots (au_snapshots authority)) (rq_gates (env_request env)) of
              Threw \<Rightarrow> throw (Thrown (lb_type_error (env_library env)))
            | Returned (Refused r) \<Rightarrow> finish_refused env authority noObservations r
            | Returned (Proceed _) \<Rightarrow> give (Earned ''the core decided the run eligible''))))"

section \<open>Eligible\<close>

definition profile_identity :: "Authority \<Rightarrow> ProfileIdentity" where
  "profile_identity authority =
     (let c = au_profile authority; ref = ep_identity (cd_body (cp_value c)) in
      \<lparr>pi_name = prf_name ref, pi_version = prf_version ref, pi_digest = cp_digest c\<rparr>)"

definition attempt_ref :: "string \<Rightarrow> 'w Env \<Rightarrow> string" where
  "attempt_ref what env =
     template [what, '':'', rq_run_id (env_request env), ''#g'', string_of_int (fn_generation (env_fence env))]"

definition refused_grant ::
  "'w Env \<Rightarrow> Authority \<Rightarrow> bool \<Rightarrow> string \<Rightarrow> string \<Rightarrow> ('w, phase_answer) act" where
  "refused_grant env authority stale detail why =
     (if stale then lose_and_conclude env detail
      else finish_fault env authority noObservations (template [why, detail]))"

definition provision_workspace ::
  "'w Env \<Rightarrow> Authority \<Rightarrow> (unit \<Rightarrow> ('w, phase_answer) act) \<Rightarrow> ('w, phase_answer) act" where
  "provision_workspace env authority next =
     (let ref = attempt_ref ''workspace'' env; root = rq_workspace_root (env_request env) in
      seq (set_run (\<lambda>r. r\<lparr>ru_workspaceAttempt := Some ref\<rparr>)) (\<lambda>_.
      seq (guarded env (Provision_workspace ref root) (pt_provision (env_ports env) (env_fence env) ref root))
        (\<lambda>provisioned.
          case provisioned of
            Not_granted stale detail \<Rightarrow>
              seq (set_run (\<lambda>r. r\<lparr>ru_workspaceAttempt := None\<rparr>)) (\<lambda>_.
                refused_grant env authority stale detail ''the isolated workspace could not be provisioned: '')
          | Granted handle \<Rightarrow>
              seq (set_run (\<lambda>r. r\<lparr>ru_workspace := Some handle, ru_workspaceAttempt := None\<rparr>)) next)))"

definition prepare_session ::
  "'w Env \<Rightarrow> Authority \<Rightarrow> (SessionHandle \<Rightarrow> ('w, phase_answer) act) \<Rightarrow> ('w, phase_answer) act" where
  "prepare_session env authority next =
     (let ref = attempt_ref ''session'' env;
          request = \<lparr>sp_fence = env_fence env, sp_session_ref = ref, sp_profile = profile_identity authority,
            sp_limits = ep_limits (cd_body (cp_value (au_profile authority)))\<rparr> in
      seq (set_run (\<lambda>r. r\<lparr>ru_sessionAttempt := Some ref\<rparr>)) (\<lambda>_.
      seq (guarded env (Prepare_session request) (pt_prepare (env_ports env) request))
        (\<lambda>prepared.
          case prepared of
            Not_granted stale detail \<Rightarrow>
              seq (set_run (\<lambda>r. r\<lparr>ru_sessionAttempt := None\<rparr>)) (\<lambda>_.
                refused_grant env authority stale detail ''the execution session could not be prepared: '')
          | Granted handle \<Rightarrow>
              seq (set_run (\<lambda>r. r\<lparr>ru_session := Some handle, ru_sessionAttempt := None\<rparr>)) (\<lambda>_. next handle))))"

definition start_session ::
  "'w Env \<Rightarrow> Authority \<Rightarrow> SessionHandle \<Rightarrow> (unit \<Rightarrow> ('w, phase_answer) act) \<Rightarrow> ('w, phase_answer) act" where
  "start_session env authority handle next =
     seq (guarded env (Start_session (sh_session_ref handle))
           (pt_start (env_ports env) (env_fence env) (sh_session_ref handle)))
       (\<lambda>started.
         case started of
           Not_granted stale detail \<Rightarrow>
             refused_grant env authority stale detail ''the execution session could not be started: ''
         | Granted _ \<Rightarrow> next ())"

definition narrow_profile :: "'w Env \<Rightarrow> Authority \<Rightarrow> SessionHandle \<Rightarrow> ('w, unit) act" where
  "narrow_profile env authority handle =
     act_of (\<lambda>r. case tick env r of
       (time, r1) \<Rightarrow>
         ((), r1\<lparr>ru_deadline :=
            narrowProfile
              (boundedDeadlineMs (granted_seconds authority) (sh_wall_clock_seconds handle) (env_deadline_ms env))
              time (ru_deadline r1)\<rparr>))"

definition eligible :: "'w Env \<Rightarrow> Authority \<Rightarrow> ('w, phase_answer) act" where
  "eligible env authority =
     seq (run_interrupted env) (\<lambda>signal.
       case signal of
         Some reason \<Rightarrow>
           stop_run (finish env authority noObservations (kind_of_reason reason)
             (template [''run '', signal_text reason, ''led before spend'']) (INTERRUPT_TERMINAL reason))
       | None \<Rightarrow>
           (case decideSpendGate (rq_run_id (env_request env)) (rq_consent (env_request env)) of
              Spend_held _ detail \<Rightarrow>
                seq (set_run (\<lambda>r. r\<lparr>ru_held := Some detail\<rparr>)) (\<lambda>_. give (Hold detail))
            | Spend_ok \<Rightarrow>
                provision_workspace env authority (\<lambda>_.
                seq (arm_profile env authority (env_cancelAfterMs env)) (\<lambda>_.
                prepare_session env authority (\<lambda>handle.
                start_session env authority handle (\<lambda>_.
                seq (narrow_profile env authority handle) (\<lambda>_.
                  give (Earned (template [''session '', sh_session_ref handle, '' started; consent recorded by '',
                    case rq_consent (env_request env) of Some c \<Rightarrow> co_by c | None \<Rightarrow> ''unknown''])))))))))"

section \<open>Sandbox started\<close>

text \<open>One emission a phase depends on.\<close>

definition emit_or_fault ::
  "'w Env \<Rightarrow> Authority \<Rightarrow> Observations \<Rightarrow> EventBody \<Rightarrow> (unit \<Rightarrow> ('w, phase_answer) act) \<Rightarrow> ('w, phase_answer) act" where
  "emit_or_fault env authority seen body next =
     seq (emit_run env body) (\<lambda>out.
       case out of
         Event_emitted _ \<Rightarrow> next ()
       | Emit_failed reason detail \<Rightarrow> finish_fault env authority seen (emissionFailure reason detail))"

definition sandboxStarted :: "'w Env \<Rightarrow> Authority \<Rightarrow> ('w, phase_answer) act" where
  "sandboxStarted env authority =
     emit_or_fault env authority noObservations (Run_started (profile_identity authority)) (\<lambda>_.
     emit_or_fault env authority noObservations
       (Capability_granted (ep_capability (cd_body (cp_value (au_profile authority))))) (\<lambda>_.
     seq (run_interrupted env) (\<lambda>signal.
       case signal of
         Some reason \<Rightarrow> stop_run (abortRun env authority noObservations reason)
       | None \<Rightarrow>
           seq (guarded env (Observe_base (rq_workspace_root (env_request env)))
                 (pt_base (env_ports env) (rq_run_id (env_request env)) (rq_workspace_root (env_request env))))
             (\<lambda>base.
               case base of
                 Base_failed failure \<Rightarrow>
                   finish_fault env authority noObservations
                     (template [''the workspace base identity could not be observed: '', failure])
               | Base_digest digest \<Rightarrow>
                   (case compareBaseIdentity (Some (rq_pinned_base (env_request env))) digest of
                      Refused r \<Rightarrow> finish_refused env authority noObservations r
                    | Proceed _ \<Rightarrow> give (Earned ''the workspace base matches; execution may begin''))))))"

section \<open>Running\<close>

definition set_operations :: "EvidenceOperations \<Rightarrow> 'w Run \<Rightarrow> 'w Run" where
  "set_operations operations r =
     r\<lparr>ru_terminalEvidence := (ru_terminalEvidence r)\<lparr>obs_operations := operations\<rparr>\<rparr>"

definition add_disposition :: "call_disposition \<Rightarrow> EvidenceOperation \<Rightarrow> EvidenceOperations \<Rightarrow> EvidenceOperations" where
  "add_disposition disposition operation operations =
     (case disposition of
        Permitted \<Rightarrow> operations\<lparr>eos_permitted := eos_permitted operations @ [operation]\<rparr>
      | Denied \<Rightarrow> operations\<lparr>eos_denied := eos_denied operations @ [operation]\<rparr>)"

text \<open>\<^verbatim>\<open>`call-${String(index + 1).padStart(4, '0')}`\<close>\<close>

definition call_identity :: "nat \<Rightarrow> string" where
  "call_identity index =
     (let digits = digits_of_nat (index + 1) in
      template [''call-'', replicate (4 - length digits) (CHR ''0''), digits])"

text \<open>\<^verbatim>\<open>recordCalls\<close>: the failure, if an emission failed, and what had been recorded by then.\<close>

fun record_calls ::
  "'w Env \<Rightarrow> nat \<Rightarrow> AdapterCall list \<Rightarrow> EvidenceOperations \<Rightarrow> ('w, string option \<times> EvidenceOperations) act" where
  "record_calls env index [] operations = give (None, operations)"
| "record_calls env index (call # calls) operations =
     (let call_id = call_identity index;
          named = \<lparr>or_name = ac_tool call, or_target = None\<rparr>;
          operation = \<lparr>eo_call_id = call_id, eo_operation = named\<rparr>;
          tried = operations\<lparr>eos_attempted := eos_attempted operations @ [operation]\<rparr>;
          settled = add_disposition (ac_disposition call) operation tried in
      seq (set_run (set_operations tried)) (\<lambda>_.
      seq (emit_run env (Call_attempted call_id named)) (\<lambda>out.
        case out of
          Emit_failed reason detail \<Rightarrow> give (Some (emissionFailure reason detail), tried)
        | Event_emitted _ \<Rightarrow>
            seq (set_run (set_operations settled)) (\<lambda>_.
            seq (emit_run env (Call_disposed call_id (ac_disposition call) None)) (\<lambda>out2.
              case out2 of
                Emit_failed reason detail \<Rightarrow> give (Some (emissionFailure reason detail), settled)
              | Event_emitted _ \<Rightarrow> record_calls env (index + 1) calls settled)))))"

definition recordCalls :: "'w Env \<Rightarrow> AdapterCall list \<Rightarrow> ('w, string option \<times> EvidenceOperations) act" where
  "recordCalls env calls = record_calls env 0 calls emptyOperations"

text \<open>The gates, through the guarded execution port.\<close>

definition gate_request :: "'w Env \<Rightarrow> string \<Rightarrow> string \<Rightarrow> planned_spec \<Rightarrow> GateExecutionRequest" where
  "gate_request env session_ref gate_id spec =
     \<lparr>ge_fence = env_fence env, ge_gate_id = gate_id, ge_spec = spec, ge_session_ref = session_ref\<rparr>"

definition gate_port ::
  "'w Env \<Rightarrow> string \<Rightarrow> string \<Rightarrow> planned_spec \<Rightarrow> fault option \<times> 'w Run \<Rightarrow> gate_answer \<times> fault option \<times> 'w Run" where
  "gate_port env session_ref gate_id spec st =
     (case guarded env (Run_gate (gate_request env session_ref gate_id spec))
         (pt_gate (env_ports env) (gate_request env session_ref gate_id spec)) (snd st) of
        (Inr report, r) \<Rightarrow> (gate_answer.Answered report, None, r)
      | (Inl error, r) \<Rightarrow> (Gate_call_threw, Some error, r))"

definition run_gates :: "'w Env \<Rightarrow> GateRegistry \<Rightarrow> string \<Rightarrow> ('w, GateRun) act" where
  "run_gates env registry session_ref r =
     (case runGates (gate_port env session_ref) registry (rq_gates (env_request env))
         (obs_gate_results (ru_terminalEvidence r), None, r) of
        (result, evidence, threw, r1) \<Rightarrow>
          let r2 = r1\<lparr>ru_terminalEvidence := (ru_terminalEvidence r1)\<lparr>obs_gate_results := evidence\<rparr>\<rparr> in
          (case threw of
             Some error \<Rightarrow> (case result of Gates_threw \<Rightarrow> (Inl error, r2) | _ \<Rightarrow> (Inr result, r2))
           | None \<Rightarrow> (Inr result, r2)))"

definition invocation :: "'w Env \<Rightarrow> Authority \<Rightarrow> string \<Rightarrow> AdapterInvocationRequest" where
  "invocation env authority session_ref =
     (let profile = cd_body (cp_value (au_profile authority)) in
      \<lparr>ai_fence = env_fence env, ai_adapter = au_adapter authority, ai_profile = profile_identity authority,
       ai_input = rq_input (env_request env), ai_grant = ep_capability profile,
       ai_routing_class = ep_routing_class profile, ai_model_route = ep_model_route profile,
       ai_fallback = ep_fallback profile, ai_limits = ep_limits profile,
       ai_credentials = cg_credentials (ep_capability profile), ai_session_ref = session_ref,
       ai_root_ref = template [''workspace:'', rq_run_id (env_request env)]\<rparr>)"

text \<open>From the passed gates: what the host observed of the workspace and the artifacts.\<close>

definition observe_run ::
  "'w Env \<Rightarrow> Authority \<Rightarrow> GateResults \<Rightarrow> EvidenceOperations \<Rightarrow> ('w, phase_answer) act" where
  "observe_run env authority gate_results operations =
     (let request = env_request env;
          seen = noObservations\<lparr>obs_gate_results := gate_results, obs_operations := operations\<rparr> in
      seq (guarded env (Observe_workspace (rq_workspace_root request))
            (pt_observe (env_ports env) (rq_run_id request) (rq_workspace_root request))) (\<lambda>observation.
        case deriveAuthoritativeChangeSet observation of
          OperationalFailure source detail \<Rightarrow> finish_fault env authority seen detail
        | Decided (Refused r) \<Rightarrow> finish_refused env authority seen r
        | Decided (Proceed changes) \<Rightarrow>
            seq (set_run (\<lambda>r. r\<lparr>ru_terminalEvidence := (ru_terminalEvidence r)\<lparr>obs_observed := changes\<rparr>\<rparr>)) (\<lambda>_.
            seq (guarded env (Observe_artifacts (rq_artifact_paths request))
                  (pt_artifacts (env_ports env) (rq_run_id request) (rq_artifact_paths request))) (\<lambda>artifacts.
            seq (set_run (\<lambda>r. r\<lparr>ru_terminalEvidence := (ru_terminalEvidence r)\<lparr>obs_artifacts := artifacts\<rparr>\<rparr>)) (\<lambda>_.
            let observations = \<lparr>obs_gate_results = gate_results, obs_observed = changes,
                  obs_artifacts = artifacts, obs_operations = operations\<rparr> in
            seq (run_interrupted env) (\<lambda>signal.
              case signal of
                Some reason \<Rightarrow> stop_run (abortRun env authority observations reason)
              | None \<Rightarrow>
                  seq (set_run (\<lambda>r. r\<lparr>ru_established := At_observed authority observations\<rparr>)) (\<lambda>_.
                    give (Earned ''independent verification begins''))))))))"

fun gate_results_of :: "GateRun \<Rightarrow> GateResults" where
  "gate_results_of (Gates_passed recorder) = dr_results recorder"
| "gate_results_of (Gates_faulted _ recorder) = dr_results recorder"
| "gate_results_of _ = []"

text \<open>What follows the provider's report.\<close>

definition after_invocation ::
  "'w Env \<Rightarrow> Authority \<Rightarrow> string \<Rightarrow> AdapterObservation \<Rightarrow> ('w, phase_answer) act" where
  "after_invocation env authority session_ref observation =
     (let with = (\<lambda>operations. noObservations\<lparr>obs_operations := operations\<rparr>) in
      case classifyTerminalObservations (ao_terminal observation) of
        Conflicting _ detail \<Rightarrow>
          stop_run (finish env authority noObservations indeterminate_run detail (Terminal INDETERMINATE))
      | Established \<Rightarrow>
          seq (recordCalls env (ao_calls observation)) (\<lambda>(failed, operations).
            case failed of
              Some detail \<Rightarrow> finish_fault env authority (with operations) detail
            | None \<Rightarrow>
                emit_or_fault env authority (with operations) Adapter_completed (\<lambda>_.
                  case eps_gate_registry (au_snapshots authority) of
                    None \<Rightarrow>
                      finish_fault env authority (with operations)
                        ''the gate registry snapshot is unavailable at scheduling''
                  | Some registry \<Rightarrow>
                      seq (run_gates env (cd_body (cp_value registry)) session_ref) (\<lambda>gates.
                        let seen = (with operations)\<lparr>obs_gate_results := gate_results_of gates\<rparr> in
                        case gates of
                          Gates_unknown detail \<Rightarrow>
                            stop_run (finish env authority seen refuse_run detail (Terminal REFUSED))
                        | Gates_stale detail \<Rightarrow> lose_and_conclude env detail
                        | Gates_faulted detail _ \<Rightarrow> finish_fault env authority seen detail
                        | Gates_threw \<Rightarrow> throw (Thrown (lb_type_error (env_library env)))
                        | Gates_passed _ \<Rightarrow> observe_run env authority (gate_results_of gates) operations))))"

definition running :: "'w Env \<Rightarrow> Authority \<Rightarrow> ('w, phase_answer) act" where
  "running env authority =
     look ru_session (\<lambda>session.
       let session_ref =
             (case session of Some handle \<Rightarrow> sh_session_ref handle
              | None \<Rightarrow> template [''session:'', rq_run_id (env_request env)]) in
       emit_or_fault env authority noObservations Adapter_started (\<lambda>_.
       seq (guarded env (Invoke_adapter (invocation env authority session_ref))
             (pt_invoke (env_ports env) (invocation env authority session_ref))) (\<lambda>report.
         case report of
           Adapter_stale_fence detail \<Rightarrow> lose_and_conclude env detail
         | Adapter_fault detail \<Rightarrow>
             finish_fault env authority noObservations (template [''adapter invocation faulted: '', detail])
         | Adapter_observed observation \<Rightarrow> after_invocation env authority session_ref observation)))"

section \<open>Verifying\<close>

definition protected_sources :: "EpochSnapshots \<Rightarrow> string list" where
  "protected_sources s =
     [case eps_profile s of Some c \<Rightarrow> cp_source c | None \<Rightarrow> ''profile'',
      case eps_path_policy s of Some c \<Rightarrow> cp_source c | None \<Rightarrow> ''path-policy'',
      case eps_gate_registry s of Some c \<Rightarrow> cp_source c | None \<Rightarrow> ''gate-registry'']"

text \<open>The write that escapes isolation, and its answer.\<close>

definition apply_changes ::
  "'w Env \<Rightarrow> Authority \<Rightarrow> Observations \<Rightarrow> PathPolicy Captured \<Rightarrow> WorkspaceHandle \<Rightarrow> ('w, phase_answer option) act" where
  "apply_changes env authority seen policy handle =
     (let request = \<lparr>ab_fence = env_fence env, ab_workspace_ref = wh_workspace_ref handle,
            ab_changes = obs_observed seen,
            ab_authorized_by = \<lparr>py_contract_id = ci_contract_id (cp_contract policy), py_digest = cp_digest policy\<rparr>\<rparr> in
      seq (guarded env (Apply_back request) (pt_apply (env_ports env) request)) (\<lambda>applied.
        case applied of
          Changes_applied _ \<Rightarrow> give None
        | Changes_not_applied reason detail \<Rightarrow>
            if reason = Some Stale_fence then
              seq (set_run (loseFence detail)) (\<lambda>_.
              seq (stop_run (conclude env No_record detail)) (\<lambda>c. give (Some c)))
            else
              seq (finish_fault env authority seen (template [''apply-back failed: '', detail]))
                (\<lambda>c. give (Some c))))"

definition lease_lost_text :: "'w Env \<Rightarrow> string list \<Rightarrow> string" where
  "lease_lost_text env rest =
     template ([''the run lease was lost at generation '', string_of_int (fn_generation (env_fence env))] @ rest)"

definition renew_lease :: "'w Env \<Rightarrow> ('w, bool) act" where
  "renew_lease env =
     guarded env (Renew_lease (fn_generation (env_fence env))) (pt_renew (env_ports env) (env_fence env))"

definition materialize :: "'w Env \<Rightarrow> Authority \<Rightarrow> Observations \<Rightarrow> ('w, phase_answer option) act" where
  "materialize env authority seen =
     (let policy = eps_path_policy (au_snapshots authority) in
      if obs_observed seen = [] then give None
      else
        (case decideMaterialization
            (case policy of None \<Rightarrow> Undefined | Some c \<Rightarrow> as_supplied (Captured_ok c))
            (Some (obs_observed seen)) (protected_sources (au_snapshots authority)) of
           Refused r \<Rightarrow> seq (finish_refused env authority seen r) (\<lambda>c. give (Some c))
         | Proceed _ \<Rightarrow>
             look id (\<lambda>run.
               case (ru_workspace run, policy) of
                 (Some handle, Some captured_policy) \<Rightarrow>
                   (case ru_fenceLost run of
                      Some lost \<Rightarrow> seq (stop_run (conclude env No_record lost)) (\<lambda>c. give (Some c))
                    | None \<Rightarrow>
                        seq (renew_lease env) (\<lambda>renewed.
                          if \<not> renewed then
                            let detail = lease_lost_text env [''; nothing was materialized''] in
                            seq (set_run (loseFence detail)) (\<lambda>_.
                            seq (stop_run (conclude env No_record detail)) (\<lambda>c. give (Some c)))
                          else apply_changes env authority seen captured_policy handle))
               | _ \<Rightarrow> give None)))"

text \<open>\<^verbatim>\<open>valueOf\<close>\<close>

definition valueOf :: "AuthorityBytes list \<Rightarrow> string \<Rightarrow> AuthorityBytes" where
  "valueOf vals source =
     (case map_of (zip (map source_text SOURCES) vals) source of
        Some bytes \<Rightarrow> bytes
      | None \<Rightarrow> Bytes_failed source (template [''the verification epoch produced no '', source]))"

text \<open>\<^verbatim>\<open>interrupt()\<close>: go on, or the run is aborted.\<close>

definition unless_interrupted ::
  "'w Env \<Rightarrow> Authority \<Rightarrow> Observations \<Rightarrow> (unit \<Rightarrow> ('w, phase_answer) act) \<Rightarrow> ('w, phase_answer) act" where
  "unless_interrupted env authority seen next =
     seq (run_interrupted env) (\<lambda>signal.
       case signal of
         Some reason \<Rightarrow> stop_run (abortRun env authority seen reason)
       | None \<Rightarrow> next ())"

definition clock_now_run :: "'w Env \<Rightarrow> ('w, string) act" where
  "clock_now_run env r = (case pt_now (env_ports env) (ru_world r) of (answer, w) \<Rightarrow> (answer, r\<lparr>ru_world := w\<rparr>))"

text \<open>From the verdict to the end of the run.\<close>

definition after_verdict ::
  "'w Env \<Rightarrow> Authority \<Rightarrow> Observations \<Rightarrow> VerificationResult \<Rightarrow> ('w, phase_answer) act" where
  "after_verdict env authority seen verdict =
     (case verdict of
        Verification_fault source detail \<Rightarrow> finish_fault env authority seen detail
      | Not_verified failures \<Rightarrow>
          stop_run (finish env authority seen refuse_run
            (template [''verification failed: '', join ''; '' failures]) (Terminal REFUSED))
      | Verified consumed \<Rightarrow>
          unless_interrupted env authority seen (\<lambda>_.
          seq (materialize env authority seen) (\<lambda>materialized.
            case materialized of
              Some ended \<Rightarrow> give ended
            | None \<Rightarrow>
                unless_interrupted env authority seen (\<lambda>_.
                  stop_run (finish env authority seen complete_run ''the run completed'' (Terminal COMPLETED))))))"

definition verify_candidate ::
  "'w Env \<Rightarrow> Authority \<Rightarrow> Observations \<Rightarrow> AuthorityBytes list \<Rightarrow> EvidenceBundle \<Rightarrow> ('w, phase_answer) act" where
  "verify_candidate env authority seen vals bundle =
     seq (guarded env (Observe_artifacts (rq_artifact_paths (env_request env)))
           (pt_artifacts (env_ports env) (rq_run_id (env_request env)) (rq_artifact_paths (env_request env))))
       (\<lambda>fresh. unless_interrupted env authority seen (\<lambda>_.
          after_verdict env authority seen
            (verifyEvidence (lb_platform (env_library env)) (Bundle bundle)
              \<lparr>ix_profile = valueOf vals ''profile'', ix_path_policy = valueOf vals ''path_policy'',
               ix_gate_registry = valueOf vals ''gate_registry'', ix_artifacts = fresh\<rparr>)))"

definition verifying :: "'w Env \<Rightarrow> Authority \<Rightarrow> Observations \<Rightarrow> ('w, phase_answer) act" where
  "verifying env authority seen =
     unless_interrupted env authority seen (\<lambda>_.
     seq (run_epoch env Verification) (\<lambda>reacquired.
       case reacquired of
         Epoch_failed failure \<Rightarrow>
           finish_fault env authority seen
             (template [''verification re-acquisition failed: '', describeEpochFailure failure])
       | Epoch_threw \<Rightarrow> throw (Thrown (lb_type_error (env_library env)))
       | Epoch_ok _ vals \<Rightarrow>
           seq (clock_now_run env) (\<lambda>finished.
             case assemble_run env authority seen (Terminal COMPLETED) ''the run completed'' finished of
               Threw \<Rightarrow> throw (Thrown (lb_type_error (env_library env)))
             | Returned (Assembly_failed failure detail) \<Rightarrow>
                 (case failure of
                    Assembly_refusal \<Rightarrow> stop_run (finish env authority seen refuse_run detail (Terminal REFUSED))
                  | Assembly_operational \<Rightarrow> finish_fault env authority seen detail)
             | Returned (Assembled bundle run_outcome) \<Rightarrow> verify_candidate env authority seen vals bundle)))"

end
