(* ===== verification/Runner.thy ===== *)
theory Runner
  imports Phases
begin

text \<open>
  The run engine, \<^verbatim>\<open>orchestration/run.ts\<close>, and the settlement of an interrupted or failed run,
  \<^verbatim>\<open>orchestration/settle.ts\<close>.
\<close>

section \<open>Settlement\<close>

definition incomplete :: "'w Env \<Rightarrow> LifecycleState \<Rightarrow> string \<Rightarrow> 'w Run \<Rightarrow> RunConclusion" where
  "incomplete env intended detail r =
     (if ru_fenceLost r \<noteq> None then run_conclusion env Ownership_lost No_record detail r
      else if ru_recorded r \<noteq> No_record \<and> isTerminal (rm_state (ru_machine r)) then
        run_conclusion env Concluded_terminal (ru_recorded r) detail r
      else run_conclusion env (Settlement_failed intended) No_record detail r)"

definition conclude_incomplete :: "'w Env \<Rightarrow> LifecycleState \<Rightarrow> string \<Rightarrow> ('w, RunConclusion) act" where
  "conclude_incomplete env intended detail = look (incomplete env intended detail) give"

definition interruptFallback ::
  "'w Env \<Rightarrow> interrupt_reason \<Rightarrow> string \<Rightarrow> fault \<Rightarrow> ('w, RunConclusion) act" where
  "interruptFallback env reason detail error =
     seq (look ru_fenceLost (\<lambda>lost.
            if lost = None then seq (reach_terminal (kind_of_reason reason) detail) (\<lambda>_. give ()) else give ())) (\<lambda>_.
     seq (recover (flush_journal env) (\<lambda>_. give ())) (\<lambda>_.
     seq (set_run (release_resources env)) (\<lambda>_.
       conclude_incomplete env (INTERRUPT_TERMINAL reason)
         (template [detail, ''; terminal settlement was incomplete: '', describe_fault error]))))"

text \<open>The record an interrupted run owes, by what it had established.\<close>

definition settle_record :: "'w Env \<Rightarrow> interrupt_reason \<Rightarrow> string \<Rightarrow> ('w, RunConclusion) act" where
  "settle_record env reason detail =
     look id (\<lambda>r.
       case ru_established r of
         At_authorized authority \<Rightarrow>
           finish env authority (snapshotTerminalEvidence (ru_terminalEvidence r)) (kind_of_reason reason) detail
             (INTERRUPT_TERMINAL reason)
       | At_observed authority observations \<Rightarrow>
           finish env authority observations (kind_of_reason reason) detail (INTERRUPT_TERMINAL reason)
       | At_requested \<Rightarrow>
           if isTerminal (rm_state (ru_machine r)) then writeEarlyTerminalRecord env detail
           else terminateEarly env (kind_of_reason reason) detail)"

definition settleInterrupt :: "'w Env \<Rightarrow> interrupt_reason \<Rightarrow> ('w, RunConclusion) act" where
  "settleInterrupt env reason =
     (let detail = template [''the run was '', interrupt_text reason, '' while a port was in flight''] in
      seq (set_run disarm_run) (\<lambda>_.
      seq (look ru_session (\<lambda>session.
             if session = None then give ()
             else seq (open_window env) (\<lambda>n. interrupt_session (env\<lparr>env_boundary := Settlement_boundary n\<rparr>) reason))) (\<lambda>_.
      seq (open_window env) (\<lambda>n.
        let settling = env\<lparr>env_boundary := Settlement_boundary n\<rparr> in
        recover (settle_record settling reason detail) (interruptFallback settling reason detail)))))"

text \<open>What a recovery does when one of its own calls fails.\<close>

definition recovery_failed :: "'w Env \<Rightarrow> 'w Env \<Rightarrow> string \<Rightarrow> fault \<Rightarrow> ('w, RunConclusion) act" where
  "recovery_failed env recovering told error =
     (case error of
        Run_interrupted reason \<Rightarrow> settleInterrupt env reason
      | _ \<Rightarrow>
          conclude_incomplete recovering (Terminal INDETERMINATE)
            (template [told, ''; terminal settlement was incomplete: '', describe_fault error]))"

definition recover_unestablished :: "'w Env \<Rightarrow> bool \<Rightarrow> string \<Rightarrow> ('w, RunConclusion) act" where
  "recover_unestablished env dispossessed told =
     seq (flush_journal env) (\<lambda>_.
     look ru_authorityCaptured (\<lambda>captured.
       if \<not> captured \<and> \<not> dispossessed then writeEarlyTerminalRecord env told
       else if dispossessed then conclude_incomplete env (Terminal INDETERMINATE) told
       else
         conclude_incomplete env (Terminal INDETERMINATE)
           (template [told, ''; the recovery terminal was not durably recorded''])))"

definition recoverRun :: "'w Env \<Rightarrow> string \<Rightarrow> ('w, RunConclusion) act" where
  "recoverRun env detail =
     seq (open_window env) (\<lambda>n.
       let recovering = env\<lparr>env_boundary := Recovery_boundary n\<rparr>;
           finish_with = (\<lambda>authority observations.
             recover
               (finish recovering authority observations indeterminate_run detail (Terminal INDETERMINATE))
               (recovery_failed env recovering detail)) in
       look id (\<lambda>r.
         case (ru_fenceLost r, ru_established r) of
           (None, At_authorized authority) \<Rightarrow>
             finish_with authority (snapshotTerminalEvidence (ru_terminalEvidence r))
         | (None, At_observed authority observations) \<Rightarrow> finish_with authority observations
         | (lost, _) \<Rightarrow>
             seq (case lost of
                    Some why \<Rightarrow> give (Inl why)
                  | None \<Rightarrow> reach_terminal indeterminate_run detail) (\<lambda>reached.
               let told = (case reached of Inr _ \<Rightarrow> detail | Inl why \<Rightarrow> template [detail, ''; '', why]) in
               recover (recover_unestablished recovering (lost \<noteq> None) told)
                 (recovery_failed env recovering told))))"

section \<open>The walk\<close>

text \<open>
  The phases and hooks as the walk engine runs them: its state is the machine and, beside it, what a
  hook threw and the run. A phase that throws ends the walk with the failure as its value, and once
  a hook threw no phase runs.
\<close>

type_synonym 'w walking = "fault option \<times> 'w Run"

definition walk_phase_of ::
  "('w, phase_answer) act \<Rightarrow> 'w walking walk_state \<Rightarrow> (fault + RunConclusion) PhaseCommand \<times> 'w walking walk_state" where
  "walk_phase_of f st =
     (case st of
        (m, threw, r) \<Rightarrow>
          (case f (r\<lparr>ru_machine := m\<rparr>) of
             (Inl error, r1) \<Rightarrow> (Terminate (Inl error), ru_machine r1, threw, r1)
           | (Inr (Terminate c), r1) \<Rightarrow> (Terminate (Inr c), ru_machine r1, threw, r1)
           | (Inr (Earned cause), r1) \<Rightarrow> (Earned cause, ru_machine r1, threw, r1)
           | (Inr (Hold detail), r1) \<Rightarrow> (Hold detail, ru_machine r1, threw, r1)))"

definition before_hook :: "'w Env \<Rightarrow> string \<Rightarrow> 'w walking walk_state \<Rightarrow> string option \<times> 'w walking walk_state" where
  "before_hook env phase st =
     (case st of
        (m, Some error, r) \<Rightarrow> (Some [], st)
      | (m, None, r) \<Rightarrow>
          (case ru_fenceLost r of
             Some lost \<Rightarrow> (Some lost, st)
           | None \<Rightarrow>
               (case renew_lease env (r\<lparr>ru_machine := m\<rparr>) of
                  (Inl error, r1) \<Rightarrow> (Some [], ru_machine r1, Some error, r1)
                | (Inr renewed, r1) \<Rightarrow>
                    ((if renewed then None else Some (lease_lost_text env ['' before '', phase])),
                     ru_machine r1, None, r1))))"

definition after_hook :: "'w Env \<Rightarrow> 'w walking walk_state \<Rightarrow> 'w walking walk_state" where
  "after_hook env st =
     (case st of
        (m, threw, r) \<Rightarrow>
          (case flush_journal env (r\<lparr>ru_machine := m\<rparr>) of
             (Inl error, r1) \<Rightarrow> (ru_machine r1, Some error, r1)
           | (Inr _, r1) \<Rightarrow> (ru_machine r1, threw, r1)))"

definition run_hooks :: "'w Env \<Rightarrow> 'w walking WalkHooks" where
  "run_hooks env = \<lparr>wh_beforePhase = Some (before_hook env), wh_afterRecord = Some (after_hook env)\<rparr>"

definition outOfOrder :: "'w Env \<Rightarrow> string \<Rightarrow> ('w, phase_answer) act" where
  "outOfOrder env phase =
     stop_run (terminateEarly env indeterminate_run
       (template [''the '', phase, '' phase ran before the state it requires was established'']))"

definition with_authority ::
  "'w Env \<Rightarrow> string \<Rightarrow> (Authority \<Rightarrow> ('w, phase_answer) act) \<Rightarrow> ('w, phase_answer) act" where
  "with_authority env phase f =
     look ru_established (\<lambda>e.
       case e of
         At_requested \<Rightarrow> outOfOrder env phase
       | At_authorized authority \<Rightarrow> f authority
       | At_observed authority _ \<Rightarrow> f authority)"

definition run_phase :: "'w Env \<Rightarrow> string \<Rightarrow> ('w, phase_answer) act" where
  "run_phase env phase =
     (if phase = ''requested'' then requested env
      else if phase = ''profile-resolved'' then with_authority env phase (profileResolved env)
      else if phase = ''eligible'' then with_authority env phase (eligible env)
      else if phase = ''sandbox-started'' then with_authority env phase (sandboxStarted env)
      else if phase = ''running'' then with_authority env phase (running env)
      else
        look ru_established (\<lambda>e.
          case e of
            At_observed authority observations \<Rightarrow> verifying env authority observations
          | _ \<Rightarrow> outOfOrder env phase))"

definition declared_phases :: "(string \<times> TransitionKind) list" where
  "declared_phases =
     [(''requested'', resolve_profile), (''profile-resolved'', decide_eligibility),
      (''eligible'', commit_spend), (''sandbox-started'', begin_execution),
      (''running'', begin_verification), (''verifying'', seal_evidence)]"

definition run_phases :: "'w Env \<Rightarrow> (fault + RunConclusion, 'w walking) Phase list" where
  "run_phases env =
     map (\<lambda>(name, earns). \<lparr>ph_name = name, ph_earns = earns, ph_run = walk_phase_of (run_phase env name)\<rparr>)
       declared_phases"

text \<open>\<^verbatim>\<open>walkPhases\<close>, with what a phase or a hook threw.\<close>

definition walk_phases :: "'w Env \<Rightarrow> ('w, RunConclusion WalkOutcome) act" where
  "walk_phases env r =
     (case walk (run_hooks env) (run_phases env) (ru_machine r, None, r) of
        (ended, m, threw, r1) \<Rightarrow>
          let r2 = r1\<lparr>ru_machine := m\<rparr> in
          (case threw of
             Some error \<Rightarrow> (Inl error, r2)
           | None \<Rightarrow>
               (case ended of
                  Terminated (Inl error) \<Rightarrow> (Inl error, r2)
                | Terminated (Inr c) \<Rightarrow> (Inr (Terminated c), r2)
                | Walked \<Rightarrow> (Inr Walked, r2)
                | Held detail \<Rightarrow> (Inr (Held detail), r2)
                | Halted phase entry \<Rightarrow> (Inr (Halted phase entry), r2)
                | Lost phase reason \<Rightarrow> (Inr (Lost phase reason), r2))))"

section \<open>After the walk\<close>

text \<open>\<^verbatim>\<open>#terminateFromRejection\<close>\<close>

definition terminateFromRejection :: "'w Env \<Rightarrow> string \<Rightarrow> RejectionEntry \<Rightarrow> ('w, RunConclusion) act" where
  "terminateFromRejection env phase entry =
     (let why = template [''the '', phase, '' phase earned '', transition_text (RejectionEntry.re_attempted entry),
            '', which the machine refused from '', state_text (RejectionEntry.re_state entry), '': '',
            RejectionEntry.re_detail entry];
          early = terminateEarly env operational_fault why in
      look id (\<lambda>r.
        if canConstructEvidence (rm_state (ru_machine r)) then
          (case ru_established r of
             At_requested \<Rightarrow> early
           | At_authorized authority \<Rightarrow>
               finish env authority noObservations operational_fault why (Terminal OPERATIONAL_FAILURE)
           | At_observed authority observations \<Rightarrow>
               finish env authority observations operational_fault why (Terminal OPERATIONAL_FAILURE))
        else early))"

definition conclude_held :: "'w Env \<Rightarrow> string \<Rightarrow> ('w, RunConclusion) act" where
  "conclude_held env detail =
     seq (clock_now_run env) (\<lambda>at.
     seq (set_run (\<lambda>r. r\<lparr>ru_outbox :=
            outbox_record
              (Hold_fact \<lparr>jh_state = rm_state (ru_machine r), jh_transition = ''commit_spend'',
                 jh_detail = detail, jh_at = at\<rparr>)
              (ru_outbox r)\<rparr>)) (\<lambda>_.
     seq (flush_journal env) (\<lambda>_. conclude env No_record detail)))"

definition conclude_lost :: "'w Env \<Rightarrow> string \<Rightarrow> string \<Rightarrow> ('w, RunConclusion) act" where
  "conclude_lost env phase reason =
     seq (set_run (\<lambda>r. disarm_run (release_resources env (loseFence reason r)))) (\<lambda>_.
       look (run_conclusion env Ownership_lost No_record
           (template [reason, ''; the '', phase, '' phase did not run, and no further write was made'']))
         give)"

definition after_walk :: "'w Env \<Rightarrow> RunConclusion WalkOutcome \<Rightarrow> ('w, RunConclusion) act" where
  "after_walk env ended =
     (case ended of
        Terminated c \<Rightarrow> give c
      | Held detail \<Rightarrow> conclude_held env detail
      | Lost phase reason \<Rightarrow> conclude_lost env phase reason
      | Halted phase entry \<Rightarrow> terminateFromRejection env phase entry
      | Walked \<Rightarrow> conclude env No_record ''the walk ended without a terminal commit'')"

text \<open>\<^verbatim>\<open>#walk\<close>: an interruption of the walk itself is settled; what comes after it is not.\<close>

definition walk_run :: "'w Env \<Rightarrow> ('w, RunConclusion) act" where
  "walk_run env r =
     (case walk_phases env r of
        (Inl (Run_interrupted reason), r1) \<Rightarrow> settleInterrupt env reason r1
      | (Inl error, r1) \<Rightarrow> (Inl error, r1)
      | (Inr ended, r1) \<Rightarrow> after_walk env ended r1)"

section \<open>A run\<close>

record RunControls =
  rn_transitions :: "(string \<times> supplied_row) list option"
  rn_inherited :: "string list \<Rightarrow> member option"
  rn_deadline_ms :: "js_number option"
  rn_cancelAfterMs :: "js_number option"

text \<open>
  The state of an attempt before its lease is claimed. \<open>clock\<close> gives the machine's own readings of
  the clock.
\<close>

definition fresh_run :: "RunRequest \<Rightarrow> (nat \<Rightarrow> string) \<Rightarrow> RunDeadline \<Rightarrow> 'w \<Rightarrow> 'w Run" where
  "fresh_run request clock deadline w =
     \<lparr>ru_machine = new_machine (rq_run_id request) clock TRANSITIONS,
      ru_outbox = new_outbox (rq_run_id request), ru_session = None, ru_workspace = None,
      ru_sessionAttempt = None, ru_workspaceAttempt = None, ru_held = None, ru_fenceLost = None,
      ru_authorityCaptured = False, ru_established = At_requested,
      ru_terminalEvidence = emptyTerminalEvidence, ru_recorded = No_record, ru_earlyRecord = None,
      ru_ledger = new_ledger (rq_run_id request), ru_emitter = new_emitter (rq_run_id request) [] 0,
      ru_deadline = deadline, ru_windows = [], ru_minted = 0, ru_calls = [], ru_acknowledged = [],
      ru_written = [], ru_world = w\<rparr>"

definition begin_attempt ::
  "'w Ports \<Rightarrow> RunControls \<Rightarrow> RunRequest \<Rightarrow> (nat \<Rightarrow> string) \<Rightarrow> 'w \<Rightarrow> 'w Run" where
  "begin_attempt ports controls request clock w =
     (case pt_time ports w of
        (start, w1) \<Rightarrow>
          (case pt_time ports w1 of
             (time, w2) \<Rightarrow>
               fresh_run request clock
                 (armAcquisition
                    (js_min (case rn_deadline_ms controls of Some ms \<Rightarrow> ms | None \<Rightarrow> Num ACQUISITION_BUDGET_MS)
                      (Num ACQUISITION_BUDGET_MS))
                    time (new_deadline start))
                 w2))"

definition unstarted :: "RunRequest \<Rightarrow> string \<Rightarrow> RunConclusion" where
  "unstarted request detail =
     \<lparr>cn_run_id = rq_run_id request, cn_kind = Not_started, cn_state = REQUESTED, cn_produced = No_record,
      cn_detail = detail, cn_transitions = [], cn_rejections = []\<rparr>"

text \<open>\<^verbatim>\<open>#abandonClaim\<close>\<close>

definition abandonClaim :: "'w Env \<Rightarrow> string \<Rightarrow> ('w, unit) act" where
  "abandonClaim env attempt_id =
     seq (open_window env) (\<lambda>n.
       recover
         (guarded (env\<lparr>env_boundary := Settlement_boundary n\<rparr>) (Abandon_claim attempt_id)
           (pt_abandon (env_ports env) (rq_run_id (env_request env)) attempt_id))
         (\<lambda>_. give ()))"

definition claim_failed :: "fault \<Rightarrow> string" where
  "claim_failed error =
     (case error of
        Run_interrupted reason \<Rightarrow>
          template [''the run was '', interrupt_text reason, '' before the lease could be claimed'']
      | _ \<Rightarrow> template [''the run lease could not be claimed: '', describe_fault error])"

text \<open>The release of the lease: it happens on every path and never replaces the result.\<close>

definition release_lease :: "'w Env \<Rightarrow> ('w, unit) act" where
  "release_lease env =
     seq (open_window env) (\<lambda>n.
       recover
         (guarded (env\<lparr>env_boundary := Settlement_boundary n\<rparr>) (Release_lease (fn_generation (env_fence env)))
           (pt_release (env_ports env) (env_fence env)))
         (\<lambda>_. give ()))"

text \<open>The scope of an owned run; a table that widens is never given to the machine.\<close>

definition own_run :: "RunControls \<Rightarrow> (nat \<Rightarrow> string) \<Rightarrow> RunFence \<Rightarrow> 'w Run \<Rightarrow> 'w Run" where
  "own_run controls clock fence r =
     r\<lparr>ru_machine :=
         new_machine (fn_run_id fence) clock
           (case narrowingOnly (rn_inherited controls) (rn_transitions controls) of
              Narrowed table \<Rightarrow> table | Widens _ \<Rightarrow> TRANSITIONS),
       ru_outbox := new_outbox (template [fn_run_id fence, ''#g'', string_of_int (fn_generation fence)])\<rparr>"

definition walkOwned :: "RunControls \<Rightarrow> (nat \<Rightarrow> string) \<Rightarrow> 'w Env \<Rightarrow> ('w, RunConclusion) act" where
  "walkOwned controls clock env =
     seq (set_run (own_run controls clock (env_fence env))) (\<lambda>_.
     seq (safe_now env) (\<lambda>started.
       let owned = env\<lparr>env_startedAt := started\<rparr> in
       case narrowingOnly (rn_inherited controls) (rn_transitions controls) of
         Widens detail \<Rightarrow>
           recoverRun owned
             (template [''the supplied transition table widens lifecycle authority: '', detail])
       | Narrowed _ \<Rightarrow>
           recover (walk_run owned) (\<lambda>error.
             recoverRun owned
               (template [''the run'', [CHR 0x27], ''s terminal state could not be established: '', describe_fault error]))))"

definition claim_env :: "'w Ports \<Rightarrow> Library \<Rightarrow> RunControls \<Rightarrow> RunRequest \<Rightarrow> 'w Env" where
  "claim_env ports library controls request =
     \<lparr>env_request = request, env_fence = \<lparr>fn_run_id = rq_run_id request, fn_generation = 0\<rparr>,
      env_startedAt = UNESTABLISHED_INSTANT, env_ports = ports, env_boundary = Run_boundary,
      env_deadline_ms = rn_deadline_ms controls, env_cancelAfterMs = rn_cancelAfterMs controls,
      env_library = library\<rparr>"

definition claimed_run :: "RunControls \<Rightarrow> (nat \<Rightarrow> string) \<Rightarrow> 'w Env \<Rightarrow> string \<Rightarrow> ('w, RunConclusion) act" where
  "claimed_run controls clock env attempt_id r =
     (case guarded env (Claim_lease attempt_id) (pt_claim (env_ports env) (rq_run_id (env_request env)) attempt_id) r of
        (Inl error, r1) \<Rightarrow>
          seq (set_run disarm_run) (\<lambda>_. seq (abandonClaim env attempt_id) (\<lambda>_.
            give (unstarted (env_request env) (claim_failed error)))) r1
      | (Inr (Claim_refused _ detail), r1) \<Rightarrow>
          seq (set_run disarm_run) (\<lambda>_.
            give (unstarted (env_request env)
              (template [''this run is owned elsewhere: '', detail, '' (lease not acquired)'']))) r1
      | (Inr (Claimed generation), r1) \<Rightarrow>
          let owned = env\<lparr>env_fence := (env_fence env)\<lparr>fn_generation := int generation\<rparr>\<rparr> in
          (case walkOwned controls clock owned r1 of
             (result, r2) \<Rightarrow> (result, snd (release_lease owned r2))))"

text \<open>\<^verbatim>\<open>Runner.run\<close>; \<open>uuid\<close> is the random part of the attempt's identity.\<close>

definition run ::
  "'w Ports \<Rightarrow> Library \<Rightarrow> RunControls \<Rightarrow> (nat \<Rightarrow> string) \<Rightarrow> string \<Rightarrow> RunRequest \<Rightarrow> 'w \<Rightarrow>
   (fault + RunConclusion) \<times> 'w Run" where
  "run ports library controls clock uuid request w =
     claimed_run controls clock (claim_env ports library controls request)
       (template [rq_run_id request, '':'', uuid]) (begin_attempt ports controls request clock w)"

end
