(* ===== verification/RunLogic.thy ===== *)
theory RunLogic
  imports Runner
begin

text \<open>
  Reasoning about the actions of a run: the weakest precondition of an action for a postcondition of
  its value and one of what it throws, what a run may ask its ports (\<open>lawful\<close>), and what every
  operation that does not end the run keeps of it.
\<close>

section \<open>Weakest preconditions\<close>

definition wp :: "('w, 'a) act \<Rightarrow> ('a \<Rightarrow> 'w Run \<Rightarrow> bool) \<Rightarrow> (fault \<Rightarrow> 'w Run \<Rightarrow> bool) \<Rightarrow> 'w Run \<Rightarrow> bool" where
  "wp f Q E r = (case f r of (Inl e, r') \<Rightarrow> E e r' | (Inr x, r') \<Rightarrow> Q x r')"

named_theorems wp_simps \<open>the weakest precondition of each combinator\<close>

lemma wp_give [wp_simps]: "wp (give x) Q E = Q x"
  by (simp add: fun_eq_iff wp_def give_def)

lemma wp_throw [wp_simps]: "wp (throw e) Q E = E e"
  by (simp add: fun_eq_iff wp_def throw_def)

lemma wp_seq [wp_simps]: "wp (seq f g) Q E = wp f (\<lambda>x. wp (g x) Q E) E"
  by (auto simp: fun_eq_iff wp_def seq_def split: prod.splits sum.splits)

lemma wp_recover [wp_simps]: "wp (recover f h) Q E = wp f Q (\<lambda>e. wp (h e) Q E)"
  by (auto simp: fun_eq_iff wp_def recover_def split: prod.splits sum.splits)

lemma wp_look [wp_simps]: "wp (look f g) Q E = (\<lambda>r. wp (g (f r)) Q E r)"
  by (simp add: fun_eq_iff wp_def look_def)

lemma wp_set_run [wp_simps]: "wp (set_run u) Q E = (\<lambda>r. Q () (u r))"
  by (simp add: fun_eq_iff wp_def set_run_def)

lemma wp_act_of [wp_simps]: "wp (act_of f) Q E = (\<lambda>r. Q (fst (f r)) (snd (f r)))"
  by (simp add: fun_eq_iff wp_def act_of_def split: prod.splits)

lemma wp_stop_run [wp_simps]: "wp (stop_run f) Q E = wp f (\<lambda>c. Q (Terminate c)) E"
  by (simp add: stop_run_def wp_simps)

lemma wp_mono:
  assumes "wp f Q E r" and "\<And>x r'. Q x r' \<Longrightarrow> Q' x r'" and "\<And>e r'. E e r' \<Longrightarrow> E' e r'"
  shows "wp f Q' E' r"
  using assms by (auto simp: wp_def split: prod.splits sum.splits)

lemma wp_conj: "wp f Q E r \<Longrightarrow> wp f Q' E' r \<Longrightarrow> wp f (\<lambda>x r. Q x r \<and> Q' x r) (\<lambda>e r. E e r \<and> E' e r) r"
  by (auto simp: wp_def split: prod.splits sum.splits)

section \<open>Lawful calls\<close>

text \<open>The states in which a run may ask a port for something.\<close>

fun due_in :: "PortCall \<Rightarrow> LifecycleState \<Rightarrow> bool" where
  "due_in (Read_authority Production _) s = (s = REQUESTED)"
| "due_in (Read_authority Verification _) s = (s = VERIFYING)"
| "due_in (Provision_workspace _ _) s = (s = ELIGIBLE)"
| "due_in (Prepare_session _) s = (s = ELIGIBLE)"
| "due_in (Start_session _) s = (s = ELIGIBLE)"
| "due_in (Observe_base _) s = (s = SANDBOX_STARTED)"
| "due_in (Emit_event _ _) s = (s = SANDBOX_STARTED \<or> s = RUNNING)"
| "due_in (Invoke_adapter _) s = (s = RUNNING)"
| "due_in (Run_gate _) s = (s = RUNNING)"
| "due_in (Observe_workspace _) s = (s = RUNNING)"
| "due_in (Observe_artifacts _) s = (s = RUNNING \<or> s = VERIFYING)"
| "due_in (Apply_back _) s = (s = VERIFYING)"
| "due_in (Commit_run _) s = (\<not> isTerminal s)"
| "due_in _ s = True"

text \<open>
  What the run must hold to ask: for everything that spends, a consent record granted for this very
  run; for the apply-back, what was observed and the policy captured, which together admit it.
\<close>

definition consented :: "RunRequest \<Rightarrow> bool" where
  "consented rq =
     (case rq_consent rq of None \<Rightarrow> False | Some c \<Rightarrow> co_run_id c = rq_run_id rq \<and> co_granted c)"

lemma spend_gate_consented: "decideSpendGate (rq_run_id rq) (rq_consent rq) = Spend_ok \<Longrightarrow> consented rq"
  by (auto simp: decideSpendGate_def consented_def split: option.splits if_splits)

fun spends :: "PortCall \<Rightarrow> bool" where
  "spends (Provision_workspace _ _) = True"
| "spends (Prepare_session _) = True"
| "spends (Start_session _) = True"
| "spends (Observe_base _) = True"
| "spends (Emit_event _ _) = True"
| "spends (Invoke_adapter _) = True"
| "spends (Run_gate _) = True"
| "spends (Observe_workspace _) = True"
| "spends (Observe_artifacts _) = True"
| "spends (Apply_back _) = True"
| "spends _ = False"

fun admitted :: "EstablishedRun \<Rightarrow> PortCall \<Rightarrow> bool" where
  "admitted e (Apply_back a) =
     (case e of
        At_observed authority seen \<Rightarrow>
          (case eps_path_policy (au_snapshots authority) of
             None \<Rightarrow> False
           | Some policy \<Rightarrow>
               ab_changes a = obs_observed seen \<and>
               proceeds (decideMaterialization (as_supplied (Captured_ok policy)) (Some (ab_changes a))
                 (protected_sources (au_snapshots authority))) \<and>
               ab_authorized_by a =
                 \<lparr>py_contract_id = ci_contract_id (cp_contract policy), py_digest = cp_digest policy\<rparr>)
      | _ \<Rightarrow> False)"
| "admitted e _ = True"

definition entitled :: "RunRequest \<Rightarrow> EstablishedRun \<Rightarrow> PortCall \<Rightarrow> bool" where
  "entitled rq e call \<longleftrightarrow> (spends call \<longrightarrow> consented rq) \<and> admitted e call"

lemma entitled_simps [simp]:
  "consented rq \<Longrightarrow> entitled rq e call = admitted e call"
  "\<not> spends call \<Longrightarrow> entitled rq e call = admitted e call"
  by (auto simp: entitled_def)

fun of_lease :: "PortCall \<Rightarrow> bool" where
  "of_lease (Release_lease _) = True"
| "of_lease _ = False"

definition lawful :: "RunRequest \<Rightarrow> CallRecord \<Rightarrow> bool" where
  "lawful rq c \<longleftrightarrow>
     due_in (ca_call c) (ca_state c) \<and> entitled rq (ca_established c) (ca_call c) \<and>
     (of_lease (ca_call c) \<or> \<not> ca_lost c) \<and>
     (case ca_call c of Commit_run _ \<Rightarrow> ca_pending c = 0 \<and> ca_acknowledged c = 0 | _ \<Rightarrow> True)"

section \<open>What a run keeps until it ends\<close>

definition narrow :: "TransitionTable \<Rightarrow> bool" where
  "narrow table \<longleftrightarrow> (\<forall>s k next. table s k = Some next \<longrightarrow> TRANSITIONS s k = Some next)"

text \<open>
  The machine of a run: its table only narrows the declared one, its record is a walk of that table,
  and it is the machine of the requested run.
\<close>

definition sound :: "RunRequest \<Rightarrow> RunMachine \<Rightarrow> bool" where
  "sound rq m \<longleftrightarrow> narrow (rm_table m) \<and> wf_machine m \<and> rm_runId m = rq_run_id rq"

lemma sound_step: "machine_step m m' \<Longrightarrow> sound rq m \<Longrightarrow> sound rq m'"
  using step_constants[of m m'] wf_step[of m m'] by (simp add: sound_def)

lemma walks_narrow: "walks table i s es u \<Longrightarrow> narrow table \<Longrightarrow> walks TRANSITIONS i s es u"
  by (induction table i s es u rule: walks.induct) (auto simp: narrow_def)

lemma sound_walk:
  "sound rq m \<Longrightarrow> walks TRANSITIONS (rq_run_id rq) REQUESTED (rm_transitions m) (rm_state m)"
  by (auto simp: sound_def wf_machine_def intro: walks_narrow)

text \<open>Everything of the machine but how much of it was journaled.\<close>

definition core :: "RunMachine \<Rightarrow> RunMachine" where
  "core m = m\<lparr>rm_journaledTransitions := 0, rm_journaledRejections := 0\<rparr>"

lemma core_simps [simp]:
  "rm_state (core m) = rm_state m" "rm_table (core m) = rm_table m"
  "rm_version (core m) = rm_version m" "rm_projections (core m) = rm_projections m"
  "rm_transitions (core m) = rm_transitions m" "rm_rejections (core m) = rm_rejections m"
  by (simp_all add: core_def)

lemma sound_core [simp]: "sound rq (core m) = sound rq m"
  by (simp add: sound_def wf_machine_def core_def)

lemma core_eq:
  assumes "core m = core m'"
  shows "rm_state m = rm_state m'" "rm_table m = rm_table m'" "rm_version m = rm_version m'"
    "rm_projections m = rm_projections m'" "rm_transitions m = rm_transitions m'"
  using assms by (metis core_simps)+

definition open_run :: "RunRequest \<Rightarrow> 'w Run \<Rightarrow> bool" where
  "open_run rq r \<longleftrightarrow>
     list_all (lawful rq) (ru_calls r) \<and> sound rq (ru_machine r) \<and>
     ru_acknowledged r = [] \<and> ru_recorded r \<noteq> Bundle_record \<and>
     (ru_recorded r = Early_record \<longrightarrow> ru_written r \<noteq> [])"

definition owned :: "'w Run \<Rightarrow> bool" where
  "owned r \<longleftrightarrow> ru_fenceLost r = None"

text \<open>Open, with a property of the machine; and not known to be lost.\<close>

definition open_with :: "RunRequest \<Rightarrow> (RunMachine \<Rightarrow> bool) \<Rightarrow> 'w Run \<Rightarrow> bool" where
  "open_with rq P r \<longleftrightarrow> open_run rq r \<and> P (core (ru_machine r))"

definition holding :: "RunRequest \<Rightarrow> (RunMachine \<Rightarrow> bool) \<Rightarrow> 'w Run \<Rightarrow> bool" where
  "holding rq P r \<longleftrightarrow> open_with rq P r \<and> owned r"

text \<open>What is true whenever an action throws.\<close>

definition thrown :: "RunRequest \<Rightarrow> fault \<Rightarrow> 'w Run \<Rightarrow> bool" where
  "thrown rq e r \<longleftrightarrow> open_run rq r \<and> owned r"

lemmas run_defs = open_run_def owned_def open_with_def holding_def thrown_def

text \<open>What crossing a boundary can change of a run.\<close>

definition crossed :: "RunRequest \<Rightarrow> 'w Run \<Rightarrow> 'w Run \<Rightarrow> bool" where
  "crossed rq r r' \<longleftrightarrow>
     (\<exists>w cs d ws. list_all (lawful rq) cs \<and>
        r' = r\<lparr>ru_world := w, ru_calls := ru_calls r @ cs, ru_deadline := d, ru_windows := ws\<rparr>)"

lemma crossed_refl: "crossed rq r r"
  unfolding crossed_def by (intro exI[of _ "ru_world r"] exI[of _ "[]"] exI[of _ "ru_deadline r"] exI[of _ "ru_windows r"]) simp

lemma crossed_trans: "crossed rq r r' \<Longrightarrow> crossed rq r' r'' \<Longrightarrow> crossed rq r r''"
proof -
  assume "crossed rq r r'" "crossed rq r' r''"
  then obtain w cs d ws w' cs' d' ws' where
    "list_all (lawful rq) cs" "r' = r\<lparr>ru_world := w, ru_calls := ru_calls r @ cs, ru_deadline := d, ru_windows := ws\<rparr>"
    "list_all (lawful rq) cs'" "r'' = r'\<lparr>ru_world := w', ru_calls := ru_calls r' @ cs', ru_deadline := d', ru_windows := ws'\<rparr>"
    unfolding crossed_def by blast
  then show ?thesis
    unfolding crossed_def
    by (intro exI[of _ w'] exI[of _ "cs @ cs'"] exI[of _ d'] exI[of _ ws']) simp
qed

lemma crossedI:
  "list_all (lawful rq) cs \<Longrightarrow>
   crossed rq r (r\<lparr>ru_world := w, ru_calls := ru_calls r @ cs, ru_deadline := d, ru_windows := ws\<rparr>)"
  by (auto simp: crossed_def)

lemma crossed_silent:
  fixes r :: "'w Run"
  shows "crossed rq r (r\<lparr>ru_world := w\<rparr>)" "crossed rq r (r\<lparr>ru_deadline := d\<rparr>)" "crossed rq r (r\<lparr>ru_windows := ws\<rparr>)"
  "crossed rq r (r\<lparr>ru_world := w, ru_deadline := d\<rparr>)"
proof -
  have "crossed rq r (r\<lparr>ru_world := w, ru_calls := ru_calls r @ [], ru_deadline := d, ru_windows := ws\<rparr>)"
    for w :: 'w and d ws
    by (rule crossedI) simp
  from this[where w = w and d = "ru_deadline r" and ws = "ru_windows r"]
    this[where w = "ru_world r" and d = d and ws = "ru_windows r"]
    this[where w = "ru_world r" and d = "ru_deadline r" and ws = ws] this[where w = w and d = d and ws = "ru_windows r"]
  show "crossed rq r (r\<lparr>ru_world := w\<rparr>)" "crossed rq r (r\<lparr>ru_deadline := d\<rparr>)" "crossed rq r (r\<lparr>ru_windows := ws\<rparr>)"
    "crossed rq r (r\<lparr>ru_world := w, ru_deadline := d\<rparr>)"
    by simp_all
qed

lemma crossed_fields:
  assumes "crossed rq r r'"
  shows "ru_machine r' = ru_machine r" "ru_outbox r' = ru_outbox r" "ru_fenceLost r' = ru_fenceLost r"
    "ru_recorded r' = ru_recorded r" "ru_acknowledged r' = ru_acknowledged r" "ru_written r' = ru_written r"
    "ru_established r' = ru_established r" "ru_session r' = ru_session r" "ru_workspace r' = ru_workspace r"
    "ru_held r' = ru_held r" "ru_ledger r' = ru_ledger r" "ru_emitter r' = ru_emitter r"
    "open_run rq r' = open_run rq r" "owned r' = owned r" "holding rq P r' = holding rq P r"
proof -
  from assms obtain w cs d ws where "list_all (lawful rq) cs"
    "r' = r\<lparr>ru_world := w, ru_calls := ru_calls r @ cs, ru_deadline := d, ru_windows := ws\<rparr>"
    unfolding crossed_def by blast
  then show "ru_machine r' = ru_machine r" "ru_outbox r' = ru_outbox r" "ru_fenceLost r' = ru_fenceLost r"
    "ru_recorded r' = ru_recorded r" "ru_acknowledged r' = ru_acknowledged r" "ru_written r' = ru_written r"
    "ru_established r' = ru_established r" "ru_session r' = ru_session r" "ru_workspace r' = ru_workspace r"
    "ru_held r' = ru_held r" "ru_ledger r' = ru_ledger r" "ru_emitter r' = ru_emitter r"
    "open_run rq r' = open_run rq r" "owned r' = owned r" "holding rq P r' = holding rq P r"
    by (simp_all add: run_defs)
qed

section \<open>Boundaries\<close>

lemma tick_crossed: "tick env r = (time, r') \<Longrightarrow> crossed rq r r'"
  by (auto simp: tick_def crossed_silent split: prod.splits)

lemma poll_crossed: "poll_interrupt env time r = (reason, r') \<Longrightarrow> crossed rq r r'"
  by (auto simp: poll_interrupt_def crossed_silent split: prod.splits if_splits)

lemma enter_crossed:
  assumes "boundary_enter env r = (stop, r')" shows "crossed rq r r'"
proof -
  obtain time r1 where t: "tick env r = (time, r1)" by (cases "tick env r")
  have "crossed rq r1 r'"
    using assms t
    by (auto simp: boundary_enter_def recovery_stop_def crossed_refl crossed_silent
        split: boundary.splits prod.splits option.splits dest: poll_crossed)
  with tick_crossed[OF t] show ?thesis by (rule crossed_trans)
qed

lemma fire_crossed: "crossed rq r (fire b f r)"
  by (auto simp: fire_def crossed_silent crossed_refl split: firing.splits boundary.splits)

lemma awaited_crossed: "awaited b fs r = (ab, r') \<Longrightarrow> crossed rq r r'"
proof (induction fs arbitrary: r ab)
  case Nil
  then show ?case by (simp add: crossed_refl)
next
  case (Cons f fs)
  then have "\<exists>ab. awaited b fs (fire b f r) = (ab, r')" by (auto split: prod.splits option.splits)
  with Cons.IH fire_crossed crossed_trans show ?case by blast
qed

lemma await_crossed:
  assumes "await_call env r = (ab, r')" shows "crossed rq r r'"
proof -
  obtain fs w where f: "pt_firings (env_ports env) (ru_world r) = (fs, w)" by (cases "pt_firings (env_ports env) (ru_world r)")
  have "\<exists>x. awaited (env_boundary env) fs (r\<lparr>ru_world := w\<rparr>) = (x, r')"
    using assms f by (auto simp: await_call_def split: prod.splits option.splits)
  with awaited_crossed crossed_trans[OF crossed_silent(1)[of rq r w]] show ?thesis by blast
qed

lemma make_call_crossed:
  assumes "make_call call port r = (race, r')" and "lawful rq (call_record call r)"
  shows "crossed rq r r'"
proof -
  obtain w where "r' = r\<lparr>ru_world := w, ru_calls := ru_calls r @ [call_record call r]\<rparr>"
    using assms(1) by (auto simp: make_call_def split: prod.splits)
  moreover have "crossed rq r (r\<lparr>ru_world := w, ru_calls := ru_calls r @ [call_record call r],
      ru_deadline := ru_deadline r, ru_windows := ru_windows r\<rparr>)"
    by (rule crossedI) (simp add: assms(2))
  ultimately show ?thesis by simp
qed

lemma leave_crossed: "boundary_leave env c race ab r = (res, r') \<Longrightarrow> crossed rq r r'"
  by (auto simp: boundary_leave_def crossed_refl dest: enter_crossed split: if_splits race.splits prod.splits option.splits)

lemma record_crossed: "crossed rq r r' \<Longrightarrow> call_record call r' = call_record call r"
  by (simp add: call_record_def crossed_fields)

text \<open>The contract of a guarded call: it may change only what a boundary changes, throwing or not.\<close>

lemma guarded_crossed:
  assumes g: "guarded env call port r = (res, r')" and lawful: "lawful rq (call_record call r)"
  shows "crossed rq r r'"
proof -
  obtain stop r1 where e: "boundary_enter env r = (stop, r1)" by (cases "boundary_enter env r")
  obtain race r2 where m: "make_call call port r1 = (race, r2)" by (cases "make_call call port r1")
  obtain ab r3 where a: "await_call env r2 = (ab, r3)" by (cases "await_call env r2")
  note e' = enter_crossed[OF e, of rq]
  have "crossed rq r1 r2" using make_call_crossed[OF m] lawful record_crossed[OF e', of call] by simp
  then have r3: "crossed rq r r3" using e' await_crossed[OF a, of rq] crossed_trans by blast
  show ?thesis
  proof (cases "classified (fst (port_method call)) (snd (port_method call))")
    case (Refused_unclassified x3)
    then show ?thesis using g by (simp add: guarded_def crossed_refl)
  qed (use g e m a e' in \<open>cases stop; auto simp: guarded_def intro: crossed_trans[OF r3] dest: leave_crossed\<close>)+
qed

lemma wp_guarded:
  assumes "lawful rq (call_record call r)"
    and "\<And>x r'. crossed rq r r' \<Longrightarrow> Q x r'" and "\<And>e r'. crossed rq r r' \<Longrightarrow> E e r'"
  shows "wp (guarded env call port) Q E r"
proof -
  obtain res r' where g: "guarded env call port r = (res, r')" by (cases "guarded env call port r")
  show ?thesis using assms(2,3)[OF guarded_crossed[OF g assms(1)]] by (simp add: wp_def g split: sum.splits)
qed

text \<open>A call that is due whatever the machine may be, of a run that holds its fence.\<close>

lemma lawful_record:
  assumes "holding rq P r" and "\<And>m. P m \<Longrightarrow> due_in call (rm_state m)"
    and "entitled rq (ru_established r) call" and "\<And>c. call \<noteq> Commit_run c"
  shows "lawful rq (call_record call r)"
  using assms
  by (fastforce simp: lawful_def call_record_def holding_def open_with_def owned_def split: PortCall.splits)

lemma wp_guarded_same:
  assumes "holding rq P r" and "\<And>m. P m \<Longrightarrow> due_in call (rm_state m)"
    and "entitled rq (ru_established r) call" and "\<And>c. call \<noteq> Commit_run c"
    and "\<And>x r'. holding rq P r' \<Longrightarrow> ru_established r' = ru_established r \<Longrightarrow> Q x r'"
    and "\<And>e r'. holding rq P r' \<Longrightarrow> E e r'"
  shows "wp (guarded env call port) Q E r"
  by (rule wp_guarded[OF lawful_record[OF assms(1-4)]]) (use assms in \<open>auto simp: crossed_fields\<close>)

lemma wp_guarded_hold:
  assumes "holding rq P r" and "\<And>m. P m \<Longrightarrow> due_in call (rm_state m)"
    and "entitled rq (ru_established r) call" and "\<And>c. call \<noteq> Commit_run c"
    and "\<And>x r'. holding rq P r' \<Longrightarrow> Q x r'" and "\<And>e r'. holding rq P r' \<Longrightarrow> E e r'"
  shows "wp (guarded env call port) Q E r"
  by (rule wp_guarded_same[OF assms(1-4)]) (auto intro: assms(5,6))

section \<open>The journal\<close>

lemma core_drain: "drainMachine m b = (m', b') \<Longrightarrow> core m' = core m \<and> pendingJournal m' = ([], [])"
  by (auto simp: drainMachine_def confirmJournaled_def pendingJournal_def core_def Let_def)

lemma append_through_answer:
  assumes "guarded env (Append_entry e) (pt_append (env_ports env) (env_fence env) e) r = (ans, r1)"
  shows "append_through env (t, r) e =
    (case ans of Inr out \<Rightarrow> (port_answer.Answered out, None, r1) | Inl error \<Rightarrow> (Faulted, Some error, r1))"
  using assms by (simp add: append_through_def split: sum.splits)

lemma flush_entries_crossed:
  assumes "flush_entries (append_through env) es (None, r) = (res, pend, threw, r')" and "holding rq P r"
  shows "crossed rq r r' \<and> (threw \<noteq> None) = (res = Flush_fault) \<and> (pend = [] \<longrightarrow> res = Flushed)"
  using assms
proof (induction es arbitrary: r)
  case Nil
  then show ?case by (simp add: crossed_refl)
next
  case (Cons e es)
  let ?call = "guarded env (Append_entry e) (pt_append (env_ports env) (env_fence env) e) r"
  obtain ans r1 where g: "?call = (ans, r1)" by (cases ?call)
  have "lawful rq (call_record (Append_entry e) r)" by (rule lawful_record[OF Cons.prems(2)]) auto
  note c = guarded_crossed[OF g this]
  have h: "holding rq P r1" using c Cons.prems(2) by (simp add: crossed_fields)
  show ?case
  proof (cases ans)
    case (Inl error)
    then show ?thesis using Cons.prems(1) c by (auto simp: append_through_answer[OF g])
  next
    case (Inr out)
    show ?thesis
    proof (cases out)
      case Fence_ok
      then have "flush_entries (append_through env) es (None, r1) = (res, pend, threw, r')"
        using Cons.prems(1) Inr by (simp add: append_through_answer[OF g])
      from Cons.IH[OF this h] crossed_trans[OF c] show ?thesis by blast
    next
      case (Fence_refused reason detail)
      then show ?thesis using Cons.prems(1) Inr c by (cases reason) (auto simp: append_through_answer[OF g])
    qed
  qed
qed

definition drained :: "'w Run \<Rightarrow> bool" where
  "drained r \<longleftrightarrow> ob_pending (ru_outbox r) = [] \<and> pendingJournal (ru_machine r) = ([], [])"

lemma flush_lost: "\<not> owned r \<Longrightarrow> flush_journal env r = (Inr (), r)"
  by (auto simp: flush_journal_def flushJournal_def owned_def)

lemma flush_drained:
  assumes "drained r" and "owned r" shows "flush_journal env r = (Inr (), r)"
proof -
  obtain m b where mb: "ru_machine r = m" "ru_outbox r = b" by simp
  then have p: "pendingJournal m = ([], [])" "ob_pending b = []" using assms(1) by (auto simp: drained_def)
  then have "drainMachine m b = (m, b)"
    by (simp add: drainMachine_def confirmJournaled_def)
  then show ?thesis using mb p assms(2) by (auto simp: flush_journal_def flushJournal_def owned_def)
qed

text \<open>
  The contract of the flush: it keeps the machine but for its journal counters; it throws only while
  the run is owned; and with nothing left pending the run is owned and its machine drained.
\<close>

lemma wp_flush_same:
  assumes "open_with rq P r"
    and "\<And>r'. open_with rq P r' \<Longrightarrow> ru_established r' = ru_established r \<Longrightarrow>
      ru_written r' = ru_written r \<Longrightarrow> (\<not> owned r \<Longrightarrow> \<not> owned r') \<Longrightarrow>
      (owned r \<Longrightarrow> outbox_isEmpty (ru_outbox r') \<Longrightarrow> owned r' \<and> drained r') \<Longrightarrow> Q () r'"
    and "\<And>e r'. holding rq P r' \<Longrightarrow> E e r'"
  shows "wp (flush_journal env) Q E r"
proof (cases "owned r")
  case False
  then show ?thesis using assms(1,2) by (simp add: flush_lost wp_def)
next
  case True
  obtain m b where d: "drainMachine (ru_machine r) (ru_outbox r) = (m, b)"
    by (cases "drainMachine (ru_machine r) (ru_outbox r)")
  note m = core_drain[OF d]
  obtain res pend threw r1 where f: "flush_entries (append_through env) (ob_pending b) (None, r) = (res, pend, threw, r1)"
    by (cases "flush_entries (append_through env) (ob_pending b) (None, r)") auto
  have "holding rq P r" using assms(1) True by (simp add: holding_def)
  note c = flush_entries_crossed[OF f this]
  let ?lost = "case res of Flush_fence_lost detail \<Rightarrow> Some detail | _ \<Rightarrow> None"
  let ?r' = "r1\<lparr>ru_fenceLost := ?lost, ru_machine := m, ru_outbox := b\<lparr>ob_pending := pend\<rparr>\<rparr>"
  have flush: "flush_journal env r =
      (case threw of Some error \<Rightarrow> if isRunControlError error then (Inl error, ?r') else (Inr (), ?r') | None \<Rightarrow> (Inr (), ?r'))"
    using True d f by (simp add: flush_journal_def flushJournal_def owned_def Let_def)
  have o1: "open_with rq P r1" using assms(1) by (simp add: open_with_def crossed_fields[OF conjunct1[OF c]])
  have same: "core m = core (ru_machine r1)" using m by (simp add: crossed_fields[OF conjunct1[OF c]])
  then have "sound rq m = sound rq (ru_machine r1)" by (metis sound_core)
  with same have "sound rq m = sound rq (ru_machine r1)" "core m = core (ru_machine r1)" by simp_all
  then have opened: "open_with rq P ?r'" using o1 by (simp add: run_defs)
  have threw: "?lost = None" if "threw \<noteq> None" using that c by simp
  have "outbox_isEmpty (ru_outbox ?r') \<Longrightarrow> owned ?r' \<and> drained ?r'"
    using c m by (auto simp: outbox_isEmpty_def owned_def drained_def)
  moreover have "ru_established ?r' = ru_established r" "ru_written ?r' = ru_written r"
    by (simp_all add: crossed_fields[OF conjunct1[OF c]])
  ultimately have "Q () ?r'" using assms(2)[OF opened] True by blast
  moreover have "E e ?r'" if "threw \<noteq> None" for e
    using assms(3)[of ?r' e] opened threw[OF that] by (simp add: holding_def owned_def)
  ultimately show ?thesis by (auto simp: wp_def flush split: option.splits if_splits)
qed

lemma wp_flush:
  assumes "open_with rq P r"
    and "\<And>r'. open_with rq P r' \<Longrightarrow> (\<not> owned r \<Longrightarrow> \<not> owned r') \<Longrightarrow>
      (owned r \<Longrightarrow> outbox_isEmpty (ru_outbox r') \<Longrightarrow> owned r' \<and> drained r') \<Longrightarrow> Q () r'"
    and "\<And>e r'. holding rq P r' \<Longrightarrow> E e r'"
  shows "wp (flush_journal env) Q E r"
  by (rule wp_flush_same[OF assms(1)]) (auto intro: assms(2,3))

end
