(* ===== verification/Conduct.thy ===== *)
theory Conduct
  imports RunLogic
begin

text \<open>
  What a whole run does, whatever its ports answer: one contract per operation of the run, from
  the release of its resources to the run itself, and the properties they give.
\<close>

section \<open>Conclusions that say what is durable\<close>

definition closed :: "RunRequest \<Rightarrow> RunConclusion \<Rightarrow> 'w Run \<Rightarrow> bool" where
  "closed rq c r \<longleftrightarrow>
     list_all (lawful rq) (ru_calls r) \<and>
     walks TRANSITIONS (rq_run_id rq) REQUESTED (cn_transitions c) (cn_state c) \<and>
     (cn_produced c = Bundle_record) = (ru_recorded r = Bundle_record) \<and>
     (ru_recorded r = Bundle_record) = (ru_acknowledged r \<noteq> []) \<and>
     (ru_acknowledged r = [] \<or>
      (\<exists>q. ru_acknowledged r = [q] \<and> cn_state c = cq_terminal q \<and>
         suffix (cq_transitions q) (cn_transitions c) \<and> outbox_isEmpty (ru_outbox r))) \<and>
     (cn_kind c = Concluded_terminal) = (cn_produced c \<noteq> No_record) \<and>
     (cn_kind c = Concluded_terminal \<longrightarrow> isTerminal (cn_state c)) \<and>
     (cn_kind c = Concluded_held \<longrightarrow> \<not> isTerminal (cn_state c) \<and> outbox_isEmpty (ru_outbox r)) \<and>
     (cn_kind c = Ownership_lost) = (\<not> owned r) \<and>
     (cn_produced c = Early_record \<longrightarrow> ru_written r \<noteq> [])"

text \<open>A run whose one commit was acknowledged and adopted.\<close>

definition sealed :: "RunRequest \<Rightarrow> CommitRequest \<Rightarrow> 'w Run \<Rightarrow> bool" where
  "sealed rq q r \<longleftrightarrow>
     list_all (lawful rq) (ru_calls r) \<and> ru_recorded r = Bundle_record \<and> ru_acknowledged r = [q] \<and>
     owned r \<and> drained r \<and> sound rq (ru_machine r) \<and> rm_state (ru_machine r) = cq_terminal q \<and> isTerminal (cq_terminal q) \<and>
     suffix (cq_transitions q) (rm_transitions (ru_machine r))"

lemma crossed_sealed: "crossed rq r r' \<Longrightarrow> sealed rq q r \<Longrightarrow> sealed rq q r'"
  by (auto simp: crossed_def sealed_def owned_def drained_def)

lemma crossed_open: "crossed rq r r' \<Longrightarrow> open_with rq P r' = open_with rq P r"
  by (simp add: open_with_def crossed_fields)

lemma holding_thrown: "holding rq P r \<Longrightarrow> thrown rq e r"
  by (simp add: run_defs)

section \<open>Release\<close>

lemma start_call_crossed:
  assumes "lawful rq (call_record call r)"
  shows "crossed rq r (start_call env call port r)"
proof -
  obtain stop r1 where e: "boundary_enter env r = (stop, r1)" by (cases "boundary_enter env r")
  obtain race r2 where m: "make_call call port r1 = (race, r2)" by (cases "make_call call port r1")
  note c = enter_crossed[OF e, of rq]
  then have "crossed rq r1 r2" using make_call_crossed[OF m] assms record_crossed[OF c, of call] by simp
  with c crossed_trans show ?thesis by (auto simp: start_call_def e m split: option.splits)
qed

definition let_go :: "'w Run \<Rightarrow> 'w Run" where
  "let_go r = r\<lparr>ru_workspace := None, ru_session := None, ru_workspaceAttempt := None, ru_sessionAttempt := None\<rparr>"

lemma release_crossed: "crossed rq (let_go r) (release_resources env r)"
proof (cases "owned r")
  case False
  then show ?thesis by (simp add: release_resources_def let_go_def owned_def Let_def crossed_refl)
next
  case True
  have law: "lawful rq (call_record (Discard_workspace ref) r')" "lawful rq (call_record (Close_session ref) r')"
    if "crossed rq (let_go r) r'" for ref r'
    using True by (auto simp: lawful_def call_record_def crossed_fields[OF that] let_go_def owned_def)
  obtain ws where ws: "(case ru_workspace r of Some h \<Rightarrow> Some (wh_workspace_ref h) | None \<Rightarrow> ru_workspaceAttempt r) = ws" by simp
  obtain ss where ss: "(case ru_session r of Some h \<Rightarrow> Some (sh_session_ref h) | None \<Rightarrow> ru_sessionAttempt r) = ss" by simp
  let ?r2 = "case ws of None \<Rightarrow> let_go r
    | Some ref \<Rightarrow> start_call env (Discard_workspace ref) (pt_discard (env_ports env) (env_fence env) ref) (let_go r)"
  let ?r3 = "case ss of None \<Rightarrow> ?r2
    | Some ref \<Rightarrow> start_call env (Close_session ref) (pt_close (env_ports env) (env_fence env) ref) ?r2"
  have c2: "crossed rq (let_go r) ?r2"
    by (auto split: option.splits intro: crossed_refl start_call_crossed law(1))
  have "crossed rq r2 (case ss of None \<Rightarrow> r2
      | Some ref \<Rightarrow> start_call env (Close_session ref) (pt_close (env_ports env) (env_fence env) ref) r2)"
    if "crossed rq (let_go r) r2" for r2
    using that by (auto split: option.splits intro: crossed_refl start_call_crossed law(2))
  from this[OF c2] have "crossed rq ?r2 ?r3" .
  with c2 have c3: "crossed rq (let_go r) ?r3" by (rule crossed_trans)
  have "release_resources env r = (if ws = None \<and> ss = None then ?r3 else snd (await_call env ?r3))"
    unfolding release_resources_def Let_def ws ss let_go_def[symmetric]
    using True by (simp add: let_go_def owned_def)
  moreover have "crossed rq (let_go r) (snd (await_call env ?r3))"
    using crossed_trans[OF c3 await_crossed[of env ?r3]] by (cases "await_call env ?r3") simp
  ultimately show ?thesis using c3 crossed_refl[of rq "let_go r"] by (simp split: if_splits)
qed

lemma let_go_keeps [simp]:
  "open_with rq P (let_go r) = open_with rq P r" "owned (let_go r) = owned r" "sealed rq q (let_go r) = sealed rq q r"
  "ru_outbox (let_go r) = ru_outbox r" "ru_written (let_go r) = ru_written r"
  by (simp_all add: let_go_def run_defs sealed_def drained_def)

lemma release_keeps:
  "open_with rq P (release_resources env r) = open_with rq P r"
  "owned (release_resources env r) = owned r"
  "ru_outbox (release_resources env r) = ru_outbox r" "ru_written (release_resources env r) = ru_written r"
  "sealed rq q r \<Longrightarrow> sealed rq q (release_resources env r)"
  using release_crossed[of rq r env] crossed_sealed[OF release_crossed[of rq r env]]
  by (simp_all add: crossed_fields[OF release_crossed[of rq r env]] open_with_def) (simp_all add: let_go_def run_defs)

lemma disarm_keeps [simp]:
  "open_with rq P (disarm_run r) = open_with rq P r" "owned (disarm_run r) = owned r"
  "sealed rq q (disarm_run r) = sealed rq q r" "ru_outbox (disarm_run r) = ru_outbox r"
  "ru_written (disarm_run r) = ru_written r" "ru_established (disarm_run r) = ru_established r"
  by (simp_all add: disarm_run_def run_defs sealed_def drained_def)

lemma wp_open_window:
  assumes "\<And>n r'. crossed rq r r' \<Longrightarrow> Q n r'"
  shows "wp (open_window env) Q E r"
proof -
  obtain time r1 where t: "tick env r = (time, r1)" by (cases "tick env r")
  have "crossed rq r1 (r1\<lparr>ru_windows := ru_windows r1 @ [new_settlement time]\<rparr>)" by (rule crossed_silent)
  with tick_crossed[OF t] have "crossed rq r (r1\<lparr>ru_windows := ru_windows r1 @ [new_settlement time]\<rparr>)"
    by (rule crossed_trans)
  with assms show ?thesis by (simp add: open_window_def wp_simps t)
qed

section \<open>Concluding\<close>

lemma closed_conclusion:
  assumes "open_with rq P r" and "produced \<noteq> Bundle_record"
    and "produced = Early_record \<longrightarrow> ru_written r \<noteq> []"
  shows "closed rq (conclusion_of env produced d r) r"
  using assms
  by (auto simp: closed_def conclusion_of_def run_conclusion_def run_defs Let_def sound_walk split: option.splits)

lemma wp_conclude:
  assumes "open_with rq P r" and "produced \<noteq> Bundle_record"
    and "produced = Early_record \<longrightarrow> ru_written r \<noteq> []"
    and "\<And>c r'. closed rq c r' \<Longrightarrow> Q c r'" and "\<And>e r'. thrown rq e r' \<Longrightarrow> E e r'"
  shows "wp (conclude env produced d) Q E r"
proof -
  have E: "holding rq P r' \<Longrightarrow> E e r'" for e r'
    using assms(5)[of e r'] by (simp add: run_defs)
  show ?thesis
    unfolding conclude_def wp_simps Let_def
  proof (rule wp_open_window[where rq = rq])
    fix n r1
    assume c: "crossed rq (disarm_run r) r1"
    have w1: "produced = Early_record \<longrightarrow> ru_written r1 \<noteq> []" using assms(3) by (simp add: crossed_fields[OF c])
    have "open_with rq P r1" using assms(1) by (simp add: crossed_open[OF c])
    then show "wp (flush_journal (env\<lparr>env_boundary := Settlement_boundary n\<rparr>))
        (\<lambda>_. wp (flush_journal (env\<lparr>env_boundary := Settlement_boundary n\<rparr>))
          (\<lambda>_ r. Q (conclusion_of env produced d (release_resources (env\<lparr>env_boundary := Settlement_boundary n\<rparr>) r))
             (release_resources (env\<lparr>env_boundary := Settlement_boundary n\<rparr>) r)) E) E r1"
    proof (rule wp_flush_same)
      fix r2 :: "'a Run"
      assume o2: "open_with rq P r2" and w2: "ru_written r2 = ru_written r1"
      from o2 show "wp (flush_journal (env\<lparr>env_boundary := Settlement_boundary n\<rparr>))
          (\<lambda>_ r. Q (conclusion_of env produced d (release_resources (env\<lparr>env_boundary := Settlement_boundary n\<rparr>) r))
             (release_resources (env\<lparr>env_boundary := Settlement_boundary n\<rparr>) r)) E r2"
        by (rule wp_flush_same)
          (use w1 w2 in \<open>auto simp: release_keeps intro: E intro!: assms(4) closed_conclusion[where P = P] assms(2)\<close>)
    qed (rule E)
  qed
qed

lemma wp_conclude_sealed:
  assumes "sealed rq q r" and "\<And>c r'. closed rq c r' \<Longrightarrow> Q c r'"
  shows "wp (conclude env Bundle_record d) Q E r"
proof -
  have flush: "wp (flush_journal env) Q' E r' = Q' () r'" if "sealed rq q r'" for env Q' and E and r' :: "'a Run"
    using that by (simp add: sealed_def wp_def flush_drained)
  have "closed rq (conclusion_of env Bundle_record d r') r'" if "sealed rq q r'" for r' :: "'a Run"
    using that sound_walk[of rq "ru_machine r'"]
    by (auto simp: closed_def conclusion_of_def run_conclusion_def sealed_def owned_def drained_def outbox_isEmpty_def Let_def)
  with assms(2) have Q: "Q (conclusion_of env Bundle_record d r') r'" if "sealed rq q r'" for r' using that by blast
  show ?thesis
    unfolding conclude_def wp_simps Let_def
  proof (rule wp_open_window[where rq = rq])
    fix n r1
    assume "crossed rq (disarm_run r) r1"
    then have "sealed rq q r1" using assms(1) crossed_sealed by fastforce
    then show "wp (flush_journal (env\<lparr>env_boundary := Settlement_boundary n\<rparr>))
        (\<lambda>_. wp (flush_journal (env\<lparr>env_boundary := Settlement_boundary n\<rparr>))
          (\<lambda>_ r. Q (conclusion_of env Bundle_record d (release_resources (env\<lparr>env_boundary := Settlement_boundary n\<rparr>) r))
             (release_resources (env\<lparr>env_boundary := Settlement_boundary n\<rparr>) r)) E) E r1"
      by (simp add: flush release_keeps Q)
  qed
qed

section \<open>Operations that end the run\<close>

definition ends :: "RunRequest \<Rightarrow> ('w, RunConclusion) act \<Rightarrow> 'w Run \<Rightarrow> bool" where
  "ends rq f r \<longleftrightarrow> wp f (closed rq) (thrown rq) r"

lemma ends_conclude:
  "open_with rq P r \<Longrightarrow> produced \<noteq> Bundle_record \<Longrightarrow>
   produced = Early_record \<longrightarrow> ru_written r \<noteq> [] \<Longrightarrow> ends rq (conclude env produced d) r"
  unfolding ends_def by (rule wp_conclude)

lemma sound_advance: "sound rq m \<Longrightarrow> sound rq (snd (advance_machine m k why))"
  unfolding advance_machine_def by (rule sound_step[OF step_apply])

lemma reachTerminal_sound: "sound rq m \<Longrightarrow> sound rq (snd (reachTerminal k why m))"
proof -
  assume s: "sound rq m"
  obtain x m1 where 1: "advance_machine m k why = (x, m1)" by (cases "advance_machine m k why")
  have s1: "sound rq m1" using sound_advance[OF s, of k why] by (simp add: 1)
  have "sound rq m2" if "advance_machine m1 k' why' = (y, m2)" for k' why' y m2
    using sound_advance[OF s1, of k' why'] by (simp add: that)
  with s1 show ?thesis by (auto simp: reachTerminal_def Let_def 1 split: prod.splits)
qed

definition any_machine :: "RunMachine \<Rightarrow> bool" where
  "any_machine m \<longleftrightarrow> True"

lemma wp_reach:
  assumes "open_with rq P r"
    and "\<And>reached r'. open_with rq any_machine r' \<Longrightarrow> owned r' = owned r \<Longrightarrow> Q reached r'"
  shows "wp (reach_terminal k why) Q E r"
proof -
  obtain reached m where t: "reachTerminal k why (ru_machine r) = (reached, m)" by (cases "reachTerminal k why (ru_machine r)")
  then have "sound rq m" using reachTerminal_sound[of rq "ru_machine r" k why] assms(1) by (simp add: run_defs)
  then have "open_with rq any_machine (r\<lparr>ru_machine := m\<rparr>)" "owned (r\<lparr>ru_machine := m\<rparr>) = owned r"
    using assms(1) by (simp_all add: run_defs any_machine_def)
  with assms(2) show ?thesis by (simp add: reach_terminal_def wp_simps t)
qed

lemma ends_failClosed: "open_with rq P r \<Longrightarrow> ends rq (failClosed env k why) r"
  unfolding ends_def failClosed_def wp_simps by (rule wp_reach) (auto intro: wp_conclude)

lemma wp_safe_now:
  assumes "\<And>x r'. crossed rq r r' \<Longrightarrow> Q x r'"
  shows "wp (safe_now env) Q E r"
  using assms[OF crossed_silent(1)] by (auto simp: safe_now_def wp_simps split: prod.splits sum.splits)

lemma wp_early_record:
  assumes "holding rq P r" and "\<And>x r'. holding rq P r' \<Longrightarrow> Q x r'"
  shows "wp (early_record env d) Q E r"
proof (cases "ru_earlyRecord r")
  case None
  have "holding rq P (r'\<lparr>ru_earlyRecord := Some x\<rparr>)" if "holding rq P r'" for x and r' :: "'a Run"
    using that by (simp add: run_defs)
  with None assms show ?thesis
    by (auto simp: early_record_def wp_simps crossed_fields split: RecordResult.splits
        intro!: wp_safe_now[where rq = rq])
next
  case (Some built)
  then show ?thesis using assms by (simp add: early_record_def wp_simps)
qed

lemma loseFence_open: "open_with rq P r \<Longrightarrow> open_with rq P (loseFence d r)"
  by (simp add: loseFence_def run_defs split: option.splits)

lemma ends_writeEarly:
  assumes "open_with rq P r"
  shows "ends rq (writeEarlyTerminalRecord env d) r"
proof (cases "owned r")
  case False
  then show ?thesis
    using assms by (auto simp: ends_def writeEarlyTerminalRecord_def wp_simps owned_def intro: wp_conclude)
next
  case True
  have ending: "wp (conclude env produced d') (closed rq) (thrown rq) r'"
    if "open_with rq P r'" "produced \<noteq> Bundle_record" "produced = Early_record \<longrightarrow> ru_written r' \<noteq> []"
    for produced d' and r' :: "'a Run"
    using wp_conclude[OF that] by blast
  have writing: "wp (guarded_write env i early) Q (thrown rq) r'"
    if r': "holding rq P r'" and Q: "\<And>x r'. holding rq P r' \<Longrightarrow> x = Fence_ok \<longrightarrow> ru_written r' \<noteq> [] \<Longrightarrow> Q x r'"
    for i early Q r'
    unfolding guarded_write_def wp_seq
  proof (rule wp_guarded_hold[OF r'])
    fix out and r2 :: "'a Run"
    assume "holding rq P r2"
    then show "wp (if out = Fence_ok then
            seq (set_run (\<lambda>r. r\<lparr>ru_written := ru_written r @ [(i, early)]\<rparr>)) (\<lambda>_. give out)
          else give out) Q (thrown rq) r2"
      by (auto simp: wp_simps run_defs intro!: Q)
  qed (auto simp: run_defs)
  have hold: "holding rq P r" using assms True by (simp add: holding_def)
  show ?thesis
    unfolding ends_def writeEarlyTerminalRecord_def wp_simps
    using True
    by (auto simp: owned_def wp_simps split: sum.splits
        intro!: wp_early_record[OF hold] writing ending loseFence_open
        split: FenceOutcome.splits FenceReason.splits)
      (auto simp: run_defs)
qed

lemma ends_terminateEarly:
  assumes "open_with rq P r"
  shows "ends rq (terminateEarly env k d) r"
  unfolding ends_def terminateEarly_def wp_simps
  using assms ends_writeEarly[where P = any_machine]
  by (auto simp: wp_simps ends_def split: sum.splits intro!: wp_reach[OF assms] wp_conclude)

section \<open>Finishing\<close>

text \<open>The terminal a transition leads to.\<close>

fun terminal_of :: "TransitionKind \<Rightarrow> LifecycleState option" where
  "terminal_of complete_run = Some (Terminal COMPLETED)"
| "terminal_of refuse_run = Some (Terminal REFUSED)"
| "terminal_of operational_fault = Some (Terminal OPERATIONAL_FAILURE)"
| "terminal_of cancel_run = Some (Terminal CANCELLED)"
| "terminal_of timeout_run = Some (Terminal TIMED_OUT)"
| "terminal_of indeterminate_run = Some (Terminal INDETERMINATE)"
| "terminal_of _ = None"

lemma terminal_of_reason [simp]: "terminal_of (kind_of_reason reason) = Some (INTERRUPT_TERMINAL reason)"
  by (cases reason) simp_all

lemma terminal_of_terminal: "terminal_of k = Some t \<Longrightarrow> isTerminal t"
  by (cases k) auto

lemma TRANSITIONS_terminal:
  "TRANSITIONS s k = Some next \<Longrightarrow> terminal_of k = Some t \<Longrightarrow> next = t"
  by (cases s; cases k) (auto simp: withTerminals_def)

definition minted :: "CommitCapability \<Rightarrow> LifecycleState \<Rightarrow> RunMachine \<Rightarrow> bool" where
  "minted cap t m \<longleftrightarrow>
     \<not> isTerminal (rm_state m) \<and> cap \<in> set (rm_projections m) \<and> cc_fromVersion cap = rm_version m \<and>
     cc_entries cap \<noteq> [] \<and> te_to (last (cc_entries cap)) = t"

lemma project_terminal:
  assumes "project_steps m s reads (terminal_sequence k d) = (Inr es, n)"
    and "narrow (rm_table m)" and "terminal_of k = Some t"
  shows "\<not> isTerminal s \<and> es \<noteq> [] \<and> te_to (last es) = t"
proof -
  have "rm_table m s' k' = Some u \<Longrightarrow> terminal_of k' = Some t' \<Longrightarrow> u = t'" for s' k' u t'
    using assms(2) TRANSITIONS_terminal unfolding narrow_def by blast
  note this[OF _ assms(3)] this[where k' = complete_run]
  with assms(1,3) show ?thesis
    by (auto simp: terminal_sequence_def declaredNext_def Let_def
        split: if_splits option.splits prod.splits sum.splits)
qed

lemma project_minted:
  assumes "project m i (terminal_sequence k d) = (Inr cap, m')" and "narrow (rm_table m)"
    and "terminal_of k = Some t"
  shows "minted cap t m'"
proof -
  obtain es n where "project_steps m (rm_state m) (rm_reads m) (terminal_sequence k d) = (Inr es, n)"
    "cap = \<lparr>cc_identity = i, cc_entries = es, cc_fromVersion = rm_version m\<rparr>"
    "m' = m\<lparr>rm_reads := n, rm_projections := cap # rm_projections m\<rparr>"
    using assms(1) by (auto simp: project_def Let_def split: prod.splits sum.splits)
  with project_terminal[OF this(1) assms(2,3)] show "minted cap t m'"
    by (auto simp: minted_def)
qed

lemma minted_core [simp]: "minted cap t (core m) = minted cap t m"
  by (simp add: minted_def)

lemma wp_project:
  assumes "holding rq P r" and "terminal_of k = Some t"
    and "\<And>cap r'. holding rq (minted cap t) r' \<Longrightarrow> Q (Inr cap) r'"
    and "\<And>stop r'. open_with rq any_machine r' \<Longrightarrow> Q (Inl stop) r'"
  shows "wp (project_run (terminal_sequence k d)) Q E r"
proof -
  obtain res m where p: "project (ru_machine r) (ru_minted r) (terminal_sequence k d) = (res, m)"
    by (cases "project (ru_machine r) (ru_minted r) (terminal_sequence k d)")
  have table: "sound rq m"
    using sound_step[OF step_project, of rq "ru_machine r" "ru_minted r" "terminal_sequence k d"] p assms(1)
    by (simp add: run_defs)
  let ?r' = "r\<lparr>ru_machine := m, ru_minted := ru_minted r + 1\<rparr>"
  have "Q res ?r'"
  proof (cases res)
    case (Inl stop)
    then show ?thesis using assms(1,4) table by (simp add: run_defs any_machine_def)
  next
    case (Inr cap)
    then have "minted cap t m" using project_minted[of _ _ k d cap m t] p assms(1,2) by (simp add: run_defs sound_def)
    then show ?thesis using assms(1,3) table Inr by (simp add: run_defs)
  qed
  then show ?thesis by (simp add: project_run_def wp_simps p)
qed

lemma wp_envelope:
  assumes "\<And>x r'. crossed rq r r' \<Longrightarrow> Q x r'"
  shows "wp (envelope_run env body) Q E r"
  using assms[OF crossed_silent(1)]
  by (auto simp: envelope_run_def envelope_def event_ports_def wp_simps split: prod.splits sum.splits)

text \<open>Adopting what was committed: it does not throw, and leaves nothing to journal.\<close>

lemma commit_adopts:
  assumes "minted cap t m" and "pendingJournal m = ([], [])"
  shows "\<exists>m'. commitProjected m cap = (None, m') \<and> rm_state m' = t \<and> pendingJournal m' = ([], []) \<and>
    suffix (cc_entries cap) (rm_transitions m')"
  using assms
  by (auto simp: commitProjected_def minted_def Let_def adopt_fold pendingJournal_def suffix_def)

lemma ends_settle:
  assumes "holding rq (minted cap t) r" and "drained r" and "terminal_of k = Some t"
    and "cq_terminal q = t" and "cq_transitions q = cc_entries cap"
  shows "ends rq (settle_commit env k d cap Committed) (r\<lparr>ru_acknowledged := [q]\<rparr>)"
proof -
  obtain m' where m': "commitProjected (ru_machine r) cap = (None, m')" "rm_state m' = t"
    "pendingJournal m' = ([], [])" "suffix (cc_entries cap) (rm_transitions m')"
    using commit_adopts[of cap t "ru_machine r"] assms(1,2) by (auto simp: run_defs drained_def)
  have "sound rq m'"
    using sound_step[OF step_commit, of rq "ru_machine r" cap] m'(1) assms(1) by (simp add: run_defs)
  then have m': "sound rq m'" "rm_state m' = t" "pendingJournal m' = ([], [])" "suffix (cc_entries cap) (rm_transitions m')"
    "commitProjected (ru_machine r) cap = (None, m')" using m' by simp_all
  let ?r' = "r\<lparr>ru_acknowledged := [q], ru_ledger := markSealed (ru_ledger r), ru_machine := m',
    ru_recorded := Bundle_record\<rparr>"
  have "sealed rq q ?r'"
    using assms m' terminal_of_terminal[OF assms(3)] by (simp add: sealed_def run_defs drained_def)
  then have "wp (conclude env Bundle_record d) (closed rq) (thrown rq) ?r'" by (rule wp_conclude_sealed)
  moreover have "wp (adopt_committed cap) Q E r' = Q () (r'\<lparr>ru_machine := m'\<rparr>)"
    if "ru_machine r' = ru_machine r" for Q E and r' :: "'a Run"
    using m'(5) that by (simp add: adopt_committed_def wp_def)
  ultimately show ?thesis by (simp add: ends_def settle_commit_def wp_simps)
qed

lemma ends_declined:
  assumes "open_with rq P r"
  shows "ends rq (settle_commit env k d cap (Not_committed reason why)) r"
  using assms ends_failClosed[OF assms]
  by (auto simp: ends_def settle_commit_def wp_simps intro!: wp_reach[OF assms] wp_conclude loseFence_open)

lemma wp_guarded_commit:
  "wp (guarded_commit env c) Q E r =
   wp (guarded env (Commit_run (stamped env r c)) (pt_commit (env_ports env) (stamped env r c)))
     (\<lambda>out r'. Q out (if out = Committed then r'\<lparr>ru_acknowledged := ru_acknowledged r' @ [stamped env r c]\<rparr> else r')) E r"
proof -
  have "wp (guarded_commit env c) Q E r =
    wp (seq (guarded env (Commit_run (stamped env r c)) (pt_commit (env_ports env) (stamped env r c))) (\<lambda>out.
        if out = Committed then
          seq (set_run (\<lambda>r'. r'\<lparr>ru_acknowledged := ru_acknowledged r' @ [stamped env r c]\<rparr>)) (\<lambda>_. give out)
        else give out)) Q E r"
    by (simp add: wp_def guarded_commit_def Let_def)
  then show ?thesis by (simp add: wp_simps wp_def split: prod.splits sum.splits)
qed

lemma ends_commit:
  assumes "holding rq (minted cap t) r" and "terminal_of k = Some t"
  shows "ends rq (commit_terminal env k d t bundle out cap) r"
proof -
  let ?P = "minted cap t"
  let ?request = "\<lambda>event b. \<lparr>cq_fence = env_fence env, cq_commit_id = commit_identity env t, cq_terminal = t,
    cq_transitions = cc_entries cap, cq_event = event, cq_bundle = b, cq_expires = None\<rparr>"
  have fail: "wp (failClosed env k' why) (closed rq) (thrown rq) r'" if "open_with rq ?P r'" for k' why and r' :: "'a Run"
    using ends_failClosed[OF that] by (simp add: ends_def)
  have commit: "wp (guarded_commit env (?request event b)) (\<lambda>out. wp (settle_commit env k d cap out) (closed rq) (thrown rq)) (thrown rq) r'"
    if r': "holding rq ?P r'" "drained r'" for event b and r' :: "'a Run"
  proof -
    let ?q = "stamped env r' (?request event b)"
    have law: "lawful rq (call_record (Commit_run ?q) r')"
      using r' by (simp add: lawful_def call_record_def run_defs minted_def drained_def)
    show ?thesis
      unfolding wp_guarded_commit
    proof (rule wp_guarded[OF law])
      fix answer and r2 :: "'a Run"
      assume c: "crossed rq r' r2"
      then have h: "holding rq ?P r2" "drained r2" using r' by (simp_all add: crossed_fields drained_def)
      show "wp (settle_commit env k d cap answer) (closed rq) (thrown rq)
          (if answer = Committed then r2\<lparr>ru_acknowledged := ru_acknowledged r2 @ [?q]\<rparr> else r2)"
        using ends_settle[OF h assms(2), of ?q env d] ends_declined[of rq ?P r2 env k d cap] h
        by (cases answer) (auto simp: ends_def stamped_def run_defs)
    qed (use r' in \<open>auto simp: crossed_fields intro: holding_thrown\<close>)
  qed
  have "open_with rq ?P r" "owned r" using assms(1) by (auto simp: holding_def)
  then show ?thesis
    unfolding ends_def commit_terminal_def Let_def wp_simps
    by (intro wp_flush[where P = ?P])
      (auto simp: wp_simps o_def crossed_fields crossed_open drained_def holding_def intro: holding_thrown intro!: fail wp_envelope[where rq = rq] commit split: SealPreparation.splits)
qed

lemma ends_finish:
  assumes "open_with rq P r" and "terminal_of k = Some t"
  shows "ends rq (finish env authority seen k d t) r"
proof (cases "owned r")
  case False
  then show ?thesis using assms by (auto simp: ends_def finish_def wp_simps owned_def intro: wp_conclude)
next
  case True
  have fail: "wp (failClosed env k' why) (closed rq) (thrown rq) r'"
    if "open_with rq P' r'" for k' why P' and r' :: "'a Run"
    using ends_failClosed[OF that] by (simp add: ends_def)
  have commit: "wp (commit_terminal env k d t eb out cap) (closed rq) (thrown rq) r'"
    if "holding rq (minted cap t) r'" for eb out cap and r' :: "'a Run"
    using ends_commit[OF that assms(2)] by (simp add: ends_def)
  have hold: "holding rq P r'" if "crossed rq r r'" for r'
    using that assms(1) True by (simp add: holding_def crossed_fields crossed_open)
  have "wp (case assemble_run env authority seen t d finished of
            Threw \<Rightarrow> throw (Thrown (lb_type_error (env_library env)))
          | Returned (Assembly_failed failure why) \<Rightarrow>
              failClosed env (case failure of Assembly_refusal \<Rightarrow> refuse_run | Assembly_operational \<Rightarrow> operational_fault) why
          | Returned (Assembled bundle run_outcome) \<Rightarrow>
              seq (project_run (terminal_sequence k d)) (\<lambda>projected.
                case projected of
                  Inl (k, from) \<Rightarrow>
                    failClosed env operational_fault
                      (template [''the machine declares no '', transition_text k, '' transition from '',
                         state_text from, ''; nothing is committed''])
                | Inr capability \<Rightarrow> commit_terminal env k d t bundle run_outcome capability))
        (closed rq) (thrown rq) r'" if "crossed rq r r'" for finished r'
    using hold[OF that] fail[of P r'] fail[of any_machine] commit
    by (auto simp: wp_simps holding_def[of rq P] intro: holding_thrown[OF hold[OF that]]
        intro!: wp_project[OF hold[OF that] assms(2)] split: js.splits AssemblyResult.splits)
  then show ?thesis
    using True by (auto simp: ends_def finish_def wp_simps owned_def intro!: wp_safe_now[where rq = rq])
qed

text \<open>The session is interrupted and nothing is read of it.\<close>

lemma wp_interrupt_session:
  assumes "holding rq P r" and "\<And>r'. holding rq P r' \<Longrightarrow> Q () r'"
  shows "wp (interrupt_session env reason) Q E r"
  using assms
  by (auto simp: interrupt_session_def wp_simps split: option.splits intro!: wp_guarded_hold[OF assms(1)])

lemma ends_abort:
  assumes "holding rq P r"
  shows "ends rq (abortRun env authority seen reason) r"
  unfolding ends_def abortRun_def wp_simps
  by (rule wp_interrupt_session[OF assms], rule ends_finish[unfolded ends_def, where P = P])
    (auto simp: holding_def)

section \<open>Phases\<close>

definition in_state :: "LifecycleState \<Rightarrow> RunMachine \<Rightarrow> bool" where
  "in_state s m \<longleftrightarrow> rm_state m = s"

definition phase_ok :: "RunRequest \<Rightarrow> LifecycleState \<Rightarrow> ('w, phase_answer) act \<Rightarrow> 'w Run \<Rightarrow> bool" where
  "phase_ok rq s f r \<longleftrightarrow>
     wp f (\<lambda>ans r'.
         case ans of
           Terminate c \<Rightarrow> closed rq c r'
         | Earned _ \<Rightarrow> open_with rq (in_state s) r' \<and> (s = ELIGIBLE \<longrightarrow> consented rq)
         | Hold _ \<Rightarrow> open_with rq (in_state s) r') (thrown rq) r"

lemma phase_ok_stop: "ends rq f r \<Longrightarrow> phase_ok rq s (stop_run f) r"
  by (simp add: phase_ok_def ends_def wp_simps)

lemma phase_ok_give:
  "open_with rq (in_state s) r \<Longrightarrow> s \<noteq> ELIGIBLE \<or> consented rq \<Longrightarrow> phase_ok rq s (give (Earned cause)) r"
  by (simp add: phase_ok_def wp_simps)

lemma phase_ok_throw: "holding rq P r \<Longrightarrow> phase_ok rq s (throw error) r"
  by (simp add: phase_ok_def wp_simps holding_thrown)

lemma phase_ok_seq:
  "wp f (\<lambda>x. phase_ok rq s (g x)) (thrown rq) r \<Longrightarrow> phase_ok rq s (seq f g) r"
  unfolding phase_ok_def wp_simps .

lemma holding_open: "holding rq P r \<Longrightarrow> open_with rq P r"
  by (simp add: holding_def)

lemma phase_ok_fault:
  "open_with rq P r \<Longrightarrow> phase_ok rq s (finish_fault env authority seen d) r"
  unfolding finish_fault_def by (rule phase_ok_stop, rule ends_finish) auto

lemma phase_ok_refused:
  assumes "holding rq P r"
  shows "phase_ok rq s (finish_refused env authority seen why) r"
  using ends_finish[OF holding_open[OF assms], of refuse_run] phase_ok_throw[OF assms]
  by (auto simp: finish_refused_def intro!: phase_ok_stop)

lemma phase_ok_lose:
  "open_with rq P r \<Longrightarrow> phase_ok rq s (lose_and_conclude env d) r"
  unfolding lose_and_conclude_def
  by (rule phase_ok_seq) (auto simp: wp_simps intro!: phase_ok_stop ends_conclude[where P = P] loseFence_open)

lemma poll_keeps:
  assumes "\<And>signal r'. crossed rq r r' \<Longrightarrow> Q signal r'"
  shows "wp (run_interrupted env) Q E r"
proof -
  obtain time r1 where t: "tick env r = (time, r1)" by (cases "tick env r")
  obtain reason r2 where p: "poll_interrupt env time r1 = (reason, r2)" by (cases "poll_interrupt env time r1")
  from crossed_trans[OF tick_crossed[OF t] poll_crossed[OF p]] assms
  show ?thesis by (simp add: run_interrupted_def wp_simps t p)
qed

lemma wp_interrupted:
  assumes "holding rq P r"
    and "\<And>signal r'. holding rq P r' \<Longrightarrow> ru_established r' = ru_established r \<Longrightarrow> Q signal r'"
  shows "wp (run_interrupted env) Q E r"
  by (rule poll_keeps[where rq = rq]) (use assms in \<open>auto simp: crossed_fields\<close>)

text \<open>A record update of what neither the calls nor the machine nor the fence are in.\<close>

lemma holding_updates [simp]:
  "holding rq P (r\<lparr>ru_ledger := l\<rparr>) = holding rq P r"
  "holding rq P (r\<lparr>ru_emitter := em\<rparr>) = holding rq P r"
  "holding rq P (r\<lparr>ru_terminalEvidence := ev\<rparr>) = holding rq P r"
  "holding rq P (r\<lparr>ru_established := est\<rparr>) = holding rq P r"
  "holding rq P (r\<lparr>ru_held := h\<rparr>) = holding rq P r"
  "holding rq P (r\<lparr>ru_authorityCaptured := b\<rparr>) = holding rq P r"
  "holding rq P (r\<lparr>ru_session := se\<rparr>) = holding rq P r"
  "holding rq P (r\<lparr>ru_workspace := ws\<rparr>) = holding rq P r"
  "holding rq P (r\<lparr>ru_sessionAttempt := sa\<rparr>) = holding rq P r"
  "holding rq P (r\<lparr>ru_workspaceAttempt := wa\<rparr>) = holding rq P r"
  "holding rq P (r\<lparr>ru_outbox := b'\<rparr>) = holding rq P r"
  "holding rq P (r\<lparr>ru_deadline := d\<rparr>) = holding rq P r"
  "holding rq P (r\<lparr>ru_world := w\<rparr>) = holding rq P r"
  by (simp_all add: run_defs)

lemma open_updates [simp]:
  "open_with rq P (r\<lparr>ru_ledger := l\<rparr>) = open_with rq P r"
  "open_with rq P (r\<lparr>ru_terminalEvidence := ev\<rparr>) = open_with rq P r"
  "open_with rq P (r\<lparr>ru_emitter := em\<rparr>) = open_with rq P r"
  "open_with rq P (r\<lparr>ru_outbox := b\<rparr>) = open_with rq P r"
  by (simp_all add: run_defs)

lemma emit_round_crossed:
  assumes "emit_round (event_ports env) body (em, r) = (res, em', r')"
    and "holding rq (in_state s) r" and "consented rq" and "s = SANDBOX_STARTED \<or> s = RUNNING"
  shows "crossed rq r r'"
proof -
  obtain answer w where n: "pt_now (env_ports env) (ru_world r) = (answer, w)" by (cases "pt_now (env_ports env) (ru_world r)")
  let ?r1 = "r\<lparr>ru_world := w\<rparr>"
  have law: "lawful rq (call_record (Emit_event i e) ?r1)" for i e
    by (rule lawful_record[where P = "in_state s"]) (use assms(2-4) in \<open>auto simp: in_state_def\<close>)
  have c: "crossed rq ?r1 r''" if "guarded env' (Emit_event i e) port ?r1 = (x, r'')"
    for env' i e x r'' and port :: "('a, FenceOutcome) port"
    by (rule guarded_crossed[OF that law])
  have "r' = ?r1 \<or> (\<exists>env' i e x. \<exists>port :: ('a, FenceOutcome) port. guarded env' (Emit_event i e) port ?r1 = (x, r'))"
    using assms(1)
    by (auto simp: emit_round_def event_ports_def n Let_def
        split: sum.splits prod.splits FenceOutcome.splits FenceReason.splits if_splits)
  with c have "crossed rq ?r1 r'" using crossed_refl by blast
  with crossed_silent(1) show ?thesis by (rule crossed_trans)
qed

lemma emit_within_crossed:
  assumes "emit_within n (event_ports env) body (em, r) = (res, em', r')"
    and "holding rq (in_state s) r" and "consented rq" and "s = SANDBOX_STARTED \<or> s = RUNNING"
  shows "crossed rq r r'"
  using assms(1,2)
proof (induction n arbitrary: em r)
  case 0
  then show ?case by (simp add: crossed_refl)
next
  case (Suc n)
  obtain ans em1 r1 where e: "emit_round (event_ports env) body (em, r) = (ans, em1, r1)"
    by (cases "emit_round (event_ports env) body (em, r)") auto
  note c = emit_round_crossed[OF e Suc.prems(2) assms(3,4)]
  show ?case
  proof (cases ans)
    case None
    then have "emit_within n (event_ports env) body (em1, r1) = (res, em', r')" using Suc.prems(1) e by simp
    from Suc.IH[OF this] c Suc.prems(2) show ?thesis by (auto simp: crossed_fields intro: crossed_trans)
  next
    case (Some a)
    then show ?thesis using Suc.prems(1) e c by simp
  qed
qed

lemma wp_emission:
  assumes "holding rq (in_state s) r" and "consented rq" and "s = SANDBOX_STARTED \<or> s = RUNNING"
    and "\<And>x r'. holding rq (in_state s) r' \<Longrightarrow> Q x r'" and "\<And>e r'. holding rq (in_state s) r' \<Longrightarrow> E e r'"
  shows "wp (emission env body) Q E r"
proof -
  obtain ans em r1 where e: "emit_within (lb_patience (env_library env)) (event_ports env) body (ru_emitter r, r) = (ans, em, r1)"
    by (cases "emit_within (lb_patience (env_library env)) (event_ports env) body (ru_emitter r, r)") auto
  have "holding rq (in_state s) (r1\<lparr>ru_emitter := em\<rparr>)"
    using emit_within_crossed[OF e assms(1-3)] assms(1) by (simp add: crossed_fields)
  with assms(4,5) show ?thesis by (auto simp: wp_def emission_def e split: option.splits sum.splits)
qed

lemma wp_emit:
  assumes "holding rq (in_state s) r" and "consented rq" and "s = SANDBOX_STARTED \<or> s = RUNNING"
    and "\<And>event r'. holding rq (in_state s) r' \<Longrightarrow> Q (Event_emitted event) r'"
    and "\<And>reason d r'. open_with rq (in_state s) r' \<Longrightarrow> Q (Emit_failed reason d) r'"
    and "\<And>e r'. thrown rq e r' \<Longrightarrow> E e r'"
  shows "wp (emit_run env body) Q E r"
  unfolding emit_run_def wp_simps
proof (rule wp_emission[OF _ assms(2,3)])
  fix x and r1 :: "'a Run"
  assume h: "holding rq (in_state s) r1"
  then have c: "holding rq (in_state s) (close_ledger r1)" by (simp add: close_ledger_def)
  have l: "open_with rq (in_state s) (close_ledger (loseFence d r1))" for d
    using loseFence_open[OF holding_open[OF h]] by (simp add: close_ledger_def)
  show "Q x (case x of Emit_failed Emit_stale_fence detail \<Rightarrow> close_ledger (loseFence detail r1)
      | _ \<Rightarrow> close_ledger r1)"
    using assms(4,5) c l holding_open[OF c]
    by (cases x) (auto simp: wp_simps split: emit_failure.splits)
next
  fix e and r1 :: "'a Run"
  assume "holding rq (in_state s) r1"
  then have "holding rq (in_state s) (close_ledger r1)" by (simp add: close_ledger_def)
  then show "E e (close_ledger r1)" by (rule assms(6)[OF holding_thrown])
qed (simp add: assms(1))

section \<open>Epochs and gates of a run\<close>

lemma wp_journal_acquisition:
  assumes "open_with rq P r"
    and "\<And>r'. open_with rq P r' \<Longrightarrow> ru_established r' = ru_established r \<Longrightarrow> Q () r'"
    and "\<And>e r'. holding rq P r' \<Longrightarrow> E e r'"
  shows "wp (journal_acquisition env entry) Q E r"
  unfolding journal_acquisition_def wp_simps by (rule wp_flush_same[where P = P and rq = rq]) (use assms in auto)

definition reads_in :: "AcquisitionEpoch \<Rightarrow> LifecycleState" where
  "reads_in epoch = (case epoch of Production \<Rightarrow> REQUESTED | Verification \<Rightarrow> VERIFYING)"

lemma read_keeps:
  assumes "eh_read (epoch_host env epoch) source (t, r) = (ans, t', r')"
    and "holding rq (in_state (reads_in epoch)) r"
  shows "holding rq (in_state (reads_in epoch)) r' \<and> (ans = Read_interrupted \<longrightarrow> t' \<noteq> None) \<and>
    ru_established r' = ru_established r"
proof -
  let ?call = "guarded env (Read_authority epoch source) (pt_read (env_ports env) (rq_run_id (env_request env)) epoch source) r"
  obtain x r1 where g: "?call = (x, r1)" by (cases ?call)
  have "lawful rq (call_record (Read_authority epoch source) r)"
    by (rule lawful_record[OF assms(2)]) (auto simp: in_state_def reads_in_def split: AcquisitionEpoch.splits)
  from guarded_crossed[OF g this] have "holding rq (in_state (reads_in epoch)) r1" "ru_established r1 = ru_established r"
    using assms(2) by (simp_all add: crossed_fields)
  then show ?thesis
    using assms(1) g by (auto simp: epoch_host_def split: sum.splits source_bytes.splits if_splits)
qed

lemma journal_keeps:
  assumes "eh_journal (epoch_host env epoch) entry (t, r) = (ok, t', r')" and "open_with rq P r"
  shows "open_with rq P r' \<and> (\<not> ok \<longrightarrow> owned r' \<and> t' \<noteq> None) \<and> (ok \<longrightarrow> ru_established r' = ru_established r)"
proof -
  have "wp (journal_acquisition env entry)
      (\<lambda>_ r'. open_with rq P r' \<and> ru_established r' = ru_established r) (\<lambda>_. holding rq P) r"
    by (rule wp_journal_acquisition[OF assms(2)]) auto
  then show ?thesis
    using assms(1) by (auto simp: epoch_host_def wp_def holding_def split: prod.splits sum.splits)
qed

lemma consume_keeps:
  assumes "consume_token (eh_read (epoch_host env epoch)) source (s, t, r) = (out, s', t', r')"
    and "holding rq (in_state (reads_in epoch)) r"
  shows "holding rq (in_state (reads_in epoch)) r' \<and> (out = Acquisition_interrupted \<longrightarrow> t' \<noteq> None) \<and>
    ru_established r' = ru_established r"
proof -
  obtain ans t1 r1 where read: "eh_read (epoch_host env epoch) source (t, r) = (ans, t1, r1)"
    by (cases "eh_read (epoch_host env epoch) source (t, r)") auto
  note k = read_keeps[OF read assms(2)]
  show ?thesis
    using assms k read by (cases ans) (auto simp: consume_token_def Let_def split: if_splits)
qed

lemma epoch_keeps:
  assumes "epoch_loop v (epoch_host env epoch) names snaps vals (s, t, r) = (res, s', t', r')"
    and "open_with rq (in_state (reads_in epoch)) r"
  shows "open_with rq (in_state (reads_in epoch)) r' \<and>
    (res = Epoch_threw \<longrightarrow> owned r' \<and> t' \<noteq> None) \<and>
    (\<forall>a b. res = Epoch_ok a b \<longrightarrow> owned r' \<and> ru_established r' = ru_established r)"
  using assms
proof (induction names arbitrary: snaps vals s t r)
  case Nil
  then show ?case by (auto simp: epoch_host_def owned_def split: option.splits)
next
  case (Cons name names)
  let ?P = "in_state (reads_in epoch)"
  show ?case
  proof (cases "eh_stop (epoch_host env epoch) (t, r)")
    case (Some stop)
    then show ?thesis using Cons.prems by auto
  next
    case None
    then have hold: "holding rq ?P r" using Cons.prems(2) by (simp add: holding_def owned_def epoch_host_def)
    obtain out s1 t1 r1 where c: "consume_token (eh_read (epoch_host env epoch)) (source_text name) (s, t, r) = (out, s1, t1, r1)"
      by (cases "consume_token (eh_read (epoch_host env epoch)) (source_text name) (s, t, r)") auto
    note k1 = consume_keeps[OF c hold]
    have journal: "open_with rq ?P r2 \<and> (\<not> ok \<longrightarrow> owned r2 \<and> t2 \<noteq> None) \<and> (ok \<longrightarrow> ru_established r2 = ru_established r)"
      if "eh_journal (epoch_host env epoch) entry (t1, r1) = (ok, t2, r2)" for entry ok t2 r2
      using journal_keeps[OF that, of rq ?P] k1 by (simp add: holding_def)
    show ?thesis
    proof (cases out)
      case (Acquired_value bytes)
      obtain ok t2 r2 where j: "eh_journal (epoch_host env epoch) (acquired_entry (aq_epoch s) name bytes) (t1, r1) = (ok, t2, r2)"
        by (cases "eh_journal (epoch_host env epoch) (acquired_entry (aq_epoch s) name bytes) (t1, r1)") auto
      note k2 = journal[OF j]
      show ?thesis
      proof (cases "ok \<and> (\<exists>x. capture_source v name bytes snaps = Inr x)")
        case False
        then show ?thesis
          using Cons.prems(1) None c Acquired_value j k2 by (auto split: bool.splits sum.splits)
      next
        case True
        then obtain x where x: "capture_source v name bytes snaps = Inr x" and ok: "ok" by blast
        have "epoch_loop v (epoch_host env epoch) names x (vals @ [bytes]) (s1, t2, r2) = (res, s', t', r')"
          using Cons.prems(1) None c Acquired_value j x ok by simp
        from Cons.IH[OF this] k2 ok show ?thesis by simp
      qed
    next
      case (Token_error kind d)
      let ?entry = "\<lparr>ja_epoch = aq_epoch s, ja_source = source_text name, ja_outcome = Refused_token, ja_detail = Some d\<rparr>"
      obtain ok t2 r2 where j: "eh_journal (epoch_host env epoch) ?entry (t1, r1) = (ok, t2, r2)"
        by (cases "eh_journal (epoch_host env epoch) ?entry (t1, r1)") auto
      from journal[OF j] show ?thesis
        using Cons.prems(1) None c Token_error j by (auto split: bool.splits)
    next
      case Acquisition_interrupted
      then show ?thesis using Cons.prems(1) None c k1 by (auto simp: holding_def)
    qed
  qed
qed

lemma wp_epoch:
  assumes "open_with rq (in_state (reads_in epoch)) r"
    and "\<And>a b r'. holding rq (in_state (reads_in epoch)) r' \<Longrightarrow> ru_established r' = ru_established r \<Longrightarrow>
      Q (Epoch_ok a b) r'"
    and "\<And>f r'. open_with rq (in_state (reads_in epoch)) r' \<Longrightarrow> Q (Epoch_failed f) r'"
    and "\<And>e r'. thrown rq e r' \<Longrightarrow> E e r'"
  shows "wp (run_epoch env epoch) Q E r"
proof -
  let ?loop = "runEpoch (lb_platform (env_library env)) (epoch_host env epoch) SOURCES (new_set epoch (map source_text SOURCES), None, r)"
  obtain res s' t' r' where l: "?loop = (res, s', t', r')" by (cases ?loop) auto
  note k = epoch_keeps[OF l[unfolded runEpoch_def] assms(1)]
  have "\<And>e. owned r' \<Longrightarrow> thrown rq e r'" using k by (simp add: run_defs)
  with k assms(2-4) show ?thesis
    by (cases res) (auto simp: wp_def run_epoch_def l holding_def split: option.splits)
qed

lemma gate_loop_keeps:
  assumes "gate_loop (gate_port env session) plan rec (ev, t, r) = (res, ev', t', r')"
    and "holding rq (in_state RUNNING) r" and "consented rq"
  shows "holding rq (in_state RUNNING) r' \<and> (res = Gates_threw \<longrightarrow> t' \<noteq> None)"
  using assms(1,2)
proof (induction plan arbitrary: rec ev t r)
  case (Cons entry plan)
  let ?id = "pg_gate_id entry" and ?spec = "pg_spec entry"
  let ?req = "gate_request env session ?id ?spec"
  obtain x r1 where g: "guarded env (Run_gate ?req) (pt_gate (env_ports env) ?req) r = (x, r1)"
    by (cases "guarded env (Run_gate ?req) (pt_gate (env_ports env) ?req) r")
  have "lawful rq (call_record (Run_gate ?req) r)"
    by (rule lawful_record[OF Cons.prems(2)]) (use assms(3) in \<open>auto simp: in_state_def\<close>)
  from guarded_crossed[OF g this] have h: "holding rq (in_state RUNNING) r1"
    using Cons.prems(2) by (simp add: crossed_fields)
  have p: "gate_port env session ?id ?spec (t, r) =
      (case x of Inr report \<Rightarrow> (gate_answer.Answered report, None, r1) | Inl error \<Rightarrow> (Gate_call_threw, Some error, r1))"
    using g by (simp add: gate_port_def split: sum.splits)
  show ?case
    using Cons.prems(1) Cons.IH[OF _ h] h
    unfolding gate_loop.simps p
    by (cases x) (auto split: GateReport.splits option.splits prod.splits RecordOutcome.splits)
qed auto

lemma wp_gates:
  assumes "holding rq (in_state RUNNING) r" and "consented rq"
    and "\<And>g r'. holding rq (in_state RUNNING) r' \<Longrightarrow> Q g r'" and "\<And>e r'. thrown rq e r' \<Longrightarrow> E e r'"
  shows "wp (run_gates env registry session) Q E r"
proof -
  let ?run = "runGates (gate_port env session) registry (rq_gates (env_request env))
    (obs_gate_results (ru_terminalEvidence r), None, r)"
  obtain res ev t' r' where l: "?run = (res, ev, t', r')" by (cases ?run) auto
  have "holding rq (in_state RUNNING) r'"
    using l gate_loop_keeps[of env session _ _ _ None r res ev t' r' rq] assms(1,2)
    by (auto simp: runGates_def split: PlanResult.splits)
  then have h: "holding rq (in_state RUNNING)
      (r'\<lparr>ru_terminalEvidence := (ru_terminalEvidence r')\<lparr>obs_gate_results := ev\<rparr>\<rparr>)" by simp
  show ?thesis
    using assms(3)[OF h] assms(4)[OF holding_thrown[OF h]]
    by (auto simp: wp_def run_gates_def l Let_def split: option.splits GateRun.splits)
qed

end
