(* ===== verification/PhaseConduct.thy ===== *)
theory PhaseConduct
  imports Conduct
begin

text \<open>
  The contract of each of the six phases: entered in its own state by a run that holds its fence,
  it asks its ports only for what is due there, ends the run with a conclusion that says what is
  durable, or leaves the run open in the same state for the walk to record what was earned.
\<close>

section \<open>Rules\<close>

definition answer_ok :: "RunRequest \<Rightarrow> LifecycleState \<Rightarrow> phase_answer \<Rightarrow> 'w Run \<Rightarrow> bool" where
  "answer_ok rq s ans r =
     (case ans of
        Terminate c \<Rightarrow> closed rq c r
      | Earned _ \<Rightarrow> open_with rq (in_state s) r \<and> (s = ELIGIBLE \<longrightarrow> consented rq)
      | Hold _ \<Rightarrow> open_with rq (in_state s) r)"

lemma phase_ok_wp: "phase_ok rq s f r = wp f (answer_ok rq s) (thrown rq) r"
  unfolding phase_ok_def answer_ok_def[abs_def] ..

lemma phase_ok_early: "open_with rq (in_state s) r \<Longrightarrow> phase_ok rq s (stop_run (terminateEarly env k d)) r"
  by (rule phase_ok_stop, rule ends_terminateEarly)

lemma phase_ok_finish:
  "open_with rq (in_state s) r \<Longrightarrow> terminal_of k = Some t \<Longrightarrow>
   phase_ok rq s (stop_run (finish env authority seen k d t)) r"
  by (rule phase_ok_stop, rule ends_finish)

lemma phase_ok_abort:
  "holding rq (in_state s) r \<Longrightarrow> phase_ok rq s (stop_run (abortRun env authority seen reason)) r"
  by (rule phase_ok_stop, rule ends_abort)

lemma phase_ok_set: "phase_ok rq s (g ()) (u r) \<Longrightarrow> phase_ok rq s (seq (set_run u) g) r"
  by (rule phase_ok_seq) (simp add: wp_simps)

lemma phase_ok_look: "phase_ok rq s (g (f r)) r \<Longrightarrow> phase_ok rq s (look f g) r"
  by (simp add: phase_ok_def wp_simps)

lemma phase_ok_hold: "open_with rq (in_state s) r \<Longrightarrow> phase_ok rq s (give (Hold d)) r"
  by (simp add: phase_ok_def wp_simps)

lemma phase_ok_guarded_same:
  assumes "holding rq (in_state s) r" and "due_in call s" and "entitled rq (ru_established r) call"
    and "\<And>c. call \<noteq> Commit_run c"
    and "\<And>x r'. holding rq (in_state s) r' \<Longrightarrow> ru_established r' = ru_established r \<Longrightarrow> phase_ok rq s (g x) r'"
  shows "phase_ok rq s (seq (guarded env call port) g) r"
  by (rule phase_ok_seq, rule wp_guarded_same[OF assms(1)])
    (use assms in \<open>auto simp: in_state_def intro: holding_thrown\<close>)

lemma phase_ok_guarded:
  assumes "holding rq (in_state s) r" and "due_in call s" and "entitled rq (ru_established r) call"
    and "\<And>c. call \<noteq> Commit_run c"
    and "\<And>x r'. holding rq (in_state s) r' \<Longrightarrow> phase_ok rq s (g x) r'"
  shows "phase_ok rq s (seq (guarded env call port) g) r"
  by (rule phase_ok_guarded_same[OF assms(1-4)]) (rule assms(5))

lemma phase_ok_interrupted_same:
  assumes "holding rq (in_state s) r"
    and "\<And>r'. holding rq (in_state s) r' \<Longrightarrow> ru_established r' = ru_established r \<Longrightarrow> phase_ok rq s (g None) r'"
    and "\<And>reason r'. holding rq (in_state s) r' \<Longrightarrow> phase_ok rq s (g (Some reason)) r'"
  shows "phase_ok rq s (seq (run_interrupted env) g) r"
proof (rule phase_ok_seq, rule wp_interrupted[OF assms(1)])
  fix signal and r1 :: "'a Run"
  assume "holding rq (in_state s) r1" "ru_established r1 = ru_established r"
  with assms(2,3) show "phase_ok rq s (g signal) r1" by (cases signal) auto
qed

lemma phase_ok_interrupted:
  assumes "holding rq (in_state s) r"
    and "\<And>r'. holding rq (in_state s) r' \<Longrightarrow> phase_ok rq s (g None) r'"
    and "\<And>reason r'. holding rq (in_state s) r' \<Longrightarrow> phase_ok rq s (g (Some reason)) r'"
  shows "phase_ok rq s (seq (run_interrupted env) g) r"
  by (rule phase_ok_interrupted_same[OF assms(1)]) (rule assms(2,3); assumption)+

lemma phase_ok_unless_same:
  assumes "holding rq (in_state s) r"
    and "\<And>r'. holding rq (in_state s) r' \<Longrightarrow> ru_established r' = ru_established r \<Longrightarrow> phase_ok rq s (g ()) r'"
  shows "phase_ok rq s (unless_interrupted env authority seen g) r"
  unfolding unless_interrupted_def
  by (rule phase_ok_interrupted_same[OF assms(1)]) (simp_all add: assms(2) phase_ok_abort)

lemma phase_ok_unless:
  assumes "holding rq (in_state s) r"
    and "\<And>r'. holding rq (in_state s) r' \<Longrightarrow> phase_ok rq s (g ()) r'"
  shows "phase_ok rq s (unless_interrupted env authority seen g) r"
  by (rule phase_ok_unless_same[OF assms(1)]) (rule assms(2))

lemma phase_ok_tick:
  assumes "holding rq (in_state s) r"
    and "\<And>r'. holding rq (in_state s) r' \<Longrightarrow> phase_ok rq s (g ()) r'"
  shows "phase_ok rq s (seq (arm_profile env authority cancelAfter) g) r"
    "phase_ok rq s (seq (narrow_profile env authority handle) g) r"
proof -
  obtain time r1 where t: "tick env r = (time, r1)" by (cases "tick env r")
  have "holding rq (in_state s) r1" using tick_crossed[OF t, of rq] assms(1) by (simp add: crossed_fields)
  then have "phase_ok rq s (g ()) (r1\<lparr>ru_deadline := d\<rparr>)" for d by (intro assms(2)) simp
  then show "phase_ok rq s (seq (arm_profile env authority cancelAfter) g) r"
    "phase_ok rq s (seq (narrow_profile env authority handle) g) r"
    by (auto simp: arm_profile_def narrow_profile_def wp_simps t intro!: phase_ok_seq)
qed

lemma phase_ok_emit:
  assumes "holding rq (in_state s) r" and "consented rq" and "s = SANDBOX_STARTED \<or> s = RUNNING"
    and "\<And>r'. holding rq (in_state s) r' \<Longrightarrow> phase_ok rq s (g ()) r'"
  shows "phase_ok rq s (emit_or_fault env authority seen body g) r"
  unfolding emit_or_fault_def
  by (rule phase_ok_seq, rule wp_emit[OF assms(1-3)])
    (auto intro: assms(4) phase_ok_fault[where P = "in_state s"])

lemma phase_ok_epoch:
  assumes "holding rq (in_state (reads_in epoch)) r"
    and "\<And>a b r'. holding rq (in_state (reads_in epoch)) r' \<Longrightarrow> ru_established r' = ru_established r \<Longrightarrow>
      phase_ok rq s (g (Epoch_ok a b)) r'"
    and "\<And>f r'. open_with rq (in_state (reads_in epoch)) r' \<Longrightarrow> phase_ok rq s (g (Epoch_failed f)) r'"
  shows "phase_ok rq s (seq (run_epoch env epoch) g) r"
  by (rule phase_ok_seq, rule wp_epoch[OF holding_open[OF assms(1)]]) (auto intro: assms(2,3))

lemmas phase_ok_fault' = phase_ok_fault[where P = "in_state s" and s = s for s]
  and phase_ok_refused' = phase_ok_refused[where P = "in_state s" and s = s for s]
  and phase_ok_lose' = phase_ok_lose[where P = "in_state s" and s = s for s]
  and phase_ok_throw' = phase_ok_throw[where P = "in_state s" and s = s for s]

lemmas phase_rules = phase_ok_give phase_ok_hold phase_ok_early phase_ok_finish phase_ok_abort
  phase_ok_set phase_ok_look phase_ok_tick phase_ok_unless phase_ok_fault' phase_ok_refused' phase_ok_lose' phase_ok_throw'

section \<open>Requested and profile resolved\<close>

lemma phase_authorize:
  assumes "holding rq (in_state s) r" and "s \<noteq> ELIGIBLE"
  shows "phase_ok rq s (authorize env asked snapshots resolved) r"
  using assms holding_open[OF assms(1)]
  by (auto simp: authorize_def establish_def Let_def intro!: phase_rules holding_open split: sum.splits)

lemma phase_requested:
  assumes "holding rq (in_state REQUESTED) r"
  shows "phase_ok rq REQUESTED (requested env) r"
  unfolding requested_def
proof (rule phase_ok_interrupted[OF assms], goal_cases)
  case (1 r1)
  have hold: "holding rq (in_state (reads_in Production)) r1" using 1 by (simp add: reads_in_def)
  show ?case
    using 1 by (auto intro!: phase_rules phase_authorize phase_ok_epoch[OF hold] holding_open
        simp: reads_in_def split: option.splits)
next
  case (2 reason r1)
  then show ?case by (auto intro!: phase_rules holding_open)
qed

lemma phase_profileResolved:
  assumes "holding rq (in_state PROFILE_RESOLVED) r"
  shows "phase_ok rq PROFILE_RESOLVED (profileResolved env authority) r"
  unfolding profileResolved_def
  by (rule phase_ok_tick(1)[OF assms], erule phase_ok_interrupted)
    (auto intro!: phase_rules holding_open split: js.splits Decision.splits)

section \<open>Eligible\<close>

lemma phase_refused_grant:
  "holding rq (in_state s) r \<Longrightarrow> phase_ok rq s (refused_grant env authority stale detail why) r"
  by (auto simp: refused_grant_def intro!: phase_rules holding_open)

lemma phase_eligible:
  assumes "holding rq (in_state ELIGIBLE) r" and "env_request env = rq"
  shows "phase_ok rq ELIGIBLE (eligible env authority) r"
  unfolding eligible_def
proof (rule phase_ok_interrupted[OF assms(1)], goal_cases)
  case (1 r1)
  show ?case
  proof (cases "decideSpendGate (rq_run_id rq) (rq_consent rq)")
    case Spend_ok
    then have "consented rq" by (rule spend_gate_consented)
    then show ?thesis
      using 1 assms(2) Spend_ok
      by (auto simp: provision_workspace_def prepare_session_def start_session_def Let_def
          intro!: phase_rules phase_ok_guarded phase_refused_grant holding_open split: grant_answer.splits)
  next
    case (Spend_held a b)
    then show ?thesis using 1 assms(2) by (auto intro!: phase_rules holding_open)
  qed
next
  case (2 reason r1)
  then show ?case by (auto intro!: phase_rules holding_open)
qed

section \<open>Sandbox started\<close>

lemma phase_sandboxStarted:
  assumes "holding rq (in_state SANDBOX_STARTED) r" and "consented rq"
  shows "phase_ok rq SANDBOX_STARTED (sandboxStarted env authority) r"
  unfolding sandboxStarted_def
  using assms
  by (auto intro!: phase_rules phase_ok_emit phase_ok_interrupted phase_ok_guarded holding_open
      split: base_answer.splits Decision.splits)

section \<open>Running\<close>

lemma set_operations_holding [simp]: "holding rq P (set_operations ops r) = holding rq P r"
  by (simp add: set_operations_def)

lemma wp_record_calls:
  assumes "holding rq (in_state RUNNING) r" and "consented rq"
    and "\<And>ops r'. holding rq (in_state RUNNING) r' \<Longrightarrow> Q (None, ops) r'"
    and "\<And>why ops r'. open_with rq (in_state RUNNING) r' \<Longrightarrow> Q (Some why, ops) r'"
  shows "wp (record_calls env i calls ops) Q (thrown rq) r"
  using assms(1)
proof (induction calls arbitrary: i ops r)
  case Nil
  then show ?case by (simp add: wp_simps assms(3))
next
  case (Cons call calls)
  show ?case
    unfolding record_calls.simps Let_def wp_seq wp_set_run
    using Cons assms(2)
    by (intro wp_emit[where s = RUNNING])
      (auto simp: wp_simps intro!: wp_emit[where s = RUNNING] assms(4))
qed

lemma phase_observe:
  assumes "holding rq (in_state RUNNING) r" and "consented rq"
  shows "phase_ok rq RUNNING (observe_run env authority gates ops) r"
  unfolding observe_run_def Let_def
  using assms
  by (auto intro!: phase_rules phase_ok_guarded phase_ok_interrupted holding_open
      split: ObservedDecision.splits Decision.splits)

lemma phase_after_invocation:
  assumes "holding rq (in_state RUNNING) r" and "consented rq"
  shows "phase_ok rq RUNNING (after_invocation env authority session observation) r"
proof -
  have gates: "phase_ok rq RUNNING (seq (run_gates env registry session) g) r'"
    if "holding rq (in_state RUNNING) r'" "\<And>x r''. holding rq (in_state RUNNING) r'' \<Longrightarrow> phase_ok rq RUNNING (g x) r''"
    for registry g and r' :: "'a Run"
    by (rule phase_ok_seq, rule wp_gates[OF that(1) assms(2)]) (auto intro: that(2))
  have recorded: "phase_ok rq RUNNING (seq (recordCalls env calls) g) r'"
    if "holding rq (in_state RUNNING) r'"
      "\<And>ops r''. holding rq (in_state RUNNING) r'' \<Longrightarrow> phase_ok rq RUNNING (g (None, ops)) r''"
      "\<And>why ops r''. open_with rq (in_state RUNNING) r'' \<Longrightarrow> phase_ok rq RUNNING (g (Some why, ops)) r''"
    for calls g and r' :: "'a Run"
    unfolding recordCalls_def
    by (rule phase_ok_seq, rule wp_record_calls[OF that(1) assms(2)]) (auto intro: that(2,3))
  show ?thesis
    unfolding after_invocation_def Let_def
    using assms
    by (auto intro!: phase_rules recorded gates phase_ok_emit phase_observe holding_open
        split: TerminalClassification.splits option.splits GateRun.splits)
qed

lemma phase_running:
  assumes "holding rq (in_state RUNNING) r" and "consented rq"
  shows "phase_ok rq RUNNING (running env authority) r"
  unfolding running_def Let_def
  using assms
  by (auto intro!: phase_rules phase_ok_emit phase_ok_guarded phase_after_invocation holding_open
      split: AdapterReport.splits)

section \<open>Verifying\<close>

lemma wp_answered:
  assumes "phase_ok rq s f r" and "\<And>ans r'. answer_ok rq s ans r' \<Longrightarrow> Q (Some ans) r'"
  shows "wp (seq f (\<lambda>c. give (Some c))) Q (thrown rq) r"
  using assms(1) unfolding phase_ok_wp wp_simps by (rule wp_mono) (auto intro: assms(2))

lemma wp_materialize:
  assumes "holding rq (in_state VERIFYING) r" and "consented rq" and est: "ru_established r = At_observed authority seen"
    and "\<And>r'. holding rq (in_state VERIFYING) r' \<Longrightarrow> Q None r'"
    and "\<And>ans r'. answer_ok rq VERIFYING ans r' \<Longrightarrow> Q (Some ans) r'"
  shows "wp (materialize env authority seen) Q (thrown rq) r"
proof -
  have answered: "wp (seq f (\<lambda>c. give (Some c))) Q (thrown rq) r'" if "phase_ok rq VERIFYING f r'" for f r'
    using that assms(5) by (rule wp_answered)
  have lost: "phase_ok rq VERIFYING (stop_run (conclude env No_record d)) (loseFence d r')"
    if "holding rq (in_state VERIFYING) r'" for d r'
    by (rule phase_ok_stop, rule ends_conclude[where P = "in_state VERIFYING"]) (auto intro: loseFence_open holding_open that)
  have applies: "wp (apply_changes env authority seen policy handle) Q (thrown rq) r'"
    if r': "holding rq (in_state VERIFYING) r'" "ru_established r' = At_observed authority seen"
      and "eps_path_policy (au_snapshots authority) = Some policy"
      and "proceeds (decideMaterialization (as_supplied (Captured_ok policy)) (Some (obs_observed seen))
        (protected_sources (au_snapshots authority)))"
    for policy handle r'
    unfolding apply_changes_def Let_def wp_seq[where f = "guarded e c p" for e c p]
  proof (rule wp_guarded_hold[OF r'(1)], goal_cases)
    case (4 answer r2)
    then show ?case
      using assms(4)[OF 4] answered[OF lost[OF 4]] answered[OF phase_ok_fault'[OF holding_open[OF 4]]]
      by (cases answer) (auto simp: wp_give wp_seq[where f = "set_run u" for u] wp_set_run)
  qed (use that assms(2) in \<open>auto simp: in_state_def intro: holding_thrown\<close>)
  have renewed: "wp (seq (renew_lease env) (\<lambda>renewed.
        if \<not> renewed then
          seq (set_run (loseFence d)) (\<lambda>_. seq (stop_run (conclude env No_record d)) (\<lambda>c. give (Some c)))
        else apply_changes env authority seen policy handle)) Q (thrown rq) r"
    if "eps_path_policy (au_snapshots authority) = Some policy"
      and "proceeds (decideMaterialization (as_supplied (Captured_ok policy)) (Some (obs_observed seen))
        (protected_sources (au_snapshots authority)))"
    for policy handle d
    unfolding renew_lease_def wp_seq[where f = "guarded e c p" for e c p]
  proof (rule wp_guarded_same[OF assms(1)], goal_cases)
    case (4 renewed r2)
    then show ?case
      using answered[OF lost[OF 4(1)]] applies[OF 4(1) _ that] est
      by (simp add: wp_seq[where f = "set_run u" for u] wp_set_run)
  qed (auto intro: holding_thrown)
  have owns: "ru_fenceLost r = None" using assms(1) by (simp add: run_defs)
  show ?thesis
    using assms(1) assms(4)[OF assms(1)] answered[OF phase_ok_refused'[OF assms(1)]] renewed
    unfolding materialize_def Let_def
    by (auto simp: wp_give wp_look owns split: option.splits Decision.splits)
qed

lemma phase_after_verdict:
  assumes "holding rq (in_state VERIFYING) r" and "consented rq" and est: "ru_established r = At_observed authority seen"
  shows "phase_ok rq VERIFYING (after_verdict env authority seen verdict) r"
proof -
  have materialized: "phase_ok rq VERIFYING (seq (materialize env authority seen) g) r'"
    if "holding rq (in_state VERIFYING) r'" and "ru_established r' = At_observed authority seen"
      and "\<And>r''. holding rq (in_state VERIFYING) r'' \<Longrightarrow> phase_ok rq VERIFYING (g None) r''"
      and "\<And>ans. g (Some ans) = give ans" for g and r' :: "'a Run"
    by (rule phase_ok_seq, rule wp_materialize[OF that(1) assms(2) that(2)])
      (use that in \<open>auto simp: phase_ok_wp wp_give\<close>)
  show ?thesis
  proof (cases verdict)
    case (Verified consumed)
    show ?thesis
      unfolding after_verdict_def Verified VerificationResult.case
      by (rule phase_ok_unless_same[OF assms(1)])
        (auto simp: est intro!: phase_rules materialized holding_open)
  qed (use assms in \<open>auto simp: after_verdict_def intro!: phase_rules holding_open\<close>)
qed

lemma phase_verifying:
  assumes "holding rq (in_state VERIFYING) r" and "consented rq" and est: "ru_established r = At_observed authority seen"
  shows "phase_ok rq VERIFYING (verifying env authority seen) r"
proof -
  let ?at = "\<lambda>r'. ru_established r' = At_observed authority seen"
  have clock: "phase_ok rq VERIFYING (seq (clock_now_run env) g) r'"
    if "holding rq (in_state VERIFYING) r'" "?at r'"
      and "\<And>x r''. holding rq (in_state VERIFYING) r'' \<Longrightarrow> ?at r'' \<Longrightarrow> phase_ok rq VERIFYING (g x) r''" for g and r' :: "'a Run"
    using that
    by (auto simp: clock_now_run_def wp_def intro!: phase_ok_seq holding_thrown split: prod.splits sum.splits)
  have candidate: "phase_ok rq VERIFYING (verify_candidate env authority seen vals eb) r'"
    if r': "holding rq (in_state VERIFYING) r'" "?at r'" for vals eb and r' :: "'a Run"
    unfolding verify_candidate_def
  proof (rule phase_ok_guarded_same[OF r'(1)], goal_cases)
    case (4 x r1)
    show ?case by (rule phase_ok_unless_same[OF 4(1)], rule phase_after_verdict) (use 4 r' assms(2) in auto)
  qed (use assms(2) in auto)
  show ?thesis
    unfolding verifying_def
  proof (rule phase_ok_unless_same[OF assms(1)], goal_cases)
    case (1 r1)
    then have h: "holding rq (in_state (reads_in Verification)) r1" and e: "?at r1"
      using est by (simp_all add: reads_in_def)
    show ?case
      by (rule phase_ok_epoch[OF h])
        (auto simp: reads_in_def e intro!: phase_rules clock candidate holding_open
          split: js.splits AssemblyResult.splits assembly_failure.splits)
  qed
qed

end
