(* ===== verification/RunConduct.thy ===== *)
theory RunConduct
  imports PhaseConduct
begin

text \<open>
  The run from its claim to its conclusion: the walk over the phases, the settlement of an
  interrupted run, the recovery of a failed one, and what every run satisfies whatever its ports
  answer.
\<close>

section \<open>Settlement\<close>

definition settles :: "RunRequest \<Rightarrow> ('w, RunConclusion) act \<Rightarrow> 'w Run \<Rightarrow> bool" where
  "settles rq f r \<longleftrightarrow> wp f (closed rq) (\<lambda>_ _. False) r"

lemma settles_ends: "settles rq f r \<Longrightarrow> ends rq f r"
  unfolding settles_def ends_def by (erule wp_mono) auto

lemma thrown_open: "thrown rq e r \<Longrightarrow> open_with rq any_machine r" "thrown rq e r \<Longrightarrow> holding rq any_machine r"
  by (simp_all add: run_defs any_machine_def)

lemma closed_incomplete:
  assumes "open_with rq P r" shows "closed rq (incomplete env intended d r) r"
  using assms by (auto simp: closed_def incomplete_def run_conclusion_def run_defs sound_walk)

lemma settles_incomplete: "open_with rq P r \<Longrightarrow> settles rq (conclude_incomplete env intended d) r"
  by (simp add: settles_def conclude_incomplete_def wp_simps closed_incomplete)

lemma wp_open_window_with:
  assumes "open_with rq P r" and "\<And>n r'. open_with rq P r' \<Longrightarrow> owned r' = owned r \<Longrightarrow> Q n r'"
  shows "wp (open_window env) Q E r"
  by (rule wp_open_window[where rq = rq]) (use assms in \<open>simp add: crossed_open crossed_fields\<close>)

lemma settles_fallback:
  assumes "open_with rq P r"
  shows "settles rq (interruptFallback env reason d e) r"
proof -
  have flushed: "wp (recover (flush_journal env) (\<lambda>_. give ())) Q E r'"
    if "open_with rq any_machine r'" "\<And>r''. open_with rq any_machine r'' \<Longrightarrow> Q () r''" for r' Q E
    unfolding wp_recover wp_give by (rule wp_flush[OF that(1)]) (auto intro: that(2) holding_open)
  have finishing: "settles rq (seq (recover (flush_journal env) (\<lambda>_. give ())) (\<lambda>_.
      seq (set_run (release_resources env)) (\<lambda>_. conclude_incomplete env intended d'))) r'"
    if "open_with rq any_machine r'" for intended d' and r' :: "'a Run"
    unfolding settles_def wp_seq wp_set_run
    by (rule flushed[OF that], rule settles_incomplete[where P = any_machine, unfolded settles_def])
      (simp add: release_keeps)
  have "open_with rq any_machine r" using assms by (simp add: run_defs any_machine_def)
  then show ?thesis
    using finishing
    unfolding settles_def interruptFallback_def wp_seq[where f = "look ru_fenceLost g" for g] wp_look
    by (auto simp: wp_give wp_seq[where f = "reach_terminal k w" for k w] intro!: wp_reach[OF assms])
qed

lemma settles_recovered:
  assumes "ends rq f r" and "\<And>e r'. thrown rq e r' \<Longrightarrow> settles rq (h e) r'"
  shows "settles rq (recover f h) r"
  using assms unfolding settles_def ends_def wp_recover by (auto elim: wp_mono)

lemma ends_settle_record:
  assumes "open_with rq P r" shows "ends rq (settle_record env reason d) r"
  using ends_finish[OF assms] ends_writeEarly[OF assms] ends_terminateEarly[OF assms]
  by (auto simp: settle_record_def ends_def wp_look split: EstablishedRun.splits)

lemma settles_interrupt:
  assumes "thrown rq e r" shows "settles rq (settleInterrupt env reason) r"
proof -
  let ?ending = "\<lambda>d. seq (open_window env) (\<lambda>n.
        recover (settle_record (env\<lparr>env_boundary := Settlement_boundary n\<rparr>) reason d)
          (interruptFallback (env\<lparr>env_boundary := Settlement_boundary n\<rparr>) reason d))"
  have ending: "wp (?ending d) (closed rq) (\<lambda>_ _. False) r'" if "open_with rq any_machine r'" for d r'
    unfolding wp_seq
    by (rule wp_open_window_with[OF that])
      (rule settles_recovered[unfolded settles_def], auto intro: ends_settle_record settles_fallback[unfolded settles_def] dest: thrown_open(1))
  have hold: "holding rq any_machine (disarm_run r)"
    using assms by (simp add: holding_def thrown_open(1)) (simp add: thrown_def)
  have session: "wp (seq (open_window env) (\<lambda>n. interrupt_session (env\<lparr>env_boundary := Settlement_boundary n\<rparr>) reason))
      (\<lambda>_ r'. open_with rq any_machine r') (\<lambda>_ _. False) (disarm_run r)"
    unfolding wp_seq
    by (rule wp_open_window[where rq = rq], rule wp_interrupt_session[where P = any_machine and rq = rq])
      (use hold in \<open>auto simp: crossed_fields intro: holding_open\<close>)
  show ?thesis
    unfolding settles_def settleInterrupt_def Let_def wp_seq[where f = "set_run u" for u] wp_set_run
      wp_seq[where f = "look f g" for f g] wp_look
    using wp_mono[OF session] ending holding_open[OF hold]
    by (auto simp: wp_give)
qed

section \<open>Recovery\<close>

lemma settles_failed:
  assumes "thrown rq e r" shows "settles rq (recovery_failed env recovering told e') r"
  using settles_interrupt[OF assms] settles_incomplete[OF thrown_open(1)[OF assms]]
  by (auto simp: recovery_failed_def split: fault.splits)

lemma ends_unestablished:
  assumes "open_with rq P r"
  shows "ends rq (recover_unestablished env dispossessed told) r"
  unfolding ends_def recover_unestablished_def wp_seq
proof (rule wp_flush[OF assms], goal_cases)
  case (1 r1)
  then show ?case
    using ends_writeEarly[OF 1(1)] settles_ends[OF settles_incomplete[OF 1(1)]]
    by (auto simp: wp_look ends_def)
qed (rule holding_thrown)

lemma settles_recoverRun:
  assumes "open_run rq r" shows "settles rq (recoverRun env d) r"
proof -
  have o: "open_with rq any_machine r" using assms by (simp add: run_defs any_machine_def)
  have finished: "settles rq (recover (finish env' authority seen indeterminate_run d (Terminal INDETERMINATE))
      (recovery_failed env env' d)) r'" if "open_with rq any_machine r'" for env' authority seen and r' :: "'a Run"
    by (rule settles_recovered[OF ends_finish[OF that]]) (auto intro: settles_failed)
  have rest: "settles rq (recover (recover_unestablished env' dispossessed told) (recovery_failed env env' told)) r'"
    if "open_with rq any_machine r'" for env' dispossessed told and r' :: "'a Run"
    by (rule settles_recovered[OF ends_unestablished[OF that]]) (rule settles_failed)
  show ?thesis
    unfolding settles_def recoverRun_def wp_seq[where f = "open_window e" for e]
  proof (rule wp_open_window_with[OF o], goal_cases)
    case (1 n r1)
    note a = finished[OF 1(1), unfolded settles_def] and b = rest[unfolded settles_def]
    show ?case
      unfolding Let_def wp_look
      using a b 1(1)
      by (auto simp: wp_seq wp_give intro!: wp_reach[OF 1(1)] split: option.splits EstablishedRun.splits)
  qed
qed

section \<open>The walk\<close>

text \<open>The run in a state of the walk.\<close>

fun walked_run :: "'w walking walk_state \<Rightarrow> 'w Run" where
  "walked_run (m, threw, r) = r\<lparr>ru_machine := m\<rparr>"

fun walk_threw :: "'w walking walk_state \<Rightarrow> fault option" where
  "walk_threw (m, threw, r) = threw"

text \<open>The states past the spend gate.\<close>

fun spent :: "LifecycleState \<Rightarrow> bool" where
  "spent SANDBOX_STARTED = True"
| "spent RUNNING = True"
| "spent VERIFYING = True"
| "spent _ = False"

text \<open>Between two phases: in the state the next one starts from, or with what a hook threw.\<close>

definition between :: "RunRequest \<Rightarrow> LifecycleState \<Rightarrow> 'w walking walk_state \<Rightarrow> bool" where
  "between rq s st =
     (if walk_threw st = None then
        open_with rq (in_state s) (walked_run st) \<and> (spent s \<longrightarrow> consented rq)
      else holding rq any_machine (walked_run st))"

text \<open>Where the walk ends.\<close>

definition walk_ended :: "RunRequest \<Rightarrow> (fault + RunConclusion) WalkOutcome \<Rightarrow> 'w walking walk_state \<Rightarrow> bool" where
  "walk_ended rq out st =
     (if walk_threw st \<noteq> None then holding rq any_machine (walked_run st)
      else
        (case out of
           Terminated (Inr c) \<Rightarrow> closed rq c (walked_run st)
         | Terminated (Inl e) \<Rightarrow> holding rq any_machine (walked_run st)
         | _ \<Rightarrow> open_with rq any_machine (walked_run st)))"

lemma any_machine_open: "open_with rq P r \<Longrightarrow> open_with rq any_machine r"
  "holding rq P r \<Longrightarrow> holding rq any_machine r"
  by (simp_all add: run_defs any_machine_def)

lemma machine_updated [simp]: "r\<lparr>ru_machine := ru_machine r\<rparr> = r"
  by simp

lemma before_keeps:
  assumes "before_phase (run_hooks env) name st = (ans, st')" and "between rq s st"
  shows "if ans = None then walk_threw st' = None \<and> holding rq (in_state s) (walked_run st') \<and> (spent s \<longrightarrow> consented rq)
         else walk_ended rq (Lost name why) st'"
proof -
  obtain m threw r where st: "st = (m, threw, r)" by (cases st)
  let ?r = "r\<lparr>ru_machine := m\<rparr>"
  have hook: "before_hook env name (m, threw, r) = (ans, st')" using assms(1) st by (simp add: before_phase_def run_hooks_def)
  show ?thesis
  proof (cases "threw = None \<and> ru_fenceLost r = None")
    case False
    then show ?thesis
      using hook assms(2) st any_machine_open(1)
      by (auto simp: before_hook_def between_def walk_ended_def split: option.splits)
  next
    case True
    then have h: "holding rq (in_state s) ?r" "spent s \<longrightarrow> consented rq"
      using assms(2) st by (simp_all add: between_def holding_def owned_def)
    have "wp (renew_lease env) (\<lambda>_. holding rq (in_state s)) (\<lambda>_. holding rq (in_state s)) ?r"
      unfolding renew_lease_def by (rule wp_guarded_hold[OF h(1)]) auto
    with True hook h(2) show ?thesis
      using any_machine_open
      by (auto simp: before_hook_def walk_ended_def wp_def holding_def split: prod.splits sum.splits if_splits)
  qed
qed

lemma after_keeps:
  assumes "open_with rq P (r\<lparr>ru_machine := m\<rparr>)" and "after_record (run_hooks env) (m, None, r) = st'"
  shows "if walk_threw st' = None then open_with rq P (walked_run st') else holding rq any_machine (walked_run st')"
proof -
  have "wp (flush_journal env) (\<lambda>_. open_with rq P) (\<lambda>_. holding rq P) (r\<lparr>ru_machine := m\<rparr>)"
    by (rule wp_flush[OF assms(1)])
  then show ?thesis
    using assms(2) any_machine_open(2)
    by (auto simp: after_record_def run_hooks_def after_hook_def wp_def split: prod.splits sum.splits)
qed

text \<open>One phase: it leaves the run between phases, in the state its transition leads to, or ends the walk.\<close>

lemma advance_narrow:
  assumes "advance_machine m k cause = (Advanced a e, m')" and "sound rq m"
  shows "TRANSITIONS (rm_state m) k = Some (rm_state m')"
proof -
  have "\<not> isTerminal (rm_state m)" "rm_table m (rm_state m) k \<noteq> None"
    using assms(1) by (auto simp: advance_machine_def apply_claim_def claim_write_def declaredNext_def reject_def Let_def split: if_splits option.splits)
  then obtain u where u: "rm_table m (rm_state m) k = Some u" "\<not> isTerminal (rm_state m)" by blast
  from advance_declared(1)[OF u(2,1), of cause] assms(1) have "rm_state m' = u" by simp
  with u(1) assms(2) show ?thesis by (auto simp: sound_def narrow_def)
qed

lemma spent_after: "TRANSITIONS s k = Some u \<Longrightarrow> spent u \<Longrightarrow> spent s \<or> s = ELIGIBLE"
  by (cases s; cases k) (auto simp: withTerminals_def)

lemma walk_phase_keeps:
  fixes env :: "'w Env"
  assumes step: "walk_phase (run_hooks env) \<lparr>ph_name = name, ph_earns = k, ph_run = walk_phase_of f\<rparr> st = (out, st')"
    and start: "between rq s st"
    and phase: "\<And>r. holding rq (in_state s) r \<Longrightarrow> spent s \<longrightarrow> consented rq \<Longrightarrow> phase_ok rq s f r"
  shows "case out of Some ended \<Rightarrow> walk_ended rq ended st'
    | None \<Rightarrow> \<exists>u. TRANSITIONS s k = Some u \<and> between rq u st'"
proof -
  obtain ans st1 where b: "before_phase (run_hooks env) name st = (ans, st1)" by (cases "before_phase (run_hooks env) name st")
  show ?thesis
  proof (cases ans)
    case (Some why)
    with before_keeps[OF b start, where why = why] step b show ?thesis by (auto simp: walk_phase_def)
  next
    case None
    obtain m r where st1: "st1 = (m, None, r)" "holding rq (in_state s) (r\<lparr>ru_machine := m\<rparr>)"
      and consent: "spent s \<longrightarrow> consented rq"
      using before_keeps[OF b start] None by (cases st1) auto
    let ?r = "r\<lparr>ru_machine := m\<rparr>"
    obtain res r1 where f: "f ?r = (res, r1)" by (cases "f ?r")
    note ok = phase[OF st1(2) consent, unfolded phase_ok_wp wp_def f prod.case answer_ok_def]
    have after: "between rq u (after_record (run_hooks env) (m', None, r1))"
      if "open_with rq (in_state u) (r1\<lparr>ru_machine := m'\<rparr>)" "spent u \<longrightarrow> consented rq" for m' u
      using after_keeps[OF that(1) refl, where env = env] that(2) any_machine_open by (auto simp: between_def)
    have stopped: "walk_ended rq (Held d) (after_record (run_hooks env) (m', None, r1))"
      "walk_ended rq (Halted name entry) (after_record (run_hooks env) (m', None, r1))"
      if "open_with rq P (r1\<lparr>ru_machine := m'\<rparr>)" for m' P d entry
      using after_keeps[OF that refl, where env = env]
        any_machine_open(1)[of rq P "walked_run (after_record (run_hooks env) (m', None, r1))"]
      by (auto simp: walk_ended_def)
    have moved: "open_with rq (in_state (rm_state m')) (r1\<lparr>ru_machine := m'\<rparr>)"
      if "open_with rq (in_state s) r1" "machine_step (ru_machine r1) m'" for m'
      using that sound_step[OF that(2), of rq] by (simp add: run_defs in_state_def)
    show ?thesis
    proof (cases res)
      case (Inl e)
      then show ?thesis
        using step b None st1 f ok thrown_open(2) by (auto simp: walk_phase_def walk_phase_of_def walk_ended_def)
    next
      case (Inr command)
      show ?thesis
      proof (cases command)
        case (Terminate c)
        then show ?thesis
          using step b None st1 f ok Inr by (auto simp: walk_phase_def walk_phase_of_def walk_ended_def)
      next
        case (Hold d)
        then have "open_with rq (in_state s) r1" using ok Inr by simp
        from stopped(1)[OF moved[OF this step_hold]] step b None st1 f Inr Hold show ?thesis
          by (auto simp: walk_phase_def walk_phase_of_def)
      next
        case (Earned cause)
        then have o: "open_with rq (in_state s) r1" and paid: "s = ELIGIBLE \<longrightarrow> consented rq" using ok Inr by simp_all
        obtain answer m' where adv: "advance_machine (ru_machine r1) k cause = (answer, m')"
          by (cases "advance_machine (ru_machine r1) k cause")
        have "machine_step (ru_machine r1) m'"
          using step_apply[of "ru_machine r1" "claim_write (ru_machine r1)" k cause] adv by (simp add: advance_machine_def)
        note o' = moved[OF o this]
        show ?thesis
        proof (cases answer)
          case (Rejected a entry)
          with stopped(2)[OF o'] step b None st1 f Inr Earned adv show ?thesis
            by (auto simp: walk_phase_def walk_phase_of_def)
        next
          case (Advanced a e)
          with advance_narrow[of "ru_machine r1" k cause a e m' rq] adv o
          have u: "TRANSITIONS s k = Some (rm_state m')" by (simp add: run_defs in_state_def)
          moreover from spent_after[OF u] paid consent have "spent (rm_state m') \<longrightarrow> consented rq" by blast
          moreover have "out = None \<and> st' = after_record (run_hooks env) (m', None, r1)"
            using step b None st1 f Inr Earned adv Advanced by (auto simp: walk_phase_def walk_phase_of_def)
          ultimately show ?thesis using after[OF o'] by auto
        qed
      qed
    qed
  qed
qed

text \<open>A list of phases each of which keeps its contract in the state the earlier ones lead to.\<close>

fun leads :: "RunRequest \<Rightarrow> 'w Env \<Rightarrow> LifecycleState \<Rightarrow> (string \<times> TransitionKind) list \<Rightarrow> bool" where
  "leads rq env s [] = True"
| "leads rq env s ((name, k) # phases) =
     ((\<forall>r. holding rq (in_state s) r \<longrightarrow> (spent s \<longrightarrow> consented rq) \<longrightarrow> phase_ok rq s (run_phase env name) r) \<and>
      (\<forall>u. TRANSITIONS s k = Some u \<longrightarrow> leads rq env u phases))"

lemma walk_keeps:
  assumes "leads rq env s phases" and "between rq s st"
    and "walk (run_hooks env)
      (map (\<lambda>(name, earns). \<lparr>ph_name = name, ph_earns = earns, ph_run = walk_phase_of (run_phase env name)\<rparr>) phases) st = (out, st')"
  shows "walk_ended rq out st'"
  using assms
proof (induction phases arbitrary: s st)
  case Nil
  then show ?case using any_machine_open by (auto simp: walk_ended_def between_def)
next
  case (Cons p phases)
  obtain name k where p: "p = (name, k)" by (cases p)
  let ?phase = "\<lparr>ph_name = name, ph_earns = k, ph_run = walk_phase_of (run_phase env name)\<rparr>"
  obtain ended st1 where w: "walk_phase (run_hooks env) ?phase st = (ended, st1)" by (cases "walk_phase (run_hooks env) ?phase st")
  have "holding rq (in_state s) r \<Longrightarrow> spent s \<longrightarrow> consented rq \<Longrightarrow> phase_ok rq s (run_phase env name) r" for r
    using Cons.prems(1) p by simp
  note k = walk_phase_keeps[OF w Cons.prems(2) this]
  show ?case
  proof (cases ended)
    case None
    then obtain u where u: "TRANSITIONS s k = Some u" "between rq u st1" using k by auto
    have "leads rq env u phases" using Cons.prems(1) p u(1) by simp
    from Cons.IH[OF this u(2)] show ?thesis using None Cons.prems(3) p w by (cases st1) simp
  next
    case (Some e)
    then show ?thesis using k Cons.prems p w by auto
  qed
qed

lemma outOfOrder_ok: "holding rq (in_state s) r \<Longrightarrow> phase_ok rq s (outOfOrder env phase) r"
  by (auto simp: outOfOrder_def intro!: phase_rules holding_open)

lemma with_authority_ok:
  assumes "holding rq (in_state s) r" and "\<And>authority. phase_ok rq s (f authority) r"
  shows "phase_ok rq s (with_authority env phase f) r"
  using assms outOfOrder_ok by (auto simp: with_authority_def intro!: phase_ok_look split: EstablishedRun.splits)

lemma declared_phases_lead:
  assumes "env_request env = rq"
  shows "leads rq env REQUESTED declared_phases"
proof -
  have "phase_ok rq VERIFYING
      (look ru_established (\<lambda>e. case e of
          At_observed authority observations \<Rightarrow> verifying env authority observations
        | _ \<Rightarrow> outOfOrder env phase)) r" if "holding rq (in_state VERIFYING) r" "consented rq" for r phase
    by (rule phase_ok_look)
      (use phase_verifying[OF that] outOfOrder_ok[OF that(1)] in \<open>auto split: EstablishedRun.split\<close>)
  then have "holding rq (in_state VERIFYING) r \<Longrightarrow> consented rq \<Longrightarrow> phase_ok rq VERIFYING (run_phase env ''verifying'') r" for r
    by (simp add: run_phase_def)
  moreover have "holding rq (in_state REQUESTED) r \<Longrightarrow> phase_ok rq REQUESTED (run_phase env ''requested'') r" for r
    by (simp add: run_phase_def phase_requested)
  moreover have "holding rq (in_state PROFILE_RESOLVED) r \<Longrightarrow>
      phase_ok rq PROFILE_RESOLVED (run_phase env ''profile-resolved'') r" for r
    by (simp add: run_phase_def with_authority_ok phase_profileResolved)
  moreover have "holding rq (in_state ELIGIBLE) r \<Longrightarrow> phase_ok rq ELIGIBLE (run_phase env ''eligible'') r" for r
    by (simp add: run_phase_def with_authority_ok phase_eligible[OF _ assms])
  moreover have "holding rq (in_state SANDBOX_STARTED) r \<Longrightarrow> consented rq \<Longrightarrow>
      phase_ok rq SANDBOX_STARTED (run_phase env ''sandbox-started'') r" for r
    by (simp add: run_phase_def with_authority_ok phase_sandboxStarted)
  moreover have "holding rq (in_state RUNNING) r \<Longrightarrow> consented rq \<Longrightarrow> phase_ok rq RUNNING (run_phase env ''running'') r" for r
    by (simp add: run_phase_def with_authority_ok phase_running)
  ultimately show ?thesis
    by (simp add: declared_phases_def withTerminals_def map_add_def)
qed

lemma wp_walk_phases:
  assumes "holding rq (in_state REQUESTED) r" and "env_request env = rq"
    and "\<And>ended r'. (case ended of Terminated c \<Rightarrow> closed rq c r' | _ \<Rightarrow> open_with rq any_machine r') \<Longrightarrow> Q ended r'"
    and "\<And>e r'. thrown rq e r' \<Longrightarrow> E e r'"
  shows "wp (walk_phases env) Q E r"
proof -
  let ?st = "(ru_machine r, None, r)"
  obtain out m threw r1 where w: "walk (run_hooks env) (run_phases env) ?st = (out, m, threw, r1)"
    by (cases "walk (run_hooks env) (run_phases env) ?st") auto
  have "between rq REQUESTED ?st" using assms(1) by (simp add: between_def holding_open)
  from walk_keeps[OF declared_phases_lead[OF assms(2)] this w[unfolded run_phases_def]]
  have e: "walk_ended rq out (m, threw, r1)" .
  let ?r = "r1\<lparr>ru_machine := m\<rparr>"
  have E: "holding rq any_machine ?r \<Longrightarrow> E e ?r" for e by (rule assms(4)[OF holding_thrown])
  show ?thesis
    using e assms(3)[where r' = ?r] E
    by (auto simp: wp_def walk_phases_def w Let_def walk_ended_def split: option.splits WalkOutcome.splits sum.splits)
qed

section \<open>After the walk\<close>

lemma open_thrown: "open_with rq P r \<Longrightarrow> open_run rq r" "thrown rq e r \<Longrightarrow> open_run rq r" "holding rq P r \<Longrightarrow> open_run rq r"
  by (simp_all add: run_defs)

lemma ends_wp: "ends rq f r \<Longrightarrow> wp f (closed rq) (\<lambda>_. open_run rq) r"
  unfolding ends_def by (erule wp_mono) (auto dest: open_thrown)

lemma settles_wp: "settles rq f r \<Longrightarrow> wp f (closed rq) E r"
  unfolding settles_def by (erule wp_mono) auto

lemma ends_rejection:
  assumes "open_with rq P r" shows "ends rq (terminateFromRejection env phase entry) r"
  using ends_finish[OF assms, of operational_fault] ends_terminateEarly[OF assms]
  by (auto simp: terminateFromRejection_def Let_def ends_def wp_look split: EstablishedRun.splits)

lemma closed_lost:
  assumes "open_with rq P r"
  shows "closed rq (run_conclusion env Ownership_lost No_record d (disarm_run (release_resources env (loseFence why r))))
    (disarm_run (release_resources env (loseFence why r)))"
proof -
  let ?r = "disarm_run (release_resources env (loseFence why r))"
  have o: "open_with rq P ?r" using loseFence_open[OF assms] by (simp add: release_keeps)
  have "\<not> owned ?r" by (simp add: release_keeps) (simp add: loseFence_def owned_def split: option.splits)
  with o show ?thesis by (auto simp: closed_def run_conclusion_def run_defs sound_walk)
qed

lemma wp_held:
  assumes "open_with rq P r" shows "wp (conclude_held env d) (closed rq) (\<lambda>_. open_run rq) r"
proof -
  have step: "wp (seq (flush_journal env) (\<lambda>_. conclude env No_record d)) (closed rq) (\<lambda>_. open_run rq) r'"
    if "open_with rq P r'" for r' :: "'a Run"
    unfolding wp_seq
    by (rule wp_flush[OF that]) (auto intro: ends_wp ends_conclude open_thrown)
  obtain answer w where n: "pt_now (env_ports env) (ru_world r) = (answer, w)" by (cases "pt_now (env_ports env) (ru_world r)")
  have o: "open_with rq P (r\<lparr>ru_world := w\<rparr>)" using assms by (simp add: run_defs)
  then have "wp (clock_now_run env) Q E r = (case answer of Inr x \<Rightarrow> Q x (r\<lparr>ru_world := w\<rparr>) | Inl e \<Rightarrow> E e (r\<lparr>ru_world := w\<rparr>))"
    for Q E by (simp add: wp_def clock_now_run_def n)
  with o step show ?thesis
    by (auto simp: conclude_held_def wp_seq[where f = "clock_now_run env"] wp_seq[where f = "set_run u" for u]
        wp_set_run intro: open_thrown split: sum.splits)
qed

lemma wp_walk_run:
  assumes "holding rq (in_state REQUESTED) r" and "env_request env = rq"
  shows "wp (walk_run env) (closed rq) (\<lambda>_. open_run rq) r"
proof -
  have after: "wp (after_walk env ended) (closed rq) (\<lambda>_. open_run rq) r'"
    if "case ended of Terminated c \<Rightarrow> closed rq c r' | _ \<Rightarrow> open_with rq any_machine r'" for ended and r' :: "'a Run"
  proof (cases ended)
    case (Lost phase reason)
    then show ?thesis using that closed_lost by (simp add: after_walk_def conclude_lost_def wp_simps)
  qed (use that in \<open>auto simp: after_walk_def wp_give intro: wp_held ends_wp ends_rejection ends_conclude\<close>)
  have "wp (walk_phases env) (\<lambda>ended. wp (after_walk env ended) (closed rq) (\<lambda>_. open_run rq))
      (\<lambda>e r'. thrown rq e r') r"
    by (rule wp_walk_phases[OF assms]) (auto intro: after)
  moreover have "wp (settleInterrupt env reason) (closed rq) (\<lambda>_. open_run rq) r'" if "thrown rq e r'" for e reason r'
    using that by (intro settles_wp settles_interrupt)
  moreover obtain res r1 where "walk_phases env r = (res, r1)" by (cases "walk_phases env r")
  ultimately show ?thesis
    by (cases res) (auto simp: wp_def walk_run_def open_thrown(2) split: fault.split)
qed

section \<open>The run\<close>

lemma crossed_closed: "crossed rq r r' \<Longrightarrow> closed rq c r \<Longrightarrow> closed rq c r'"
  by (auto simp: crossed_def closed_def owned_def)

lemma narrowed_table:
  "narrow (case narrowingOnly inherited supplied of Narrowed table \<Rightarrow> table | Widens _ \<Rightarrow> TRANSITIONS)"
proof (cases "narrowingOnly inherited supplied")
  case (Narrowed table)
  from narrowed_declares[OF this] show ?thesis by (simp add: Narrowed narrow_def declaredNext_def)
qed (simp add: narrow_def)

lemma own_run_holding:
  assumes "holding rq P r" and "fn_run_id fence = rq_run_id rq"
  shows "holding rq (in_state REQUESTED) (own_run controls clock fence r)"
  using assms narrowed_table[of "rn_inherited controls" "rn_transitions controls"]
  by (simp add: run_defs own_run_def sound_def in_state_def) (simp add: new_machine_def)

lemma settles_walkOwned:
  assumes "holding rq P r" and "env_request env = rq" and "fn_run_id (env_fence env) = rq_run_id rq"
  shows "settles rq (walkOwned controls clock env) r"
proof -
  have hold: "holding rq (in_state REQUESTED) r'" if "crossed rq (own_run controls clock (env_fence env) r) r'" for r'
    using own_run_holding[OF assms(1,3)] that by (simp add: crossed_fields)
  have recovering: "wp (recoverRun env' d) (closed rq) (\<lambda>_ _. False) r'" if "open_run rq r'" for env' d r'
    using settles_recoverRun[OF that] by (simp add: settles_def)
  have walking: "wp (walk_run env') (closed rq) (\<lambda>e. wp (recoverRun env'' (d e)) (closed rq) (\<lambda>_ _. False)) r'"
    if "crossed rq (own_run controls clock (env_fence env) r) r'" "env_request env' = rq" for env' env'' d r'
    using wp_walk_run[OF hold[OF that(1)] that(2)] by (rule wp_mono) (auto intro: recovering)
  show ?thesis
    unfolding settles_def walkOwned_def wp_seq wp_set_run Let_def
    by (rule wp_safe_now[where rq = rq])
      (auto simp: wp_recover assms(2) intro!: walking recovering open_thrown(3)[OF hold] split: narrowed.splits)
qed

lemma release_lease_closed:
  assumes "closed rq c r" shows "closed rq c (snd (release_lease env r))"
proof -
  have "wp (release_lease env) (\<lambda>_. closed rq c) (\<lambda>_. closed rq c) r"
    unfolding release_lease_def wp_simps
  proof (rule wp_open_window[where rq = rq])
    fix n r1
    assume c: "crossed rq r r1"
    have law: "lawful rq (call_record (Release_lease g) r1)" for g by (simp add: lawful_def call_record_def)
    show "wp (guarded (env\<lparr>env_boundary := Settlement_boundary n\<rparr>) (Release_lease (fn_generation (env_fence env)))
        (pt_release (env_ports env) (env_fence env))) (\<lambda>_. closed rq c) (\<lambda>_. closed rq c) r1"
    by (rule wp_guarded[OF law]) (auto intro: crossed_closed[OF crossed_trans[OF c] assms])
  qed
  then show ?thesis by (auto simp: wp_def split: prod.splits sum.splits)
qed

lemma wp_abandon:
  assumes "holding rq P r" and "\<And>r'. holding rq P r' \<Longrightarrow> Q () r'"
  shows "wp (abandonClaim env attempt) Q E r"
  unfolding abandonClaim_def wp_simps
  by (rule wp_open_window[where rq = rq], rule wp_guarded_hold[where P = P])
    (use assms in \<open>auto simp: crossed_fields\<close>)

lemma closed_unstarted: "holding rq P r \<Longrightarrow> closed rq (unstarted rq d) r"
  by (auto simp: closed_def unstarted_def run_defs)

lemma settles_claimed:
  assumes "holding rq any_machine r" and "env_request env = rq" and "fn_run_id (env_fence env) = rq_run_id rq"
  shows "settles rq (claimed_run controls clock env attempt) r"
proof -
  let ?claim = "guarded env (Claim_lease attempt) (pt_claim (env_ports env) (rq_run_id (env_request env)) attempt)"
  obtain res r1 where g: "?claim r = (res, r1)" by (cases "?claim r")
  have "lawful rq (call_record (Claim_lease attempt) r)" by (rule lawful_record[OF assms(1)]) auto
  from guarded_crossed[OF g this] have h: "holding rq any_machine r1" using assms(1) by (simp add: crossed_fields)
  then have d: "holding rq any_machine (disarm_run r1)" by (simp add: holding_def)
  show ?thesis
  proof (cases res)
    case (Inl error)
    have "wp (seq (set_run disarm_run) (\<lambda>_. seq (abandonClaim env attempt) (\<lambda>_. give (unstarted rq why))))
        (closed rq) (\<lambda>_ _. False) r1" for why
      unfolding wp_simps by (rule wp_abandon[OF d]) (rule closed_unstarted)
    then show ?thesis using g Inl assms(2) by (simp add: settles_def claimed_run_def wp_def)
  next
    case (Inr claim)
    show ?thesis
    proof (cases claim)
      case (Claimed generation)
      let ?env = "env\<lparr>env_fence := (env_fence env)\<lparr>fn_generation := int generation\<rparr>\<rparr>"
      obtain x r2 where w: "walkOwned controls clock ?env r1 = (x, r2)" by (cases "walkOwned controls clock ?env r1")
      have "settles rq (walkOwned controls clock ?env) r1"
        by (rule settles_walkOwned[OF h]) (simp_all add: assms(2,3))
      then show ?thesis
        using g Inr Claimed w release_lease_closed
        by (auto simp: settles_def claimed_run_def wp_def Let_def split: sum.splits)
    next
      case (Claim_refused reason detail)
      then show ?thesis
        using g Inr closed_unstarted[OF d] assms(2)
        by (simp add: settles_def claimed_run_def wp_def seq_def set_run_def give_def)
    qed
  qed
qed

lemma begin_attempt_holding:
  fixes w :: 'w
  shows "holding request any_machine (begin_attempt ports controls request clock w)"
proof -
  have "holding request any_machine (fresh_run request clock d w')" for d and w' :: 'w
    by (simp add: run_defs fresh_run_def sound_def any_machine_def narrow_def) (simp add: new_machine_def)
  then show ?thesis by (simp add: begin_attempt_def split: prod.splits)
qed

text \<open>Every run resolves, and what it concludes is closed.\<close>

lemma run_closed:
  "\<exists>c r. run ports library controls clock uuid request w = (Inr c, r) \<and> closed request c r"
proof -
  let ?run = "run ports library controls clock uuid request w"
  have "settles request (claimed_run controls clock (claim_env ports library controls request)
      (template [rq_run_id request, '':'', uuid])) (begin_attempt ports controls request clock w)"
    by (rule settles_claimed[OF begin_attempt_holding]) (simp_all add: claim_env_def)
  then have "case ?run of (Inl e, r) \<Rightarrow> False | (Inr c, r) \<Rightarrow> closed request c r"
    by (simp add: settles_def run_def wp_def)
  then show ?thesis by (cases ?run) (auto split: sum.splits)
qed

lemma run_resolved:
  obtains c r where "run ports library controls clock uuid request w = (Inr c, r)" "closed request c r"
  using run_closed[of ports library controls clock uuid request w] by blast

lemma closed_kind:
  assumes "closed rq c r"
  shows "(cn_kind c = Concluded_terminal) = (cn_produced c \<noteq> No_record)"
    "(cn_kind c = Ownership_lost) = (ru_fenceLost r \<noteq> None)"
    "cn_kind c = Concluded_terminal \<Longrightarrow> isTerminal (cn_state c)"
    "cn_kind c = Concluded_held \<Longrightarrow> \<not> isTerminal (cn_state c)"
    "cn_kind c = Concluded_held \<Longrightarrow> outbox_isEmpty (ru_outbox r)"
    "ru_acknowledged r \<noteq> [] \<Longrightarrow> cn_produced c = Bundle_record"
  using assms by (simp_all only: closed_def owned_def simp_thms not_not)

lemma closed_written:
  assumes "closed rq c r"
  shows "case cn_produced c of
      Bundle_record \<Rightarrow> ru_acknowledged r \<noteq> []
    | Early_record \<Rightarrow> ru_written r \<noteq> [] \<and> ru_acknowledged r = []
    | No_record \<Rightarrow> ru_acknowledged r = []"
proof (cases "cn_produced c")
  case Early_record
  then have "ru_recorded r \<noteq> Bundle_record" "ru_written r \<noteq> []" using assms by (auto simp: closed_def)
  then show ?thesis using assms Early_record by (auto simp: closed_def)
qed (use assms in \<open>auto simp: closed_def\<close>)

lemma lawful_due:
  "lawful rq c \<Longrightarrow>
   due_in (ca_call c) (ca_state c) \<and> (case ca_call c of Commit_run _ \<Rightarrow> ca_pending c = 0 | _ \<Rightarrow> True)"
  by (cases "ca_call c") (simp_all add: lawful_def)

lemma lawful_commit:
  "lawful rq c \<Longrightarrow>
   (case ca_call c of Commit_run _ \<Rightarrow> ca_acknowledged c = 0 \<and> ca_pending c = 0 | _ \<Rightarrow> True)"
  by (cases "ca_call c") (simp_all add: lawful_def)

lemma lawful_admitted:
  "lawful rq c \<Longrightarrow>
   (case ca_call c of
      Apply_back a \<Rightarrow>
        (case ca_established c of
           At_observed authority seen \<Rightarrow>
             (case eps_path_policy (au_snapshots authority) of
                None \<Rightarrow> False
              | Some policy \<Rightarrow>
                  ab_changes a = obs_observed seen \<and>
                  proceeds (decideMaterialization (as_supplied (Captured_ok policy)) (Some (ab_changes a))
                    (protected_sources (au_snapshots authority))) \<and>
                  ab_authorized_by a =
                    \<lparr>py_contract_id = ci_contract_id (cp_contract policy), py_digest = cp_digest policy\<rparr>)
         | _ \<Rightarrow> False)
    | _ \<Rightarrow> True)"
  by (cases "ca_call c") (simp_all add: lawful_def entitled_def)

section \<open>What every run satisfies\<close>

text \<open>
  C4: A run always resolves: whatever the ports answer, throw, delay or never answer, at whatever
  moment the run is cancelled or times out, and whatever table and request it is given,
  \<^verbatim>\<open>Runner.run\<close> returns a conclusion and throws nothing.
\<close>

theorem run_always_resolves:
  "\<exists>c r. run ports library controls clock uuid request w = (Inr c, r)"
  using run_closed[of ports library controls clock uuid request w] by blast

text \<open>
  C1: A run never asks for a commit once one was acknowledged: every commit it asks for is asked
  with none acknowledged and no fact of the journal pending, so at most one is acknowledged, and the
  run reports a sealed bundle exactly when one was. The conclusion is then the terminal that was
  committed, its record ends with the committed transitions, and no fact of the journal is pending.
  A commit whose answer was lost may be asked for again, under another terminal and identity; that
  no more than one of those takes effect is the finalization's own contract, stated in
  \<^verbatim>\<open>Publication\<close>.
\<close>

theorem run_commits_only_until_acknowledged:
  "case run ports library controls clock uuid request w of
     (Inr c, r) \<Rightarrow>
       list_all (\<lambda>call. case ca_call call of
           Commit_run _ \<Rightarrow> ca_acknowledged call = 0 \<and> ca_pending call = 0
         | _ \<Rightarrow> True) (ru_calls r) \<and>
       length (ru_acknowledged r) = (if cn_produced c = Bundle_record then 1 else 0) \<and>
       list_all (\<lambda>q. cn_state c = cq_terminal q \<and> isTerminal (cn_state c) \<and>
           suffix (cq_transitions q) (cn_transitions c) \<and> outbox_isEmpty (ru_outbox r))
         (ru_acknowledged r)
   | _ \<Rightarrow> False"
proof -
  obtain c r where r: "run ports library controls clock uuid request w = (Inr c, r)" "closed request c r"
    by (rule run_resolved)
  then have "list_all (lawful request) (ru_calls r)" by (simp add: closed_def)
  then have "list_all (\<lambda>call. case ca_call call of
      Commit_run _ \<Rightarrow> ca_acknowledged call = 0 \<and> ca_pending call = 0 | _ \<Rightarrow> True) (ru_calls r)"
    by (rule list.pred_mono_strong) (erule lawful_commit)
  moreover from r(2) have "isTerminal (cn_state c)" if "ru_acknowledged r \<noteq> []"
    using closed_kind(1,3,6)[of request c r] that by simp
  ultimately show ?thesis
    using r by (auto simp: closed_def)
qed

text \<open>
  C2: Once a run knows that it lost its fence it asks its ports for nothing more, except to
  release its lease: no write, no commit, no cleanup of a successor's resources.
\<close>

theorem run_is_silent_after_losing_its_fence:
  "list_all (\<lambda>c. of_lease (ca_call c))
     (filter ca_lost (ru_calls (snd (run ports library controls clock uuid request w))))"
proof -
  obtain c r where "run ports library controls clock uuid request w = (Inr c, r)" "closed request c r"
    by (rule run_resolved)
  then show ?thesis by (auto simp: closed_def lawful_def list_all_iff)
qed

text \<open>
  C3: Nothing is spent without consent: unless the request carries a consent record granted for
  this very run, no workspace is provisioned or applied back, no session is prepared or started, no
  event is emitted, and no adapter, gate or observer is called.
\<close>

theorem run_spends_only_with_consent:
  "if (case rq_consent request of
         None \<Rightarrow> False
       | Some c \<Rightarrow> co_run_id c = rq_run_id request \<and> co_granted c)
   then True
   else filter spends (map ca_call (ru_calls (snd (run ports library controls clock uuid request w)))) = []"
proof -
  obtain c r where "run ports library controls clock uuid request w = (Inr c, r)" "closed request c r"
    by (rule run_resolved)
  then show ?thesis
    unfolding consented_def[symmetric]
    by (auto simp: closed_def lawful_def list_all_iff entitled_def filter_empty_conv)
qed

text \<open>
  C6: Every effect happens in its own state of the lifecycle: authority is read when requested
  and again when verifying, resources are claimed when eligible, the base is observed in the started
  sandbox, the adapter and the gates run when running, the changes are applied back when verifying,
  and a commit is asked for before any terminal state, with no fact of the journal pending.
\<close>

theorem run_calls_each_port_in_its_state:
  "list_all (\<lambda>c. due_in (ca_call c) (ca_state c) \<and>
       (case ca_call c of Commit_run _ \<Rightarrow> ca_pending c = 0 | _ \<Rightarrow> True))
     (ru_calls (snd (run ports library controls clock uuid request w)))"
proof -
  obtain c r where r: "run ports library controls clock uuid request w = (Inr c, r)" "closed request c r"
    by (rule run_resolved)
  then have "list_all (lawful request) (ru_calls r)" by (simp add: closed_def)
  then show ?thesis unfolding r(1) snd_conv by (rule list.pred_mono_strong) (erule lawful_due)
qed

text \<open>
  C7: What escapes the isolated workspace is what the captured path policy admits: every
  apply-back a run asks for is asked with the run's authority captured and its workspace observed,
  carries exactly the observed changes, which the materialization decision under the path policy of
  that authority and the protected sources of its snapshots admits, and names that policy and its
  digest.
\<close>

theorem run_applies_only_what_the_policy_admits:
  "list_all (\<lambda>c. case ca_call c of
       Apply_back a \<Rightarrow>
         (case ca_established c of
            At_observed authority seen \<Rightarrow>
              (case eps_path_policy (au_snapshots authority) of
                 None \<Rightarrow> False
               | Some policy \<Rightarrow>
                   ab_changes a = obs_observed seen \<and>
                   proceeds (decideMaterialization (as_supplied (Captured_ok policy)) (Some (ab_changes a))
                     (protected_sources (au_snapshots authority))) \<and>
                   ab_authorized_by a =
                     \<lparr>py_contract_id = ci_contract_id (cp_contract policy), py_digest = cp_digest policy\<rparr>)
          | _ \<Rightarrow> False)
     | _ \<Rightarrow> True)
     (ru_calls (snd (run ports library controls clock uuid request w)))"
proof -
  obtain c r where r: "run ports library controls clock uuid request w = (Inr c, r)" "closed request c r"
    by (rule run_resolved)
  then have "list_all (lawful request) (ru_calls r)" by (simp add: closed_def)
  then show ?thesis unfolding r(1) snd_conv by (rule list.pred_mono_strong) (erule lawful_admitted)
qed

text \<open>
  C5: The conclusion of a run is honest: it reports a bundle exactly when a commit was
  acknowledged, and an early termination record only when the write of one was acknowledged; its
  kind is terminal exactly when it reports such a record, and then the state is terminal; it is held
  only in a state that is not, with nothing pending; and it reports lost ownership exactly when the
  run knows its fence to be lost.
\<close>

theorem run_conclusion_is_honest:
  "case run ports library controls clock uuid request w of
     (Inr c, r) \<Rightarrow>
       (cn_kind c = Concluded_terminal) = (cn_produced c \<noteq> No_record) \<and>
       (cn_kind c = Ownership_lost) = (ru_fenceLost r \<noteq> None) \<and>
       (case cn_kind c of
          Concluded_terminal \<Rightarrow> isTerminal (cn_state c)
        | Concluded_held \<Rightarrow> isTerminal (cn_state c) = False \<and> outbox_isEmpty (ru_outbox r)
        | _ \<Rightarrow> True) \<and>
       (case cn_produced c of
          Bundle_record \<Rightarrow> ru_acknowledged r \<noteq> []
        | Early_record \<Rightarrow> ru_written r \<noteq> [] \<and> ru_acknowledged r = []
        | No_record \<Rightarrow> ru_acknowledged r = [])
   | _ \<Rightarrow> False"
proof -
  obtain c r where r: "run ports library controls clock uuid request w = (Inr c, r)" "closed request c r"
    by (rule run_resolved)
  note k = closed_kind[OF r(2)]
  have "case cn_kind c of
      Concluded_terminal \<Rightarrow> isTerminal (cn_state c)
    | Concluded_held \<Rightarrow> isTerminal (cn_state c) = False \<and> outbox_isEmpty (ru_outbox r)
    | _ \<Rightarrow> True"
  proof (cases "cn_kind c")
    case Concluded_held
    with k(4,5) show ?thesis by (simp del: isTerminal_iff)
  qed (use k(3) in simp_all)
  with k(1,2) closed_written[OF r(2)] show ?thesis unfolding r(1) prod.case sum.case by (intro conjI)
qed

text \<open>
  C8: The transitions a conclusion reports are a walk of the declared lifecycle, of this run and
  from \<^verbatim>\<open>REQUESTED\<close> to the reported state, even under a supplied table; and a completed run took
  every progress transition once and in order.
\<close>

theorem run_record_is_a_lifecycle_walk:
  "case run ports library controls clock uuid request w of
     (Inr c, r) \<Rightarrow>
       walks TRANSITIONS (rq_run_id request) REQUESTED (cn_transitions c) (cn_state c) \<and>
       (if cn_state c = Terminal COMPLETED then map te_kind (cn_transitions c) = remaining REQUESTED else True)
   | _ \<Rightarrow> False"
proof -
  obtain c r where "run ports library controls clock uuid request w = (Inr c, r)" "closed request c r"
    by (rule run_resolved)
  then show ?thesis using walks_to_completed by (auto simp: closed_def)
qed

end
