(* ===== verification/RunGap.thy ===== *)
theory RunGap
  imports RunConduct
begin

text \<open>
  Where the settlement of a run says more than is durable: the conclusion of an interrupted
  settlement, \<^verbatim>\<open>incomplete\<close> of \<^verbatim>\<open>orchestration/settle.ts\<close>, does not consult the outbox.
\<close>

text \<open>A journal that never answers keeps every pending fact pending, and the run in its state.\<close>

definition mute_journal :: "'w Env \<Rightarrow> bool" where
  "mute_journal env \<longleftrightarrow> pt_append (env_ports env) = (\<lambda>fence entry w. (Abort_won, w))"

definition unwritten :: "RunRequest \<Rightarrow> 'w Run \<Rightarrow> bool" where
  "unwritten rq r \<longleftrightarrow>
     holding rq any_machine r \<and> isTerminal (rm_state (ru_machine r)) \<and> ru_recorded r = Early_record \<and>
     ob_pending (ru_outbox r) \<noteq> []"

lemma mute_call:
  assumes "mute_journal env" and "guarded env (Append_entry e) (pt_append (env_ports env) f e) r = (res, r')"
  shows "\<exists>error. res = Inl error"
  using assms
  by (auto simp: mute_journal_def guarded_def make_call_def boundary_leave_def commit_leave_def
      split: crossing.splits prod.splits option.splits if_splits)

lemma recorded_pending: "ob_pending (fold (\<lambda>x. outbox_record (f x)) xs b) \<noteq> []" if "ob_pending b \<noteq> []"
  using that by (induction xs arbitrary: b) (simp_all add: outbox_record_def)

lemma drained_pending:
  assumes "drainMachine m b = (m', b')" and "ob_pending b \<noteq> []" shows "ob_pending b' \<noteq> []"
  using assms recorded_pending[OF recorded_pending[OF assms(2)]]
  by (auto simp: drainMachine_def Let_def split: prod.splits)

lemma mute_flush:
  fixes r :: "'w Run"
  assumes mute: "mute_journal env" and r: "unwritten rq r"
  shows "\<exists>res r'. flush_journal env r = (res, r') \<and> unwritten rq r'"
proof -
  obtain m b where d: "drainMachine (ru_machine r) (ru_outbox r) = (m, b)" by (cases "drainMachine (ru_machine r) (ru_outbox r)")
  have b: "ob_pending b \<noteq> []" using drained_pending[OF d] r by (simp add: unwritten_def)
  have hold: "holding rq any_machine r" using r by (simp add: unwritten_def)
  obtain e es where es: "ob_pending b = e # es" using b by (cases "ob_pending b") auto
  obtain res pend threw r1 where f: "flush_entries (append_through env) (ob_pending b) (None, r) = (res, pend, threw, r1)"
    by (cases "flush_entries (append_through env) (ob_pending b) (None, r)") auto
  obtain ans r2 where g: "guarded env (Append_entry e) (pt_append (env_ports env) (env_fence env) e) r = (ans, r2)"
    by (cases "guarded env (Append_entry e) (pt_append (env_ports env) (env_fence env) e) r")
  from mute_call[OF mute g] obtain error where "ans = Inl error" by blast
  with f es append_through_answer[OF g] have res: "res = Flush_fault" "pend = e # es" by simp_all
  note c = conjunct1[OF flush_entries_crossed[OF f hold]]
  let ?r' = "r1\<lparr>ru_fenceLost := None, ru_machine := m, ru_outbox := b\<lparr>ob_pending := pend\<rparr>\<rparr>"
  have owns: "ru_fenceLost r = None" using r by (simp add: unwritten_def run_defs)
  have "\<exists>x. flush_journal env r = (x, ?r')"
    using d f res owns by (cases threw) (simp_all add: flush_journal_def flushJournal_def Let_def)
  moreover have "unwritten rq ?r'"
  proof -
    have core: "core m = core (ru_machine r)" using core_drain[OF d] by simp
    then have "sound rq m = sound rq (ru_machine r)" by (metis sound_core)
    then show ?thesis
      using r crossed_fields(13)[OF c] crossed_fields(1,4,5,6)[OF c] core_eq(1)[OF core] res(2) 
      by (simp add: unwritten_def run_defs any_machine_def)
  qed
  ultimately show ?thesis by blast
qed

lemma advance_stays: "isTerminal (rm_state m) \<Longrightarrow> rm_state (snd (advance_machine m k why)) = rm_state m"
  by (auto simp: advance_machine_def apply_claim_def claim_write_def reject_def Let_def)

lemma reach_stays:
  assumes "isTerminal (rm_state m)" shows "rm_state (snd (reachTerminal k why m)) = rm_state m"
proof -
  obtain x m1 where 1: "advance_machine m k why = (x, m1)" by (cases "advance_machine m k why")
  have s1: "rm_state m1 = rm_state m" using advance_stays[OF assms, of k why] by (simp add: 1)
  have "rm_state m2 = rm_state m" if "advance_machine m1 k' why' = (y, m2)" for k' why' y m2
    using advance_stays[of m1 k' why'] assms s1 by (simp add: that)
  with s1 show ?thesis by (auto simp: reachTerminal_def Let_def 1 split: prod.splits)
qed

lemma unwritten_reach:
  assumes "unwritten rq r" and "\<And>reached r'. unwritten rq r' \<Longrightarrow> Q reached r'"
  shows "wp (reach_terminal k why) Q E r"
proof -
  obtain reached m where t: "reachTerminal k why (ru_machine r) = (reached, m)" by (cases "reachTerminal k why (ru_machine r)")
  have "rm_state m = rm_state (ru_machine r)" "sound rq m"
    using reach_stays[of "ru_machine r" k why] reachTerminal_sound[of rq "ru_machine r" k why] t assms(1)
    by (simp_all add: unwritten_def run_defs)
  then have "unwritten rq (r\<lparr>ru_machine := m\<rparr>)" using assms(1) by (simp add: unwritten_def run_defs any_machine_def)
  with assms(2) show ?thesis by (simp add: reach_terminal_def wp_simps t)
qed

lemma unwritten_release: "unwritten rq r \<Longrightarrow> unwritten rq (release_resources env r)"
  using crossed_fields[OF release_crossed[of rq r env]]
  by (simp add: unwritten_def holding_def release_keeps) (simp add: let_go_def)

text \<open>
  C9: A conclusion can claim a terminal record whose journal is not durable: when the settlement
  of a run is interrupted after its early termination record was written, and the journal never
  answers, the run concludes terminal with that record although facts of its journal are pending.
\<close>

theorem interrupted_settlement_overclaims:
  assumes "mute_journal env" and "unwritten rq r"
  shows "\<exists>c r'. interruptFallback env reason detail error r = (Inr c, r') \<and> cn_kind c = Concluded_terminal \<and>
    cn_produced c = Early_record \<and> outbox_isEmpty (ru_outbox r') = False"
proof -
  let ?over = "\<lambda>c r'. cn_kind c = Concluded_terminal \<and> cn_produced c = Early_record \<and> outbox_isEmpty (ru_outbox r') = False"
  have over: "cn_kind (incomplete env intended d r') = Concluded_terminal"
    "cn_produced (incomplete env intended d r') = Early_record" "outbox_isEmpty (ru_outbox r') = False"
    if "unwritten rq r'" for intended d and r' :: "'a Run"
    using that by (auto simp: unwritten_def run_defs incomplete_def run_conclusion_def outbox_isEmpty_def)
  have flush: "wp (recover (flush_journal env) (\<lambda>_. give ())) Q E r'"
    if "unwritten rq r'" "\<And>r''. unwritten rq r'' \<Longrightarrow> Q () r''" for Q E r'
    using mute_flush[OF assms(1) that(1)] that(2) by (auto simp: wp_def recover_def give_def split: prod.splits sum.splits)
  have owns: "ru_fenceLost r = None" using assms(2) by (simp add: unwritten_def run_defs)
  have "wp (interruptFallback env reason detail error) ?over (\<lambda>_ _. False) r"
    unfolding interruptFallback_def wp_seq[where f = "look f g" for f g] wp_look owns
    by (auto simp: wp_seq wp_give wp_set_run conclude_incomplete_def wp_look over[OF unwritten_release] intro!: unwritten_reach[OF assms(2)] flush)
  then show ?thesis by (auto simp: wp_def split: prod.splits sum.splits)
qed

text \<open>A world in which no port answers, and a refused run in it whose record is written.\<close>

definition deaf_ports :: "unit Ports" where
  "deaf_ports =
     \<lparr>pt_time = Pair 0, pt_firings = Pair [], pt_probe = Pair No_probe, pt_now = Pair (Inr ''t''),
      pt_claim = (\<lambda>_ _. Pair Abort_won), pt_abandon = (\<lambda>_ _. Pair Abort_won), pt_renew = (\<lambda>_. Pair Abort_won),
      pt_release = (\<lambda>_. Pair Abort_won), pt_read = (\<lambda>_ _ _. Pair Abort_won), pt_append = (\<lambda>_ _. Pair Abort_won),
      pt_provision = (\<lambda>_ _ _. Pair Abort_won), pt_apply = (\<lambda>_. Pair Abort_won), pt_discard = (\<lambda>_ _. Pair Abort_won),
      pt_prepare = (\<lambda>_. Pair Abort_won), pt_start = (\<lambda>_ _. Pair Abort_won), pt_interrupt = (\<lambda>_ _ _. Pair Abort_won),
      pt_close = (\<lambda>_ _. Pair Abort_won), pt_base = (\<lambda>_ _. Pair Abort_won), pt_observe = (\<lambda>_ _. Pair Abort_won),
      pt_artifacts = (\<lambda>_ _. Pair Abort_won), pt_gate = (\<lambda>_. Pair Abort_won), pt_invoke = (\<lambda>_. Pair Abort_won),
      pt_emit = (\<lambda>_ _ _. Pair Abort_won), pt_write = (\<lambda>_ _ _. Pair Abort_won), pt_commit = (\<lambda>_. Pair Abort_won)\<rparr>"

definition sample_request :: RunRequest where
  "sample_request =
     \<lparr>rq_run_id = ''run-1'', rq_requester = sample_principal, rq_profile_ref = None,
      rq_input = \<lparr>ri_task = ''task'', ri_parameters = []\<rparr>, rq_gates = [], rq_workspace_root = ''/w'',
      rq_pinned_base = zero_digest, rq_artifact_paths = [], rq_claimed_changes = No_claims, rq_consent = None\<rparr>"

definition sample_platform_library :: Library where
  "sample_platform_library =
     \<lparr>lb_platform = sample_platform sample_sha, lb_date_ms = (\<lambda>_. None), lb_early_issues = (\<lambda>_. []),
      lb_event_issues = (\<lambda>_. []), lb_type_error = ''TypeError'', lb_patience = 0\<rparr>"

definition refused_run :: "unit Run" where
  "refused_run =
     (let r = fresh_run sample_request run_clock (new_deadline 0) () in
      r\<lparr>ru_machine := snd (advance_machine (ru_machine r) refuse_run ''no profile''), ru_recorded := Early_record,
        ru_written := [(''run-1#g0#early_termination_record'', refused_record)],
        ru_outbox := outbox_record
          (Hold_fact \<lparr>jh_state = REQUESTED, jh_transition = ''refuse'', jh_detail = ''no profile'', jh_at = ''t''\<rparr>)
          (ru_outbox r)\<rparr>)"

lemma interrupted_settlement_overclaims_witness:
  "\<exists>c r'. interruptFallback
      (claim_env deaf_ports sample_platform_library
        \<lparr>rn_transitions = None, rn_inherited = (\<lambda>_. None), rn_deadline_ms = None, rn_cancelAfterMs = None\<rparr> sample_request)
      Timeout ''the run was timed out'' Settlement_expired refused_run = (Inr c, r') \<and>
    cn_kind c = Concluded_terminal \<and> cn_produced c = Early_record \<and> outbox_isEmpty (ru_outbox r') = False"
proof (rule interrupted_settlement_overclaims)
  show "mute_journal (claim_env deaf_ports sample_platform_library
        \<lparr>rn_transitions = None, rn_inherited = (\<lambda>_. None), rn_deadline_ms = None, rn_cancelAfterMs = None\<rparr> sample_request)"
    by (simp add: mute_journal_def claim_env_def deaf_ports_def fun_eq_iff)
  let ?m = "new_machine ''run-1'' run_clock TRANSITIONS"
  have "sound sample_request ?m" by (simp add: sound_def narrow_def) (simp add: new_machine_def sample_request_def)
  from sound_advance[OF this] have "sound sample_request (snd (advance_machine ?m refuse_run ''no profile''))" .
  moreover have "isTerminal (rm_state (snd (advance_machine ?m refuse_run ''no profile'')))" by code_simp
  moreover have "rq_run_id sample_request = ''run-1''" by (simp add: sample_request_def)
  ultimately show "unwritten sample_request refused_run"
    by (simp add: unwritten_def refused_run_def fresh_run_def run_defs any_machine_def outbox_record_def Let_def)
qed

end
