(* ===== verification/Spec2Isabelle.thy ===== *)
theory Spec2Isabelle
  imports
    Prelude
    Manifest
    Decision
    Paths
    Authority
    Workspace
    Materialize
    Eligibility
    Reconcile
    Contracts
    Lifecycle
    Walk
    Fence
    Journal
    Lease
    EventSink
    Outcome
    Evidence
    Verify
    Acquisition
    Scheduling
    Records
    Adapters
    EvidenceSink
    Finalization
    Publication
    Emitter
    Deadline
    RunScope
    Terminate
    Phases
    Runner
    RunLogic
    Conduct
    PhaseConduct
    RunConduct
    RunGap
begin

text \<open>
  A model of the trusted core and the run orchestration of the secure home agent platform, and of
  the release manifest its knowledge is pinned by.

  The program runs an untrusted coding agent under captured authority. Two packages carry its
  logic. \<^verbatim>\<open>packages/runner-core\<close> decides, as pure functions, whether authority bytes may be
  used, whether a run may start, what changed in its workspace, and whether the change may be
  materialized. \<^verbatim>\<open>services/runner-control\<close> drives one run through its lifecycle: it claims a
  lease, walks the phases of the machine, records every fact in a journal and an event stream,
  and finalizes the run with one commit. Their shapes come from \<^verbatim>\<open>packages/contracts\<close> and
  \<^verbatim>\<open>packages/events\<close>.

  Theories, in the order they build on each other (paths under \<^verbatim>\<open>runner-core/src\<close> first):

  \<^item> \<open>Prelude\<close>: JavaScript numbers, strings and template texts, \<^verbatim>\<open>canonicalSort\<close>, generic lemmas.
  \<^item> \<open>Decision\<close> (\<^verbatim>\<open>decision/decision.ts\<close>): refusals as data; the coercion of an untyped refusal
    always yields one of the declared codes.
  \<^item> \<open>Paths\<close> (\<^verbatim>\<open>primitives/paths.ts\<close>): normalization is sound and idempotent up to one scheme
    defect; the prefix test is the component-wise prefix.
  \<^item> \<open>Authority\<close> (\<^verbatim>\<open>authority/\<close>, \<^verbatim>\<open>policy/bounds.ts\<close>): capture succeeds exactly on valid bytes of
    the expected contract; bounds; base identities.
  \<^item> \<open>Workspace\<close>, \<open>Materialize\<close>, \<open>Eligibility\<close>, \<open>Reconcile\<close>: the decisions about observed changes
    (\<^verbatim>\<open>workspace/derive.ts\<close>, \<^verbatim>\<open>policy/materialize.ts\<close>), the start of a run
    (\<^verbatim>\<open>eligibility/decide.ts\<close>) and the agent's claims (\<^verbatim>\<open>reconciliation/reconcile.ts\<close>), each
    with an exact characterization of when it proceeds.
  \<^item> \<open>Contracts\<close>: the validated shapes; a shape that validates cannot claim what did not happen.
  \<^item> \<open>Outcome\<close>, \<open>Evidence\<close>, \<open>Verify\<close> (\<^verbatim>\<open>outcome\<close>, \<^verbatim>\<open>evidence\<close>, \<^verbatim>\<open>verification\<close>): what the
    terminal observations establish, when a bundle is constructed and sealed, and its independent
    verification. Claims reach only the claim fields, and what is constructed from a consistent
    surface is verified.

  Under \<^verbatim>\<open>runner-control/src\<close>:

  \<^item> \<open>Lifecycle\<close>, \<open>Walk\<close> (\<^verbatim>\<open>lifecycle/\<close>): the transition table, the run machine and the walk over
    phases. The record of a machine is a walk of the table, terminal states absorb, only the full
    walk completes.
  \<^item> \<open>Fence\<close>, \<open>Journal\<close>, \<open>Lease\<close> (\<^verbatim>\<open>run-state/\<close>): the fencing ledger, commit visibility, the
    journal with its outbox and flush loop, the lease. Interfaces are locales
    (\<open>fenced_resource\<close>, \<open>commit_visibility\<close>, \<open>journal_port\<close>, \<open>run_lease\<close>), each interpreted on
    the model of the code; the client's lemmas are proved inside them.
  \<^item> \<open>EventSink\<close>, \<open>EvidenceSink\<close>, \<open>Adapters\<close> (\<^verbatim>\<open>adapters/deterministic.ts\<close>, \<^verbatim>\<open>execution/\<close>,
    \<^verbatim>\<open>workspace/\<close>): the recording sinks with one identity authority over ordinary and staged
    writes, and the in-memory session, workspace, execution, adapter and clock. What was
    acknowledged is permanent; a dispossessed holder reaches no resource.
  \<^item> \<open>Acquisition\<close>, \<open>Scheduling\<close>, \<open>Records\<close> (\<^verbatim>\<open>acquisition/\<close>, \<^verbatim>\<open>scheduling/\<close>, \<^verbatim>\<open>consent/\<close>,
    \<^verbatim>\<open>finalization/\<close>): tokens spent at most once and the epoch that reads, journals and captures
    the sources; gate plans, dispositions and consent; the governed records and the ledger that
    admits the seal last.
  \<^item> \<open>Finalization\<close>, \<open>Publication\<close> (\<^verbatim>\<open>adapters/finalization.ts\<close>): the all-or-none terminal commit,
    one operation per segment between two awaits, and its guarantees under any interleaving of
    attempts.
  \<^item> \<open>Emitter\<close> (\<^verbatim>\<open>events/emitter.ts\<close>): numbering and emission of run events; the loop is a
    \<^verbatim>\<open>partial_function\<close> and is proved to return against the sink.
  \<^item> \<open>Deadline\<close> (\<^verbatim>\<open>orchestration/deadline.ts\<close>, \<^verbatim>\<open>controls.ts\<close>, \<^verbatim>\<open>effects.ts\<close>): the run deadline, the
    settlement and recovery windows with an explicit clock, the effect classes, the narrowing of
    a supplied table.
  \<^item> \<open>RunScope\<close>, \<open>Terminate\<close>, \<open>Phases\<close>, \<open>Runner\<close> (\<^verbatim>\<open>run/scope.ts\<close>, \<^verbatim>\<open>orchestration/\<close>): the run
    itself, as actions on its state that return or throw. \<open>RunScope\<close> has the state, the ports and
    the guarded call; \<open>Terminate\<close> every way a run ends; \<open>Phases\<close> the six phases; \<open>Runner\<close> the walk,
    the settlement of an interrupted run, the recovery of a failed one, and \<^verbatim>\<open>Runner.run\<close>.
  \<^item> \<open>RunLogic\<close>, \<open>Conduct\<close>, \<open>PhaseConduct\<close>, \<open>RunConduct\<close>: a weakest-precondition calculus for these
    actions, one contract per operation, and what every run satisfies whatever its ports answer:
    it resolves, asks for no commit once one was acknowledged, spends only with consent, is silent
    once it lost its fence, calls each port only in its state, applies back only what the policy it
    captured admits, and concludes honestly. These properties are stated over a record of the run
    that no operation reads: every call with the state, the authority and the pending facts it was
    made with, the commits and the early records that were acknowledged. \<open>RunGap\<close> shows the one
    conclusion that claims more than is durable.

  Beside them:

  \<^item> \<open>Manifest\<close> (\<^verbatim>\<open>packages/knowledge-toolchain/src/set-release.ts\<close>): the canonical bytes of an
    immutable set release, the strict parser and the canonicity check. What is written is read back,
    the check accepts exactly what is written, the bytes are the identity of the release; and the
    parser alone reads more than that.

  Conventions. Untyped JavaScript values are datatypes with a constructor per case the code
  distinguishes. A refusal, a fault and a thrown error are values. Effects are explicit state
  passing; asynchronous ports are functions that answer and return the new state, and what
  other callers do in between is a list of further operations on that state. In the run the
  ports are functions on an arbitrary world, which also decides what time it is, which timers fire
  during a call and whether a call answers, rejects or loses to the abort. Recursion is
  structural everywhere except where a loop asks a port again. Such a loop follows the queue it
  drains; the emission loop of a run is cut off after a number of occupied identities that is a
  parameter (\<open>lb_patience\<close>), where the code would go on until the boundary of the run ends it, and
  it agrees with the unbounded loop whenever it answers. Counts, sizes and generations are integers
  far below the exact range of a double.

  Parameters: SHA-256, JSON parsing, the schema library's texts and its date-time test, Unicode
  normalization, and the clock (the \<open>n\<close>th reading of a run).

  Not modelled: the repository's own gates and governance scripts, the rest of the knowledge
  toolchain, the parsing of the coding agents' output, the lint policy, container builds, file-system
  access and dependency injection.
\<close>

end
